(* ===== verification/Prelude.thy ===== *)
theory Prelude
  imports Main "HOL-Library.Word" "HOL-Library.Code_Target_Nat"
begin

text \<open>
  Shared vocabulary of the development: fixed-width integers under their Rust names,
  results of fallible code, the checked and saturating arithmetic of the Rust standard
  library, big-endian byte strings, and slices.
  The collections \<open>res_simps\<close> (inversion of successful fallible code) and
  \<open>arith_defs\<close> (the integer operations) carry the proofs of the components.
\<close>

named_theorems res_simps "inversion rules for results of fallible code"
named_theorems arith_defs "definitions of the Rust integer operations"

section \<open>Integers\<close>

type_synonym u8 = "8 word"
type_synonym u16 = "16 word"
type_synonym u32 = "32 word"
type_synonym u64 = "64 word"
type_synonym u128 = "128 word"
type_synonym bytes = "u8 list"

definition checked_add :: "'a::len word \<Rightarrow> 'a word \<Rightarrow> 'a word option" where
  [arith_defs]: "checked_add a b =
     (if unat a + unat b < 2 ^ LENGTH('a) then Some (a + b) else None)"

definition checked_sub :: "'a::len word \<Rightarrow> 'a word \<Rightarrow> 'a word option" where
  [arith_defs]: "checked_sub a b = (if b \<le> a then Some (a - b) else None)"

definition saturating_add :: "'a::len word \<Rightarrow> 'a word \<Rightarrow> 'a word" where
  [arith_defs]: "saturating_add a b =
     (if unat a + unat b < 2 ^ LENGTH('a) then a + b else - 1)"

definition saturating_sub :: "'a::len word \<Rightarrow> 'a word \<Rightarrow> 'a word" where
  [arith_defs]: "saturating_sub a b = (if b \<le> a then a - b else 0)"

text \<open>
  \<open>u32::try_from(len)\<close> and \<open>u64::try_from(len)\<close> on a length: the exact value where it
  fits, \<open>None\<close> otherwise; \<open>len_or_max\<close> is the same with \<open>unwrap_or(MAX)\<close>.
\<close>

definition word_of_len :: "nat \<Rightarrow> 'a::len word option" where
  [arith_defs]: "word_of_len n = (if n < 2 ^ LENGTH('a) then Some (of_nat n) else None)"

definition len_or_max :: "nat \<Rightarrow> 'a::len word" where
  [arith_defs]: "len_or_max n = (if n < 2 ^ LENGTH('a) then of_nat n else - 1)"

lemma checked_add_Some_iff [res_simps]:
  "checked_add a b = Some c \<longleftrightarrow> unat a + unat b < 2 ^ LENGTH('a::len) \<and> c = (a + b :: 'a word)"
  by (auto simp: checked_add_def)

lemma unat_add_no_overflow:
  "unat a + unat b < 2 ^ LENGTH('a::len) \<Longrightarrow> unat (a + b :: 'a word) = unat a + unat b"
  by (simp add: unat_word_ariths)

lemma checked_add_unat: "checked_add a b = Some c \<Longrightarrow> unat c = unat a + unat b"
  by (auto simp: checked_add_def unat_add_no_overflow split: if_splits)

lemma checked_sub_Some_iff [res_simps]:
  "checked_sub a b = Some c \<longleftrightarrow> b \<le> a \<and> c = a - b"
  by (auto simp: checked_sub_def)

lemma unat_max_word: "unat (- 1 :: 'a::len word) = 2 ^ LENGTH('a) - 1"
  by (simp add: unsigned_minus_1_eq_mask mask_eq_exp_minus_1)

lemma unat_bound: "unat (w :: 'a::len word) < 2 ^ LENGTH('a)"
  by (rule unsigned_less)

lemma unat_of_nat_small: "n < 2 ^ LENGTH('a::len) \<Longrightarrow> unat (of_nat n :: 'a word) = n"
  by (simp add: unat_of_nat)

lemma unat_saturating_add:
  "unat (saturating_add a b :: 'a::len word) = min (unat a + unat b) (2 ^ LENGTH('a) - 1)"
  by (auto simp: saturating_add_def unat_add_no_overflow unat_max_word min_def)

lemma unat_len_or_max: "unat (len_or_max n :: 'a::len word) = min n (2 ^ LENGTH('a) - 1)"
  by (auto simp: len_or_max_def unat_max_word min_def unat_of_nat_small)

lemma word_of_len_Some_iff [res_simps]:
  "(word_of_len n :: 'a::len word option) = Some w \<longleftrightarrow> n < 2 ^ LENGTH('a) \<and> w = of_nat n"
  by (auto simp: word_of_len_def)

lemma unat_ucast_u64: "unat (ucast (w :: u32) :: u64) = unat w"
  using unat_bound [of w] by (simp add: unsigned_ucast_eq take_bit_nat_eq_self_iff)

lemma unat_inj_iff: "unat a = unat b \<longleftrightarrow> a = (b :: 'a::len word)"
  by (auto intro: unsigned_word_eqI)

lemma word_le_unat: "(a :: 'a::len word) \<le> b \<longleftrightarrow> unat a \<le> unat b"
  by (rule word_le_nat_alt)

lemma word_less_unat: "(a :: 'a::len word) < b \<longleftrightarrow> unat a < unat b"
  by (rule word_less_nat_alt)

text \<open>
  Code equations for evaluation: overflow shows as a sum that is smaller than its summand,
  a length that does not fit as one that changes when it is read back.
\<close>

lemma no_overflow_iff: "unat a + unat b < 2 ^ LENGTH('a::len) \<longleftrightarrow> a \<le> a + (b :: 'a word)"
proof
  assume "unat a + unat b < 2 ^ LENGTH('a)"
  then show "a \<le> a + b" by (simp add: word_le_nat_alt unat_add_no_overflow)
next
  assume le: "a \<le> a + b"
  show "unat a + unat b < 2 ^ LENGTH('a)"
  proof (rule ccontr)
    assume over: "\<not> unat a + unat b < 2 ^ LENGTH('a)"
    have "unat a + unat b < 2 * 2 ^ LENGTH('a)" using unat_bound [of a] unat_bound [of b] by linarith
    with over have "unat (a + b) = unat a + unat b - 2 ^ LENGTH('a)"
      by (simp add: unat_word_ariths mod_if)
    then have "unat (a + b) < unat a" using over unat_bound [of b] by linarith
    with le show False by (simp add: word_le_nat_alt)
  qed
qed

lemma fits_iff: "n < 2 ^ LENGTH('a::len) \<longleftrightarrow> unat (of_nat n :: 'a word) = n"
proof
  assume "unat (of_nat n :: 'a word) = n"
  then show "n < 2 ^ LENGTH('a)" using unat_bound [of "of_nat n :: 'a word"] by argo
qed (rule unat_of_nat_small)

lemma checked_add_code [code]: "checked_add a b = (if a \<le> a + b then Some (a + b) else None)"
  by (simp add: checked_add_def no_overflow_iff)

lemma saturating_add_code [code]: "saturating_add a b = (if a \<le> a + b then a + b else - 1)"
  by (simp add: saturating_add_def no_overflow_iff)

lemma word_of_len_code [code]:
  "(word_of_len n :: 'a::len word option) =
     (if unat (of_nat n :: 'a word) = n then Some (of_nat n) else None)"
  by (simp add: word_of_len_def fits_iff)

lemma len_or_max_code [code]:
  "(len_or_max n :: 'a::len word) = (if unat (of_nat n :: 'a word) = n then of_nat n else - 1)"
  by (simp add: len_or_max_def fits_iff)

section \<open>Results\<close>

text \<open>
  A fallible operation returns \<open>Inl\<close> of its error or \<open>Inr\<close> of its value, and
  \<open>bind_res\<close> is the \<open>?\<close> operator. Where the code can also panic (an \<open>expect\<close>, an
  index, an assertion) or loop forever, the error side is a \<open>fault\<close>: \<open>Err e\<close> is a
  returned error, \<open>Panic\<close> the abort, \<open>Diverges\<close> a loop that does not end.
\<close>

datatype 'e fault = Err 'e | Panic | Diverges

fun bind_res :: "'e + 'a \<Rightarrow> ('a \<Rightarrow> 'e + 'b) \<Rightarrow> 'e + 'b" where
  "bind_res (Inl e) f = Inl e"
| "bind_res (Inr x) f = f x"

definition map_err :: "('e \<Rightarrow> 'f) \<Rightarrow> 'e + 'a \<Rightarrow> 'f + 'a" where
  "map_err f r = (case r of Inl e \<Rightarrow> Inl (f e) | Inr x \<Rightarrow> Inr x)"

definition ok_or :: "'e \<Rightarrow> 'a option \<Rightarrow> 'e + 'a" where
  "ok_or e x = (case x of None \<Rightarrow> Inl e | Some v \<Rightarrow> Inr v)"

definition is_ok :: "'e + 'a \<Rightarrow> bool" where
  "is_ok r = (case r of Inl _ \<Rightarrow> False | Inr _ \<Rightarrow> True)"

definition res_ok :: "'e + 'a \<Rightarrow> 'a option" where
  "res_ok r = (case r of Inl _ \<Rightarrow> None | Inr x \<Rightarrow> Some x)"

lemma bind_res_Inr_iff [res_simps]:
  "bind_res m f = Inr y \<longleftrightarrow> (\<exists>x. m = Inr x \<and> f x = Inr y)"
  by (cases m) auto

lemma bind_res_Inl_iff:
  "bind_res m f = Inl e \<longleftrightarrow> m = Inl e \<or> (\<exists>x. m = Inr x \<and> f x = Inl e)"
  by (cases m) auto

lemma map_err_Inr_iff [res_simps]: "map_err f r = Inr x \<longleftrightarrow> r = Inr x"
  by (auto simp: map_err_def split: sum.splits)

lemma map_err_simps [simp]:
  "map_err f (Inl e) = Inl (f e)" "map_err f (Inr x) = Inr x"
  by (simp_all add: map_err_def)

lemma map_err_Inl_iff: "map_err f r = Inl y \<longleftrightarrow> (\<exists>e. r = Inl e \<and> y = f e)"
  by (auto simp: map_err_def split: sum.splits)

lemma ok_or_simps [simp]: "ok_or e None = Inl e" "ok_or e (Some x) = Inr x"
  by (simp_all add: ok_or_def)

lemma ok_or_Inr_iff [res_simps]: "ok_or e x = Inr v \<longleftrightarrow> x = Some v"
  by (cases x) auto

lemma ok_or_Inl_iff: "ok_or e x = Inl f \<longleftrightarrow> x = None \<and> f = e"
  by (cases x) auto

lemma is_ok_simps [simp]: "is_ok (Inl e) = False" "is_ok (Inr x) = True"
  by (simp_all add: is_ok_def)

lemma is_ok_iff: "is_ok r \<longleftrightarrow> (\<exists>x. r = Inr x)"
  by (cases r) auto

lemma res_ok_simps [simp]: "res_ok (Inl e) = None" "res_ok (Inr x) = Some x"
  by (simp_all add: res_ok_def)

lemma if_Inl_Inr_iff [res_simps]:
  "(if b then Inl e else r) = Inr x \<longleftrightarrow> \<not> b \<and> r = Inr x"
  by auto

lemma if_Inr_Inl_iff [res_simps]:
  "(if b then r else Inl e) = Inr x \<longleftrightarrow> b \<and> r = Inr x"
  by auto

text \<open>A loop over a list that stops at the first error.\<close>

fun fold_res :: "('a \<Rightarrow> 's \<Rightarrow> 'e + 's) \<Rightarrow> 'a list \<Rightarrow> 's \<Rightarrow> 'e + 's" where
  "fold_res f [] s = Inr s"
| "fold_res f (x # xs) s = bind_res (f x s) (fold_res f xs)"

lemma fold_res_append:
  "fold_res f (xs @ ys) s = bind_res (fold_res f xs s) (fold_res f ys)"
proof (induction xs arbitrary: s)
  case (Cons x xs)
  then show ?case by (cases "f x s") auto
qed simp

text \<open>An invariant of the body is an invariant of the loop.\<close>

lemma fold_res_invariant:
  assumes "fold_res f xs s = Inr t" and "I s"
    and "\<And>x s t. x \<in> set xs \<Longrightarrow> I s \<Longrightarrow> f x s = Inr t \<Longrightarrow> I t"
  shows "I t"
  using assms
proof (induction xs arbitrary: s)
  case (Cons x xs)
  from Cons.prems(1) obtain u where u: "f x s = Inr u" "fold_res f xs u = Inr t"
    by (auto simp: res_simps)
  with Cons.prems have "I u" by auto
  with u(2) Cons show ?case by auto
qed simp

section \<open>Byte strings\<close>

text \<open>
  \<open>to_be_bytes\<close> and \<open>from_be_bytes\<close> of the Rust integers, through the natural number
  they denote: \<open>be_of_nat n v\<close> is the \<open>n\<close>-byte big-endian string of \<open>v\<close>.
\<close>

fun be_of_nat :: "nat \<Rightarrow> nat \<Rightarrow> bytes" where
  "be_of_nat 0 v = []"
| "be_of_nat (Suc n) v = be_of_nat n (v div 256) @ [of_nat v]"

definition nat_of_be :: "bytes \<Rightarrow> nat" where
  "nat_of_be bs = foldl (\<lambda>acc b. acc * 256 + unat b) 0 bs"

definition to_be_bytes :: "'a::len word \<Rightarrow> bytes" where
  "to_be_bytes w = be_of_nat (LENGTH('a) div 8) (unat w)"

definition from_be_bytes :: "bytes \<Rightarrow> 'a::len word" where
  "from_be_bytes bs = of_nat (nat_of_be bs)"

lemma length_be_of_nat [simp]: "length (be_of_nat n v) = n"
  by (induction n v rule: be_of_nat.induct) auto

lemma nat_of_be_Nil [simp]: "nat_of_be [] = 0"
  by (simp add: nat_of_be_def)

lemma nat_of_be_snoc [simp]: "nat_of_be (bs @ [b]) = nat_of_be bs * 256 + unat b"
  by (simp add: nat_of_be_def)

lemma nat_of_be_bound: "nat_of_be bs < 256 ^ length bs"
proof (induction bs rule: rev_induct)
  case (snoc b bs)
  have "unat b < 256" using unat_bound [of b] by simp
  with snoc show ?case by simp
qed simp

lemma nat_of_be_of_nat: "nat_of_be (be_of_nat n v) = v mod 256 ^ n"
proof (induction n v rule: be_of_nat.induct)
  case (2 n v)
  have "unat (of_nat v :: u8) = v mod 256" by (simp add: unat_of_nat)
  with 2 show ?case by (simp add: mod_mult2_eq mult.commute)
qed simp

lemma be_of_nat_nat_of_be: "be_of_nat (length bs) (nat_of_be bs) = bs"
proof (induction bs rule: rev_induct)
  case (snoc b bs)
  have b: "unat b < 256" using unat_bound [of b] by simp
  then have "(nat_of_be bs * 256 + unat b) div 256 = nat_of_be bs" by simp
  moreover have "of_nat (nat_of_be bs * 256 + unat b) = b"
  proof -
    have "(256 :: u8) = 0" by simp
    then show ?thesis by (simp only: of_nat_add of_nat_mult of_nat_numeral) simp
  qed
  ultimately show ?case using snoc by simp
qed simp

lemma length_to_be_bytes [simp]: "length (to_be_bytes (w :: 'a::len word)) = LENGTH('a) div 8"
  by (simp add: to_be_bytes_def)

lemma from_to_be_bytes:
  assumes "8 dvd LENGTH('a::len)"
  shows "from_be_bytes (to_be_bytes (w :: 'a word)) = w"
proof -
  from assms obtain k where k: "LENGTH('a) = 8 * k" by (auto simp: dvd_def)
  have "(256 :: nat) ^ k = 2 ^ LENGTH('a)" by (simp add: k power_mult)
  then have "unat w mod 256 ^ k = unat w" using unat_bound [of w] by simp
  then show ?thesis
    by (simp add: from_be_bytes_def to_be_bytes_def nat_of_be_of_nat k)
qed

lemma to_from_be_bytes:
  assumes "length bs * 8 = LENGTH('a::len)"
  shows "to_be_bytes (from_be_bytes bs :: 'a word) = bs"
proof -
  have "(256 :: nat) ^ length bs = 2 ^ LENGTH('a)"
    using assms by (simp add: power_mult mult.commute [of _ 8] flip: assms)
  then have "nat_of_be bs < 2 ^ LENGTH('a)" using nat_of_be_bound [of bs] by simp
  then have "unat (of_nat (nat_of_be bs) :: 'a word) = nat_of_be bs"
    by (simp add: unat_of_nat_small)
  moreover have "LENGTH('a) div 8 = length bs" using assms by presburger
  ultimately show ?thesis
    by (simp add: to_be_bytes_def from_be_bytes_def be_of_nat_nat_of_be)
qed

lemma to_be_bytes_inject:
  assumes "8 dvd LENGTH('a::len)"
  shows "to_be_bytes a = to_be_bytes b \<longleftrightarrow> a = (b :: 'a word)"
  using from_to_be_bytes [OF assms] by metis

text \<open>Two fixed-width fields followed by anything: the field is determined.\<close>

lemma to_be_bytes_append_inject:
  assumes "8 dvd LENGTH('a::len)"
  shows "to_be_bytes a @ xs = to_be_bytes b @ ys \<longleftrightarrow> a = (b :: 'a word) \<and> xs = ys"
  by (simp add: to_be_bytes_inject [OF assms])

section \<open>Slices\<close>

text \<open>
  \<open>slice_get xs i j\<close> is \<open>xs.get(i..j)\<close>: the bytes from \<open>i\<close> to \<open>j\<close>, or \<open>None\<close> when
  the range is reversed or leaves the slice.
\<close>

definition slice_get :: "'a list \<Rightarrow> nat \<Rightarrow> nat \<Rightarrow> 'a list option" where
  "slice_get xs i j = (if i \<le> j \<and> j \<le> length xs then Some (take (j - i) (drop i xs)) else None)"

lemma slice_get_Some_iff [res_simps]:
  "slice_get xs i j = Some ys \<longleftrightarrow> i \<le> j \<and> j \<le> length xs \<and> ys = take (j - i) (drop i xs)"
  by (auto simp: slice_get_def)

text \<open>Reading a field that was just written in front of the remaining bytes.\<close>

lemma slice_get_field:
  "slice_get (pre @ field @ post) (length pre) (length pre + length field) = Some field"
  by (simp add: slice_get_def)

end
