(* ===== verification/Ieee754.thy ===== *)
theory Ieee754
  imports Prelude
begin

text \<open>
  The binary floating-point numbers of the language: \<open>f32\<close> and \<open>f64\<close> as bit patterns,
  with the operations the source uses (comparison, finiteness, widening, addition,
  subtraction, multiplication, division and square root, rounded to nearest with ties to
  even). A format is given by its fraction width \<open>p\<close> and exponent width \<open>w\<close>: 23 and 8
  for \<open>f32\<close>, 52 and 11 for \<open>f64\<close>. An operation decodes its operands to exact numbers
  \<open>m * 2 ^ e\<close>, computes exactly, and rounds once. A result that is not a number is the
  quiet pattern with a zero payload (the payload is unspecified in the language and
  never inspected by the source).
\<close>

type_synonym f32 = u32
type_synonym f64 = u64

datatype float_value =
    Not_a_number
  | Infinite bool
  | Finite bool nat int  \<comment> \<open>sign (set when negative), significand, exponent of its last bit\<close>

section \<open>Bit patterns\<close>

definition min_quantum :: "nat \<Rightarrow> nat \<Rightarrow> int" where
  "min_quantum p w = 2 - 2 ^ (w - 1) - int p"

definition float_of_fields :: "nat \<Rightarrow> nat \<Rightarrow> bool \<Rightarrow> nat \<Rightarrow> nat \<Rightarrow> float_value" where
  "float_of_fields p w s ex frac =
     (if ex = 2 ^ w - 1 then (if frac = 0 then Infinite s else Not_a_number)
      else if ex = 0 then Finite s frac (min_quantum p w)
      else Finite s (frac + 2 ^ p) (min_quantum p w + int ex - 1))"

definition float_decode :: "nat \<Rightarrow> nat \<Rightarrow> nat \<Rightarrow> float_value" where
  "float_decode p w bits =
     float_of_fields p w (odd (bits div 2 ^ (p + w))) ((bits div 2 ^ p) mod 2 ^ w) (bits mod 2 ^ p)"

definition sign_bits :: "nat \<Rightarrow> nat \<Rightarrow> bool \<Rightarrow> nat" where
  "sign_bits p w s = (if s then 2 ^ (p + w) else 0)"

fun bit_length :: "nat \<Rightarrow> nat" where
  "bit_length n = (if n = 0 then 0 else Suc (bit_length (n div 2)))"

declare bit_length.simps [simp del]

text \<open>The exponent of the leading bit of \<open>n / d\<close>.\<close>

definition floor_log2_from :: "nat \<Rightarrow> nat \<Rightarrow> int \<Rightarrow> int" where
  "floor_log2_from n d l = (if d * 2 ^ nat l \<le> n * 2 ^ nat (- l) then l else l - 1)"

definition floor_log2 :: "nat \<Rightarrow> nat \<Rightarrow> int" where
  "floor_log2 n d = floor_log2_from n d (int (bit_length n) - int (bit_length d))"

text \<open>The pattern nearest to \<open>n / d\<close>, ties to even, overflow to infinity.\<close>

definition round_half_even :: "nat \<Rightarrow> nat \<Rightarrow> nat" where
  "round_half_even num den =
     (if den < 2 * (num mod den) \<or> (2 * (num mod den) = den \<and> odd (num div den))
      then Suc (num div den) else num div den)"

definition float_pack :: "nat \<Rightarrow> nat \<Rightarrow> bool \<Rightarrow> int \<Rightarrow> nat \<Rightarrow> nat" where
  "float_pack p w s k q =
     sign_bits p w s + min (nat (k - min_quantum p w) * 2 ^ p + q) ((2 ^ w - 1) * 2 ^ p)"

definition float_round_at :: "nat \<Rightarrow> nat \<Rightarrow> bool \<Rightarrow> nat \<Rightarrow> nat \<Rightarrow> int \<Rightarrow> nat" where
  "float_round_at p w s n d k =
     float_pack p w s k (round_half_even (n * 2 ^ nat (- k)) (d * 2 ^ nat k))"

definition float_round :: "nat \<Rightarrow> nat \<Rightarrow> bool \<Rightarrow> nat \<Rightarrow> nat \<Rightarrow> nat" where
  "float_round p w s n d =
     (if n = 0 then sign_bits p w s
      else float_round_at p w s n d (max (floor_log2 n d - int p) (min_quantum p w)))"

definition float_round_scaled :: "nat \<Rightarrow> nat \<Rightarrow> bool \<Rightarrow> nat \<Rightarrow> int \<Rightarrow> nat" where
  "float_round_scaled p w s m e = float_round p w s (m * 2 ^ nat e) (2 ^ nat (- e))"

definition float_encode :: "nat \<Rightarrow> nat \<Rightarrow> float_value \<Rightarrow> nat" where
  "float_encode p w v =
     (case v of
        Not_a_number \<Rightarrow> (2 ^ w - 1) * 2 ^ p + 2 ^ (p - 1)
      | Infinite s \<Rightarrow> sign_bits p w s + (2 ^ w - 1) * 2 ^ p
      | Finite s m e \<Rightarrow> float_round_scaled p w s m e)"

section \<open>Arithmetic on exact numbers\<close>

fun value_sign :: "float_value \<Rightarrow> bool" where
  "value_sign Not_a_number = False"
| "value_sign (Infinite s) = s"
| "value_sign (Finite s m e) = s"

fun value_neg :: "float_value \<Rightarrow> float_value" where
  "value_neg Not_a_number = Not_a_number"
| "value_neg (Infinite s) = Infinite (\<not> s)"
| "value_neg (Finite s m e) = Finite (\<not> s) m e"

text \<open>The integer \<open>v / 2 ^ q\<close> of a finite value whose exponent is at least \<open>q\<close>.\<close>

definition scaled_int :: "bool \<Rightarrow> nat \<Rightarrow> int \<Rightarrow> int \<Rightarrow> int" where
  "scaled_int s m e q = (if s then - 1 else 1) * int m * 2 ^ nat (e - q)"

definition finite_of_scaled :: "bool \<Rightarrow> int \<Rightarrow> int \<Rightarrow> float_value" where
  "finite_of_scaled s v q = Finite (if v = 0 then s else v < 0) (nat \<bar>v\<bar>) q"

fun value_add :: "float_value \<Rightarrow> float_value \<Rightarrow> float_value" where
  "value_add Not_a_number _ = Not_a_number"
| "value_add _ Not_a_number = Not_a_number"
| "value_add (Infinite s) (Infinite t) = (if s = t then Infinite s else Not_a_number)"
| "value_add (Infinite s) _ = Infinite s"
| "value_add _ (Infinite t) = Infinite t"
| "value_add (Finite s m e) (Finite t n f) =
     (if m = 0 \<and> n \<noteq> 0 then Finite t n f
      else if n = 0 \<and> m \<noteq> 0 then Finite s m e
      else finite_of_scaled (s \<and> t)
        (scaled_int s m e (min e f) + scaled_int t n f (min e f)) (min e f))"

fun value_mul :: "float_value \<Rightarrow> float_value \<Rightarrow> float_value" where
  "value_mul Not_a_number _ = Not_a_number"
| "value_mul _ Not_a_number = Not_a_number"
| "value_mul (Infinite s) (Infinite t) = Infinite (s \<noteq> t)"
| "value_mul (Infinite s) (Finite t n f) = (if n = 0 then Not_a_number else Infinite (s \<noteq> t))"
| "value_mul (Finite s m e) (Infinite t) = (if m = 0 then Not_a_number else Infinite (s \<noteq> t))"
| "value_mul (Finite s m e) (Finite t n f) = Finite (s \<noteq> t) (m * n) (e + f)"

fun value_less :: "float_value \<Rightarrow> float_value \<Rightarrow> bool" where
  "value_less Not_a_number _ = False"
| "value_less _ Not_a_number = False"
| "value_less (Infinite s) (Infinite t) = (s \<and> \<not> t)"
| "value_less (Infinite s) (Finite t n f) = s"
| "value_less (Finite s m e) (Infinite t) = (\<not> t)"
| "value_less (Finite s m e) (Finite t n f) =
     (scaled_int s m e (min e f) < scaled_int t n f (min e f))"

fun value_eq :: "float_value \<Rightarrow> float_value \<Rightarrow> bool" where
  "value_eq Not_a_number _ = False"
| "value_eq _ Not_a_number = False"
| "value_eq (Infinite s) (Infinite t) = (s = t)"
| "value_eq (Finite s m e) (Finite t n f) =
     (scaled_int s m e (min e f) = scaled_int t n f (min e f))"
| "value_eq _ _ = False"

section \<open>Square root\<close>

definition isqrt_step :: "nat \<Rightarrow> nat \<Rightarrow> nat" where
  "isqrt_step n r = (if Suc r * Suc r \<le> n then Suc r else r)"

fun isqrt :: "nat \<Rightarrow> nat" where
  "isqrt n = (if n = 0 then 0 else isqrt_step n (2 * isqrt (n div 4)))"

declare isqrt.simps [simp del]

lemma isqrt_bounds: "isqrt n * isqrt n \<le> n \<and> n < Suc (isqrt n) * Suc (isqrt n)"
proof (induction n rule: isqrt.induct)
  case (1 n)
  show ?case
  proof (cases "n = 0")
    case True
    then show ?thesis by (simp add: isqrt.simps)
  next
    case False
    define r where "r = isqrt (n div 4)"
    have IH: "r * r \<le> n div 4" "n div 4 < Suc r * Suc r"
      using 1 [OF False] by (auto simp: r_def)
    then have lo: "(2 * r) * (2 * r) \<le> n" and hi: "n < (2 * r + 2) * (2 * r + 2)"
      by (auto simp: algebra_simps)
    have "isqrt n = (if Suc (2 * r) * Suc (2 * r) \<le> n then Suc (2 * r) else 2 * r)"
      using False by (subst isqrt.simps) (simp add: r_def isqrt_step_def)
    with lo hi show ?thesis by (auto simp: algebra_simps split: if_splits)
  qed
qed

section \<open>The two formats\<close>

definition f32_value :: "f32 \<Rightarrow> float_value" where
  "f32_value x = float_decode 23 8 (unat x)"

definition f64_value :: "f64 \<Rightarrow> float_value" where
  "f64_value x = float_decode 52 11 (unat x)"

definition f64_of_value :: "float_value \<Rightarrow> f64" where
  "f64_of_value v = of_nat (float_encode 52 11 v)"

definition value_is_finite :: "float_value \<Rightarrow> bool" where
  "value_is_finite v = (case v of Finite _ _ _ \<Rightarrow> True | _ \<Rightarrow> False)"

definition f32_is_finite :: "f32 \<Rightarrow> bool" where
  "f32_is_finite x = value_is_finite (f32_value x)"

definition f64_is_finite :: "f64 \<Rightarrow> bool" where
  "f64_is_finite x = value_is_finite (f64_value x)"

definition f32_eq :: "f32 \<Rightarrow> f32 \<Rightarrow> bool" where
  "f32_eq x y = value_eq (f32_value x) (f32_value y)"

definition f32_less :: "f32 \<Rightarrow> f32 \<Rightarrow> bool" where
  "f32_less x y = value_less (f32_value x) (f32_value y)"

definition f32_le :: "f32 \<Rightarrow> f32 \<Rightarrow> bool" where
  "f32_le x y = (f32_less x y \<or> f32_eq x y)"

definition f64_less :: "f64 \<Rightarrow> f64 \<Rightarrow> bool" where
  "f64_less x y = value_less (f64_value x) (f64_value y)"

definition f64_of_f32 :: "f32 \<Rightarrow> f64" where
  "f64_of_f32 x = f64_of_value (f32_value x)"

definition f32_of_value :: "float_value \<Rightarrow> f32" where
  "f32_of_value v = of_nat (float_encode 23 8 v)"

definition f32_add :: "f32 \<Rightarrow> f32 \<Rightarrow> f32" where
  "f32_add x y = f32_of_value (value_add (f32_value x) (f32_value y))"

definition f32_mul :: "f32 \<Rightarrow> f32 \<Rightarrow> f32" where
  "f32_mul x y = f32_of_value (value_mul (f32_value x) (f32_value y))"

definition f64_add :: "f64 \<Rightarrow> f64 \<Rightarrow> f64" where
  "f64_add x y = f64_of_value (value_add (f64_value x) (f64_value y))"

definition f64_sub :: "f64 \<Rightarrow> f64 \<Rightarrow> f64" where
  "f64_sub x y = f64_of_value (value_add (f64_value x) (value_neg (f64_value y)))"

definition f64_mul :: "f64 \<Rightarrow> f64 \<Rightarrow> f64" where
  "f64_mul x y = f64_of_value (value_mul (f64_value x) (f64_value y))"

definition f64_recip :: "f64 \<Rightarrow> f64" where
  "f64_recip x =
     (case f64_value x of
        Not_a_number \<Rightarrow> f64_of_value Not_a_number
      | Infinite s \<Rightarrow> f64_of_value (Finite s 0 0)
      | Finite s m e \<Rightarrow>
          (if m = 0 then f64_of_value (Infinite s)
           else of_nat (float_round 52 11 s (2 ^ nat (- e)) (m * 2 ^ nat e))))"

text \<open>
  The root of \<open>m * 2 ^ e\<close> with \<open>e\<close> even: 55 extra bits of the integer root and one
  sticky bit decide the rounding.
\<close>

definition sqrt_sticky :: "nat \<Rightarrow> nat \<Rightarrow> nat" where
  "sqrt_sticky m r = 2 * r + (if r * r = m then 0 else 1)"

definition sqrt_finite :: "nat \<Rightarrow> int \<Rightarrow> float_value" where
  "sqrt_finite m e =
     (if even e then Finite False (sqrt_sticky (m * 2 ^ 110) (isqrt (m * 2 ^ 110))) (e div 2 - 56)
      else Finite False (sqrt_sticky (m * 2 ^ 111) (isqrt (m * 2 ^ 111))) ((e - 1) div 2 - 56))"

definition f64_sqrt :: "f64 \<Rightarrow> f64" where
  "f64_sqrt x =
     (case f64_value x of
        Not_a_number \<Rightarrow> f64_of_value Not_a_number
      | Infinite s \<Rightarrow> (if s then f64_of_value Not_a_number else x)
      | Finite s m e \<Rightarrow>
          (if m = 0 then x
           else if s then f64_of_value Not_a_number
           else f64_of_value (sqrt_finite m e)))"

abbreviation f32_zero :: f32 where "f32_zero \<equiv> 0"
abbreviation f32_neg_zero :: f32 where "f32_neg_zero \<equiv> 0x80000000"
abbreviation f32_one :: f32 where "f32_one \<equiv> 0x3F800000"
abbreviation f64_zero :: f64 where "f64_zero \<equiv> 0"
abbreviation f64_one :: f64 where "f64_one \<equiv> 0x3FF0000000000000"
abbreviation f64_two :: f64 where "f64_two \<equiv> 0x4000000000000000"

section \<open>Evaluation\<close>

text \<open>
  Unfolding of the two recursive helpers at numerals, and the sums and products of zero
  and one: what evaluating an identity transform needs.
\<close>

lemma bit_length_eval:
  "bit_length 0 = 0"
  "bit_length (Suc 0) = 1"
  "bit_length (numeral k) = Suc (bit_length (numeral k div 2))"
  by (subst bit_length.simps, simp add: bit_length.simps [of 0])+

lemmas float_eval_defs =
  float_encode_def float_decode_def float_of_fields_def min_quantum_def float_round_scaled_def
  float_round_def float_round_at_def floor_log2_def floor_log2_from_def round_half_even_def
  float_pack_def sign_bits_def scaled_int_def finite_of_scaled_def bit_length_eval

lemma f64_value_0_1:
  "f64_value f64_zero = Finite False 0 (- 1074)"
  "f64_value f64_one = Finite False 4503599627370496 (- 52)"
  by (simp_all add: f64_value_def float_eval_defs)

lemma f64_of_value_1_scaled:
  "f64_of_value (Finite False 20282409603651670423947251286016 (- 104)) = f64_one"
  "f64_of_value (Finite False 4503599627370496 (- 52)) = f64_one"
  by (simp_all add: f64_of_value_def float_eval_defs)

lemma f64_of_value_zero: "f64_of_value (Finite False 0 e) = f64_zero"
  by (simp add: f64_of_value_def float_encode_def float_round_scaled_def float_round_def sign_bits_def)

lemma f64_mul_0_1:
  "f64_mul f64_zero f64_zero = f64_zero" "f64_mul f64_zero f64_one = f64_zero"
  "f64_mul f64_one f64_zero = f64_zero" "f64_mul f64_one f64_one = f64_one"
  by (simp_all add: f64_mul_def f64_value_0_1 f64_of_value_zero f64_of_value_1_scaled)

lemma f64_add_0_1:
  "f64_add f64_zero f64_zero = f64_zero" "f64_add f64_zero f64_one = f64_one"
  "f64_add f64_one f64_zero = f64_one"
  by (simp_all add: f64_add_def f64_value_0_1 scaled_int_def finite_of_scaled_def
      f64_of_value_zero f64_of_value_1_scaled)

lemma f64_is_finite_0_1: "f64_is_finite f64_zero" "f64_is_finite f64_one"
  by (simp_all add: f64_is_finite_def f64_value_0_1 value_is_finite_def)

section \<open>Equality and normalised patterns\<close>

text \<open>
  A pattern below \<open>2 ^ (p + w + 1)\<close> is determined by the fields of its value: the sign,
  then exponent and significand added up.
\<close>

lemma float_decode_bits:
  assumes "float_decode p w bits = Finite s m e" and "bits < 2 ^ (p + w + 1)"
  shows "bits = sign_bits p w s + nat (e - min_quantum p w) * 2 ^ p + m"
proof -
  define frac where "frac = bits mod 2 ^ p"
  define ex where "ex = (bits div 2 ^ p) mod 2 ^ w"
  define hi where "hi = bits div 2 ^ (p + w)"
  have "bits div 2 ^ p = hi * 2 ^ w + ex"
    using div_mult_mod_eq [of "bits div 2 ^ p" "2 ^ w"]
    by (simp add: hi_def ex_def power_add div_mult2_eq)
  then have split: "bits = hi * 2 ^ (p + w) + ex * 2 ^ p + frac"
    using div_mult_mod_eq [of bits "2 ^ p"] by (simp add: frac_def power_add algebra_simps)
  have "hi < 2"
    using assms(2) unfolding hi_def by (intro less_mult_imp_div_less) (simp add: power_add)
  then have "hi = (if odd hi then 1 else 0)" by (cases hi) auto
  then have hi: "hi * 2 ^ (p + w) = sign_bits p w (odd hi)"
    by (metis mult_1 mult_zero_left sign_bits_def)
  from assms(1) have "float_of_fields p w (odd hi) ex frac = Finite s m e"
    by (simp add: float_decode_def frac_def ex_def hi_def)
  then have "s = odd hi \<and> nat (e - min_quantum p w) * 2 ^ p + m = ex * 2 ^ p + frac"
    by (cases ex) (auto simp: float_of_fields_def split: if_splits)
  with split hi show ?thesis by simp
qed

text \<open>Significands are below \<open>2 ^ (p + 1)\<close>, and at least \<open>2 ^ p\<close> above the least exponent.\<close>

lemma float_decode_range:
  assumes "float_decode p w bits = Finite s m e"
  shows "m < 2 ^ Suc p" "min_quantum p w \<le> e" "min_quantum p w < e \<Longrightarrow> 2 ^ p \<le> m"
proof -
  have "bits mod 2 ^ p < 2 ^ p" by simp
  then have "bits mod 2 ^ p < 2 * 2 ^ p" by linarith
  with assms \<open>bits mod 2 ^ p < 2 ^ p\<close> show "m < 2 ^ Suc p" "min_quantum p w \<le> e" "min_quantum p w < e \<Longrightarrow> 2 ^ p \<le> m"
    by (auto simp: float_decode_def float_of_fields_def split: if_splits)
qed

lemma float_decode_value_eq:
  assumes "float_decode p w a = Finite s m e" "float_decode p w b = Finite t n f"
    and "value_eq (Finite s m e) (Finite t n f)" and "e \<le> f"
  shows "(m = 0 \<and> n = 0) \<or> (s = t \<and> m = n \<and> e = f)"
proof (cases "e = f")
  case True
  with assms(3) show ?thesis by (auto simp: scaled_int_def split: if_splits)
next
  case False
  with assms(4) have "e < f" by simp
  then have n: "2 ^ p \<le> n"
    using float_decode_range(2) [OF assms(1)] float_decode_range(3) [OF assms(2)] by simp
  have "(2::nat) ^ Suc p \<le> n * 2 ^ nat (f - e)"
  proof -
    have "(2::nat) \<le> 2 ^ nat (f - e)" using \<open>e < f\<close> self_le_power [of 2 "nat (f - e)"] by simp
    with n show ?thesis by (metis mult.commute mult_le_mono power_Suc)
  qed
  moreover have "int m = int n * 2 ^ nat (f - e)"
  proof -
    have "\<bar>scaled_int s m e e\<bar> = \<bar>scaled_int t n f e\<bar>" using assms(3,4) by (simp add: min_def)
    then show ?thesis by (cases s; cases t; simp add: scaled_int_def abs_mult)
  qed
  then have "m = n * 2 ^ nat (f - e)"
    by (metis of_nat_eq_iff of_nat_mult of_nat_numeral of_nat_power)
  ultimately show ?thesis
    using float_decode_range(1) [OF assms(1)] by simp
qed

definition f32_normal_form :: "f32 \<Rightarrow> bool" where
  "f32_normal_form x \<longleftrightarrow> f32_is_finite x \<and> x \<noteq> f32_neg_zero"

lemma f32_normal_form_zero: "f32_normal_form x \<Longrightarrow> f32_value x = Finite s 0 e \<Longrightarrow> x = 0"
proof -
  assume x: "f32_normal_form x" and v: "f32_value x = Finite s 0 e"
  have "\<not> min_quantum 23 8 < e"
    using v float_decode_range(3) [of 23 8 "unat x" s 0 e] by (auto simp: f32_value_def)
  then have "e = min_quantum 23 8"
    using v float_decode_range(2) [of 23 8 "unat x" s 0 e] by (auto simp: f32_value_def)
  moreover have "unat x = sign_bits 23 8 s + nat (e - min_quantum 23 8) * 2 ^ 23 + 0"
    using v unat_bound [of x] by (intro float_decode_bits) (auto simp: f32_value_def)
  ultimately have *: "unat x = sign_bits 23 8 s" by simp
  have "\<not> s"
  proof
    assume s
    with * have "unat x = unat f32_neg_zero" by (simp add: sign_bits_def)
    then have "x = f32_neg_zero" by (rule unsigned_word_eqI)
    with x show False by (simp add: f32_normal_form_def)
  qed
  with * show "x = 0" by (simp add: sign_bits_def unat_eq_zero)
qed

text \<open>
  On finite patterns other than the negative zero, the comparison of the language is
  equality of the patterns: this is what normalising a scalar buys.
\<close>

lemma f32_eq_normal_form:
  assumes "f32_normal_form x" "f32_normal_form y"
  shows "f32_eq x y \<longleftrightarrow> x = y"
proof -
  obtain s m e where vx: "f32_value x = Finite s m e"
    using assms(1) by (cases "f32_value x") (auto simp: f32_normal_form_def f32_is_finite_def value_is_finite_def)
  obtain t n f where vy: "f32_value y = Finite t n f"
    using assms(2) by (cases "f32_value y") (auto simp: f32_normal_form_def f32_is_finite_def value_is_finite_def)
  have bits: "unat x = sign_bits 23 8 s + nat (e - min_quantum 23 8) * 2 ^ 23 + m"
      "unat y = sign_bits 23 8 t + nat (f - min_quantum 23 8) * 2 ^ 23 + n"
    using vx vy unat_bound [of x] unat_bound [of y]
    by (intro float_decode_bits; simp add: f32_value_def)+
  show ?thesis
  proof
    assume "f32_eq x y"
    then have eq: "value_eq (Finite s m e) (Finite t n f)" by (simp add: f32_eq_def vx vy)
    then have eq': "value_eq (Finite t n f) (Finite s m e)" by (simp add: min.commute)
    have "(m = 0 \<and> n = 0) \<or> (s = t \<and> m = n \<and> e = f)"
      using float_decode_value_eq [OF _ _ eq] float_decode_value_eq [OF _ _ eq'] vx vy
      by (cases "e \<le> f") (auto simp: f32_value_def)
    then show "x = y"
    proof
      assume "m = 0 \<and> n = 0"
      then show ?thesis
        using f32_normal_form_zero [OF assms(1)] f32_normal_form_zero [OF assms(2)] vx vy by simp
    next
      assume "s = t \<and> m = n \<and> e = f"
      with bits have "unat x = unat y" by simp
      then show ?thesis by (rule unsigned_word_eqI)
    qed
  qed (simp add: f32_eq_def vy)
qed

end
