(* ===== verification/Protocol_Id.thy ===== *)
theory Protocol_Id
  imports Ieee754 "HOL-Library.List_Lexorder"
begin

text \<open>
  The scalar values of the public protocol (\<open>cogniform-protocol/src/id.rs\<close>,
  \<open>asset.rs\<close> and the scalar errors of \<open>error.rs\<close>): opaque identifiers with their
  hexadecimal text, revisions, frame identities, schema versions, scene text, content
  hashes, and validated floating-point numbers.
  An identifier macro of the source becomes one generic operation with the constructor
  as its argument, and one datatype per identifier. A float wrapper is a type whose
  values are the patterns its \<open>new\<close> can return, so that the derived comparison of the
  source is equality.
\<close>

section \<open>Errors of scalar values\<close>

datatype value_error_kind =
    ZeroIdentifier | InvalidIdentifierEncoding | EmptyText | TextContainsNul
  | NonFiniteNumber | OutsideUnitInterval | NegativeNumber | NonPositiveNumber
  | ZeroNumericIdentifier | RevisionOverflow | ZeroSchemaVersion

datatype value_error = ValueError (ve_kind: value_error_kind)

section \<open>Hexadecimal text\<close>

text \<open>
  Text is its UTF-8 bytes. \<open>hex_digit\<close> is the digit \<open>{:x}\<close> prints, \<open>hex_value\<close> the
  value \<open>from_str_radix(_, 16)\<close> gives one of the digits the source lets through.
\<close>

definition hex_digit :: "nat \<Rightarrow> u8" where
  "hex_digit n = of_nat (if n < 10 then 48 + n else 87 + n)"

definition is_lower_hex :: "u8 \<Rightarrow> bool" where
  "is_lower_hex b \<longleftrightarrow> (48 \<le> b \<and> b \<le> 57) \<or> (97 \<le> b \<and> b \<le> 102)"

definition hex_value :: "u8 \<Rightarrow> nat" where
  "hex_value b = (if b \<le> 57 then unat b - 48 else unat b - 87)"

fun hex_text :: "nat \<Rightarrow> nat \<Rightarrow> bytes" where
  "hex_text 0 v = []"
| "hex_text (Suc n) v = hex_text n (v div 16) @ [hex_digit (v mod 16)]"

definition hex_number :: "bytes \<Rightarrow> nat" where
  "hex_number bs = foldl (\<lambda>acc b. acc * 16 + hex_value b) 0 bs"

lemma length_hex_text [simp]: "length (hex_text n v) = n"
  by (induction n v rule: hex_text.induct) auto

lemma hex_number_Nil [simp]: "hex_number [] = 0"
  by (simp add: hex_number_def)

lemma hex_number_snoc [simp]: "hex_number (bs @ [b]) = hex_number bs * 16 + hex_value b"
  by (simp add: hex_number_def)

lemma unat_hex_digit: "n < 16 \<Longrightarrow> unat (hex_digit n) = (if n < 10 then 48 + n else 87 + n)"
  by (simp add: hex_digit_def unat_of_nat_small)

lemma is_lower_hex_digit: "n < 16 \<Longrightarrow> is_lower_hex (hex_digit n)"
  by (auto simp: is_lower_hex_def word_le_unat unat_hex_digit)

lemma hex_value_digit: "n < 16 \<Longrightarrow> hex_value (hex_digit n) = n"
  by (auto simp: hex_value_def word_le_unat unat_hex_digit)

lemma hex_value_bound: "is_lower_hex b \<Longrightarrow> hex_value b < 16"
  by (auto simp: is_lower_hex_def hex_value_def word_le_unat)

lemma hex_digit_value: "is_lower_hex b \<Longrightarrow> hex_digit (hex_value b) = b"
proof -
  assume b: "is_lower_hex b"
  then have "unat (hex_digit (hex_value b)) = unat b"
    by (auto simp: unat_hex_digit hex_value_bound)
      (auto simp: is_lower_hex_def hex_value_def word_le_unat)
  then show ?thesis by (rule unsigned_word_eqI)
qed

lemma hex_text_lower: "b \<in> set (hex_text n v) \<Longrightarrow> is_lower_hex b"
  by (induction n v rule: hex_text.induct) (auto intro: is_lower_hex_digit)

lemma hex_number_text: "hex_number (hex_text n v) = v mod 16 ^ n"
proof (induction n v rule: hex_text.induct)
  case (2 n v)
  then show ?case by (simp add: hex_value_digit mod_mult2_eq mult.commute)
qed simp

lemma hex_text_number: "\<forall>b\<in>set bs. is_lower_hex b \<Longrightarrow> hex_text (length bs) (hex_number bs) = bs"
proof (induction bs rule: rev_induct)
  case (snoc b bs)
  have "hex_value b < 16" using snoc.prems by (auto intro: hex_value_bound)
  then show ?case using snoc by (simp add: hex_digit_value)
qed simp

lemma hex_number_bound: "\<forall>b\<in>set bs. is_lower_hex b \<Longrightarrow> hex_number bs < 16 ^ length bs"
proof (induction bs rule: rev_induct)
  case (snoc b bs)
  have "hex_value b < 16" using snoc.prems by (auto intro: hex_value_bound)
  then show ?case using snoc by simp
qed simp

section \<open>Opaque identifiers\<close>

text \<open>The macro \<open>opaque_id!\<close>, generic in the constructor \<open>mk\<close> of the identifier type.\<close>

definition opaque_id_new :: "(u128 \<Rightarrow> 'id) \<Rightarrow> u128 \<Rightarrow> value_error + 'id" where
  "opaque_id_new mk value =
     (if value = 0 then Inl (ValueError ZeroIdentifier) else Inr (mk value))"

definition opaque_id_display :: "u128 \<Rightarrow> bytes" where
  "opaque_id_display value = hex_text 32 (unat value)"

definition opaque_id_from_str :: "(u128 \<Rightarrow> 'id) \<Rightarrow> bytes \<Rightarrow> value_error + 'id" where
  "opaque_id_from_str mk value =
     (if length value \<noteq> 32 \<or> \<not> list_all is_lower_hex value
      then Inl (ValueError InvalidIdentifierEncoding)
      else opaque_id_new mk (of_nat (hex_number value)))"

datatype stable_entity_id = StableEntityId (entity_get: u128)
datatype transaction_id = TransactionId (transaction_get: u128)
datatype idempotency_key = IdempotencyKey (key_get: u128)
datatype observation_id = ObservationId (observation_get: u128)
datatype imagination_id = ImaginationId (imagination_get: u128)
datatype procedure_id = ProcedureId (procedure_get: u128)

instantiation stable_entity_id :: linorder
begin

definition less_eq_stable_entity_id :: "stable_entity_id \<Rightarrow> stable_entity_id \<Rightarrow> bool" where
  "less_eq_stable_entity_id a b \<longleftrightarrow> entity_get a \<le> entity_get b"

definition less_stable_entity_id :: "stable_entity_id \<Rightarrow> stable_entity_id \<Rightarrow> bool" where
  "less_stable_entity_id a b \<longleftrightarrow> entity_get a < entity_get b"

instance
  by standard (auto simp: less_eq_stable_entity_id_def less_stable_entity_id_def
      intro: stable_entity_id.expand)

end

instantiation idempotency_key :: linorder
begin

definition less_eq_idempotency_key :: "idempotency_key \<Rightarrow> idempotency_key \<Rightarrow> bool" where
  "less_eq_idempotency_key a b \<longleftrightarrow> key_get a \<le> key_get b"

definition less_idempotency_key :: "idempotency_key \<Rightarrow> idempotency_key \<Rightarrow> bool" where
  "less_idempotency_key a b \<longleftrightarrow> key_get a < key_get b"

instance
  by standard (auto simp: less_eq_idempotency_key_def less_idempotency_key_def
      intro: idempotency_key.expand)

end

text \<open>
  Parsing accepts exactly the texts that \<open>Display\<close> produces for a non-zero value, and
  gives that value back.
\<close>

lemma opaque_id_parse_display:
  "opaque_id_from_str mk (opaque_id_display v) = opaque_id_new mk v"
proof -
  have "unat v mod 16 ^ 32 = unat v" using unat_bound [of v] by simp
  then show ?thesis
    using hex_text_lower [of _ 32 "unat v"]
    by (auto simp: opaque_id_from_str_def opaque_id_display_def hex_number_text list_all_iff)
qed

lemma opaque_id_from_str_Inr:
  assumes "opaque_id_from_str mk value = Inr i"
  shows "\<exists>v. v \<noteq> 0 \<and> i = mk v \<and> value = opaque_id_display v"
proof -
  have len: "length value = 32" and hex: "\<forall>b\<in>set value. is_lower_hex b"
    and new: "opaque_id_new mk (of_nat (hex_number value)) = Inr i"
    using assms by (auto simp: opaque_id_from_str_def list_all_iff split: if_splits)
  have "hex_number value < 2 ^ 128" using hex_number_bound [OF hex] len by simp
  then have "unat (of_nat (hex_number value) :: u128) = hex_number value"
    by (simp add: unat_of_nat_small)
  then have "opaque_id_display (of_nat (hex_number value)) = value"
    using hex_text_number [OF hex] len by (simp add: opaque_id_display_def)
  with new show ?thesis by (auto simp: opaque_id_new_def split: if_splits)
qed

section \<open>Revisions, frames and versions\<close>

datatype scene_revision = SceneRevision (revision_get: u64)

abbreviation INITIAL :: scene_revision where "INITIAL \<equiv> SceneRevision 0"

instantiation scene_revision :: linorder
begin

definition less_eq_scene_revision :: "scene_revision \<Rightarrow> scene_revision \<Rightarrow> bool" where
  "less_eq_scene_revision a b \<longleftrightarrow> revision_get a \<le> revision_get b"

definition less_scene_revision :: "scene_revision \<Rightarrow> scene_revision \<Rightarrow> bool" where
  "less_scene_revision a b \<longleftrightarrow> revision_get a < revision_get b"

instance
  by standard (auto simp: less_eq_scene_revision_def less_scene_revision_def
      intro: scene_revision.expand)

end

definition checked_next :: "scene_revision \<Rightarrow> value_error + scene_revision" where
  "checked_next r =
     (case checked_add (revision_get r) 1 of
        Some value \<Rightarrow> Inr (SceneRevision value)
      | None \<Rightarrow> Inl (ValueError RevisionOverflow))"

lemma checked_next_Inr_iff [res_simps]:
  "checked_next r = Inr s \<longleftrightarrow>
     unat (revision_get r) + 1 < 2 ^ 64 \<and> s = SceneRevision (revision_get r + 1)"
  by (auto simp: checked_next_def checked_add_def)

lemma checked_next_unat:
  "checked_next r = Inr s \<Longrightarrow> unat (revision_get s) = Suc (unat (revision_get r))"
  by (auto simp: checked_next_Inr_iff unat_add_no_overflow)

datatype frame_id = FrameId (frame_get: u64)

definition frame_id_new :: "u64 \<Rightarrow> value_error + frame_id" where
  "frame_id_new value =
     (if value = 0 then Inl (ValueError ZeroNumericIdentifier) else Inr (FrameId value))"

datatype schema_version = SchemaVersion (version_get: u16)

abbreviation V1 :: schema_version where "V1 \<equiv> SchemaVersion 1"

definition schema_version_new :: "u16 \<Rightarrow> value_error + schema_version" where
  "schema_version_new value =
     (if value = 0 then Inl (ValueError ZeroSchemaVersion) else Inr (SchemaVersion value))"

section \<open>Scene text\<close>

text \<open>A scene text is the byte string of its UTF-8 encoding, where NUL is the byte 0.\<close>

datatype scene_text = SceneText (text_bytes_of: bytes)

definition scene_text_new :: "bytes \<Rightarrow> value_error + scene_text" where
  "scene_text_new value =
     (if value = [] then Inl (ValueError EmptyText)
      else if 0 \<in> set value then Inl (ValueError TextContainsNul)
      else Inr (SceneText value))"

definition len_bytes :: "scene_text \<Rightarrow> nat" where
  "len_bytes t = length (text_bytes_of t)"

instantiation scene_text :: linorder
begin

definition less_eq_scene_text :: "scene_text \<Rightarrow> scene_text \<Rightarrow> bool" where
  "less_eq_scene_text a b \<longleftrightarrow> text_bytes_of a \<le> text_bytes_of b"

definition less_scene_text :: "scene_text \<Rightarrow> scene_text \<Rightarrow> bool" where
  "less_scene_text a b \<longleftrightarrow> text_bytes_of a < text_bytes_of b"

instance
  by standard (auto simp: less_eq_scene_text_def less_scene_text_def intro: scene_text.expand)

end

section \<open>Content hashes\<close>

datatype content_hash = ContentHash (hash_bytes: bytes)

definition content_hash_display :: "content_hash \<Rightarrow> bytes" where
  "content_hash_display h = concat (map (\<lambda>b. hex_text 2 (unat b)) (hash_bytes h))"

fun hex_pairs :: "bytes \<Rightarrow> bytes" where
  "hex_pairs (a # b # rest) = of_nat (hex_number [a, b]) # hex_pairs rest"
| "hex_pairs _ = []"

definition content_hash_from_str :: "bytes \<Rightarrow> value_error + content_hash" where
  "content_hash_from_str value =
     (if length value \<noteq> 64 \<or> \<not> list_all is_lower_hex value
      then Inl (ValueError InvalidIdentifierEncoding)
      else Inr (ContentHash (hex_pairs value)))"

lemma hex_text_2: "hex_text 2 v = [hex_digit (v div 16 mod 16), hex_digit (v mod 16)]"
  by (simp add: numeral_2_eq_2)

lemma hex_pairs_display: "hex_pairs (concat (map (\<lambda>b. hex_text 2 (unat b)) bs)) = bs"
proof (induction bs)
  case (Cons b bs)
  have "hex_number (hex_text 2 (unat b)) = unat b"
    using unat_bound [of b] by (simp add: hex_number_text)
  then show ?case using Cons by (simp add: hex_text_2)
qed simp

lemma content_hash_parse_display:
  assumes "length (hash_bytes h) = 32"
  shows "content_hash_from_str (content_hash_display h) = Inr h"
proof -
  have "length (content_hash_display h) = 64"
    using assms by (simp add: content_hash_display_def length_concat comp_def sum_list_triv)
  moreover have "list_all is_lower_hex (content_hash_display h)"
    by (auto simp: content_hash_display_def list_all_iff dest: hex_text_lower)
  moreover have "hex_pairs (content_hash_display h) = hash_bytes h"
    unfolding content_hash_display_def by (rule hex_pairs_display)
  ultimately show ?thesis by (simp add: content_hash_from_str_def)
qed

section \<open>Validated floating-point values\<close>

text \<open>
  The macro \<open>float_value!\<close>, generic in the predicate and in the constructor: finite
  values that pass the predicate, with the negative zero normalised.
\<close>

definition float_value_new ::
    "(f32 \<Rightarrow> 'v) \<Rightarrow> (f32 \<Rightarrow> bool) \<Rightarrow> value_error_kind \<Rightarrow> f32 \<Rightarrow> value_error + 'v" where
  "float_value_new mk valid err value =
     (if \<not> f32_is_finite value then Inl (ValueError NonFiniteNumber)
      else if \<not> valid value then Inl (ValueError err)
      else Inr (mk (if f32_eq value f32_zero then f32_zero else value)))"

definition valid_positive :: "f32 \<Rightarrow> bool" where
  "valid_positive x \<longleftrightarrow> f32_less f32_zero x"

definition valid_non_negative :: "f32 \<Rightarrow> bool" where
  "valid_non_negative x \<longleftrightarrow> f32_le f32_zero x"

definition valid_unit :: "f32 \<Rightarrow> bool" where
  "valid_unit x \<longleftrightarrow> f32_le f32_zero x \<and> f32_le x f32_one"

lemma f32_value_constants:
  "f32_value 0 = Finite False 0 (- 149)"
  "f32_value f32_neg_zero = Finite True 0 (- 149)"
  "f32_value f32_one = Finite False 8388608 (- 23)"
  by (simp_all add: f32_value_def float_eval_defs)

lemmas f32_compare_defs =
  f32_less_def f32_eq_def f32_le_def f32_value_constants f32_is_finite_def
  value_is_finite_def scaled_int_def

lemma f32_constants_ok:
  "f32_normal_form 0" "f32_normal_form f32_one" "valid_positive f32_one"
  "valid_non_negative 0" "valid_unit 0"
  by (simp_all add: f32_normal_form_def valid_positive_def valid_non_negative_def valid_unit_def
      f32_compare_defs)

text \<open>Normalisation lands in the patterns on which comparison is equality.\<close>

lemma f32_normalise:
  assumes "f32_is_finite x"
  shows "f32_normal_form (if f32_eq x 0 then 0 else x)"
proof -
  have "f32_eq f32_neg_zero 0" by (simp add: f32_compare_defs)
  with assms f32_constants_ok(1) show ?thesis by (auto simp: f32_normal_form_def)
qed

typedef finite_f32 = "{x. f32_normal_form x}"
  morphisms finite_get Abs_finite_f32 using f32_constants_ok by blast

typedef positive_f32 = "{x. f32_normal_form x \<and> valid_positive x}"
  morphisms positive_get Abs_positive_f32 using f32_constants_ok by blast

typedef non_negative_f32 = "{x. f32_normal_form x \<and> valid_non_negative x}"
  morphisms non_negative_get Abs_non_negative_f32 using f32_constants_ok by blast

typedef unit_f32 = "{x. f32_normal_form x \<and> valid_unit x}"
  morphisms unit_get Abs_unit_f32 using f32_constants_ok by blast

setup_lifting type_definition_finite_f32
setup_lifting type_definition_positive_f32
setup_lifting type_definition_non_negative_f32
setup_lifting type_definition_unit_f32

lift_definition mk_finite_f32 :: "f32 \<Rightarrow> finite_f32"
  is "\<lambda>x. if f32_normal_form x then x else 0" using f32_constants_ok by auto

lift_definition mk_positive_f32 :: "f32 \<Rightarrow> positive_f32"
  is "\<lambda>x. if f32_normal_form x \<and> valid_positive x then x else f32_one"
  using f32_constants_ok by auto

lift_definition mk_non_negative_f32 :: "f32 \<Rightarrow> non_negative_f32"
  is "\<lambda>x. if f32_normal_form x \<and> valid_non_negative x then x else 0"
  using f32_constants_ok by auto

lift_definition mk_unit_f32 :: "f32 \<Rightarrow> unit_f32"
  is "\<lambda>x. if f32_normal_form x \<and> valid_unit x then x else 0"
  using f32_constants_ok by auto

instantiation finite_f32 :: equal
begin

lift_definition equal_finite_f32 :: "finite_f32 \<Rightarrow> finite_f32 \<Rightarrow> bool" is "(=)" .

instance
  by standard (transfer, simp)

end

instantiation positive_f32 :: equal
begin

lift_definition equal_positive_f32 :: "positive_f32 \<Rightarrow> positive_f32 \<Rightarrow> bool" is "(=)" .

instance
  by standard (transfer, simp)

end

instantiation non_negative_f32 :: equal
begin

lift_definition equal_non_negative_f32 :: "non_negative_f32 \<Rightarrow> non_negative_f32 \<Rightarrow> bool" is "(=)" .

instance
  by standard (transfer, simp)

end

instantiation unit_f32 :: equal
begin

lift_definition equal_unit_f32 :: "unit_f32 \<Rightarrow> unit_f32 \<Rightarrow> bool" is "(=)" .

instance
  by standard (transfer, simp)

end

definition finite_f32_new :: "f32 \<Rightarrow> value_error + finite_f32" where
  "finite_f32_new = float_value_new mk_finite_f32 (\<lambda>_. True) NonFiniteNumber"

definition positive_f32_new :: "f32 \<Rightarrow> value_error + positive_f32" where
  "positive_f32_new = float_value_new mk_positive_f32 valid_positive NonPositiveNumber"

definition non_negative_f32_new :: "f32 \<Rightarrow> value_error + non_negative_f32" where
  "non_negative_f32_new = float_value_new mk_non_negative_f32 valid_non_negative NegativeNumber"

definition unit_f32_new :: "f32 \<Rightarrow> value_error + unit_f32" where
  "unit_f32_new = float_value_new mk_unit_f32 valid_unit OutsideUnitInterval"

text \<open>
  What the four wrappers share: \<open>mk\<close> builds a value from a normalised pattern that
  passes the predicate, \<open>get\<close> reads it back, and normalising keeps the predicate.
\<close>

locale float_wrapper =
  fixes mk :: "f32 \<Rightarrow> 'v" and get :: "'v \<Rightarrow> f32" and valid :: "f32 \<Rightarrow> bool"
    and err :: value_error_kind
  assumes get_mk: "f32_normal_form x \<Longrightarrow> valid x \<Longrightarrow> get (mk x) = x"
    and mk_get: "mk (get v) = v"
    and get_normal: "f32_normal_form (get v)"
    and get_valid: "valid (get v)"
    and valid_normalise: "f32_is_finite x \<Longrightarrow> valid x \<Longrightarrow> valid (if f32_eq x 0 then 0 else x)"
begin

lemma new_Inr_iff:
  "float_value_new mk valid err x = Inr v \<longleftrightarrow>
     f32_is_finite x \<and> valid x \<and> get v = (if f32_eq x 0 then 0 else x)"
proof -
  have "get v = y \<Longrightarrow> mk y = v" for y using mk_get by blast
  moreover have "f32_is_finite x \<Longrightarrow> valid x \<Longrightarrow>
      get (mk (if f32_eq x 0 then 0 else x)) = (if f32_eq x 0 then 0 else x)"
    by (intro get_mk f32_normalise valid_normalise)
  ultimately show ?thesis
    by (auto simp: float_value_new_def)
qed

lemma new_get: "float_value_new mk valid err (get v) = Inr v"
proof -
  have "f32_eq (get v) 0 \<Longrightarrow> get v = 0"
    using f32_eq_normal_form [OF get_normal f32_constants_ok(1)] by blast
  then show ?thesis
    using get_normal [of v] get_valid [of v] by (auto simp: new_Inr_iff f32_normal_form_def)
qed

lemma get_eq_iff: "f32_eq (get v) (get u) \<longleftrightarrow> v = u"
  using f32_eq_normal_form [OF get_normal get_normal] mk_get by metis

end

lemma valid_positive_nonzero: "valid_positive x \<Longrightarrow> \<not> f32_eq x 0"
  by (cases "f32_value x")
    (auto simp: valid_positive_def f32_compare_defs min.commute intro!: gr0I)

interpretation finite_f32: float_wrapper mk_finite_f32 finite_get "\<lambda>_. True" NonFiniteNumber
  by unfold_locales (transfer; simp)+

interpretation positive_f32: float_wrapper mk_positive_f32 positive_get valid_positive NonPositiveNumber
proof unfold_locales
  show "f32_is_finite x \<Longrightarrow> valid_positive x \<Longrightarrow> valid_positive (if f32_eq x 0 then 0 else x)" for x
    using valid_positive_nonzero by simp
qed (transfer; simp)+

interpretation non_negative_f32:
  float_wrapper mk_non_negative_f32 non_negative_get valid_non_negative NegativeNumber
proof unfold_locales
  show "f32_is_finite x \<Longrightarrow> valid_non_negative x \<Longrightarrow>
      valid_non_negative (if f32_eq x 0 then 0 else x)" for x
    using f32_constants_ok by simp
qed (transfer; simp)+

interpretation unit_f32: float_wrapper mk_unit_f32 unit_get valid_unit OutsideUnitInterval
proof unfold_locales
  show "f32_is_finite x \<Longrightarrow> valid_unit x \<Longrightarrow> valid_unit (if f32_eq x 0 then 0 else x)" for x
    using f32_constants_ok by simp
qed (transfer; simp)+

end
