(* ===== verification/Protocol_Component.thy ===== *)
theory Protocol_Component
  imports Protocol_Id
begin

text \<open>
  Diagnostics (\<open>cogniform-protocol/src/error.rs\<close>), runtime limits and patch budgets
  (\<open>limits.rs\<close>), and the scene components (\<open>component.rs\<close>, \<open>asset.rs\<close>) with their
  domain checks and deterministic sizes. The non-zero integers of the limits are plain
  words here: nothing below depends on a limit being non-zero.
\<close>

section \<open>Diagnostics\<close>

datatype diagnostic_code =
    UnsupportedSchema | EmptyPatch | OperationLimitExceeded | ComponentLimitExceeded
  | TextLimitExceeded | DecodedSizeLimitExceeded | DiagnosticLimitExceeded
  | QueueCapacityExceeded | EmptyImagination | ImaginationEntityLimitExceeded
  | ImaginationRelationLimitExceeded | ImaginationConstraintLimitExceeded
  | DuplicateImaginationEntity | DuplicateQueryFilter | QueryEntityLimitExceeded
  | NonCanonicalQueryResult | InvalidComponentValue | DuplicateComponent | SelfParent
  | InvalidReceiptRevision | InvalidReceiptOperationCount | InvalidObservationDimensions
  | ObservationPixelLimitExceeded | InvalidObservationStaleness

datatype validation_error =
  ValidationError (error_code: diagnostic_code) (error_field: string)

datatype json_error_category = Syntax | Data | EndOfFile | Io

datatype codec_error =
    EncodedSizeExceeded u64 u64
  | NestingLimitExceeded u16 u16
  | MalformedJson json_error_category nat nat
  | InvalidMessage validation_error
  | SerializationFailed

section \<open>Limits\<close>

record runtime_limits =
  max_encoded_bytes :: u64
  max_decoded_bytes :: u64
  max_json_nesting_depth :: u16
  max_operations :: u32
  max_components :: u32
  max_components_per_entity :: u32
  max_text_bytes :: u64
  max_diagnostics :: u32
  max_queue_capacity :: u32
  max_imagination_entities :: u32
  max_imagination_relations :: u32
  max_imagination_constraints :: u32
  max_query_entities :: u32
  max_observation_width :: u32
  max_observation_height :: u32
  max_observation_pixels :: u64

definition runtime_limits_default :: runtime_limits where
  "runtime_limits_default =
     \<lparr> max_encoded_bytes = 1048576, max_decoded_bytes = 4194304, max_json_nesting_depth = 32,
       max_operations = 1024, max_components = 8192, max_components_per_entity = 64,
       max_text_bytes = 65536, max_diagnostics = 128, max_queue_capacity = 1024,
       max_imagination_entities = 256, max_imagination_relations = 512,
       max_imagination_constraints = 256, max_query_entities = 1024,
       max_observation_width = 4096, max_observation_height = 4096,
       max_observation_pixels = 16777216 \<rparr>"

record patch_budget =
  budget_max_operations :: u32
  budget_max_components :: u32
  budget_max_text_bytes :: u64
  budget_max_decoded_bytes :: u64

definition patch_budget_default :: patch_budget where
  "patch_budget_default =
     \<lparr> budget_max_operations = 256, budget_max_components = 2048,
       budget_max_text_bytes = 16384, budget_max_decoded_bytes = 262144 \<rparr>"

section \<open>Component values\<close>

record vec3 =
  vec3_x :: finite_f32
  vec3_y :: finite_f32
  vec3_z :: finite_f32

record positive_vec3 =
  pvec3_x :: positive_f32
  pvec3_y :: positive_f32
  pvec3_z :: positive_f32

record quaternion =
  quat_x :: finite_f32
  quat_y :: finite_f32
  quat_z :: finite_f32
  quat_w :: finite_f32

abbreviation f64_neg_zero :: f64 where "f64_neg_zero \<equiv> 0x8000000000000000"

definition f64_sum :: "f64 list \<Rightarrow> f64" where
  "f64_sum xs = foldl f64_add f64_neg_zero xs"

definition f64_square_f32 :: "f32 \<Rightarrow> f64" where
  "f64_square_f32 x = f64_mul (f64_of_f32 x) (f64_of_f32 x)"

definition is_non_zero :: "quaternion \<Rightarrow> bool" where
  "is_non_zero q \<longleftrightarrow>
     f64_less f64_zero
       (f64_sum (map f64_square_f32
          [finite_get (quat_x q), finite_get (quat_y q), finite_get (quat_z q), finite_get (quat_w q)]))"

record color_rgb =
  rgb_r :: unit_f32
  rgb_g :: unit_f32
  rgb_b :: unit_f32

record color_rgba =
  rgba_r :: unit_f32
  rgba_g :: unit_f32
  rgba_b :: unit_f32
  rgba_a :: unit_f32

record name_component =
  name_value :: scene_text

record local_transform =
  lt_translation :: vec3
  lt_rotation :: quaternion
  lt_scale :: positive_vec3

datatype primitive_shape = Cuboid | Plane | Sphere

record primitive_component =
  prim_shape :: primitive_shape
  prim_dimensions :: positive_vec3

record material_component =
  mat_base_color :: color_rgba
  mat_metallic :: unit_f32
  mat_roughness :: unit_f32

record camera_component =
  cam_vertical_fov_radians :: positive_f32
  cam_near :: positive_f32
  cam_far :: positive_f32

datatype light_kind = Directional | Point

record light_component =
  light_kind :: light_kind
  light_color :: color_rgb
  light_intensity :: non_negative_f32

record asset_mesh_component =
  am_content_hash :: content_hash
  am_mesh_index :: u32

datatype component_kind =
    NameKind | LocalTransformKind | PrimitiveKind | MaterialKind | CameraKind | LightKind
  | AssetMeshKind

fun kind_index :: "component_kind \<Rightarrow> nat" where
  "kind_index NameKind = 0"
| "kind_index LocalTransformKind = 1"
| "kind_index PrimitiveKind = 2"
| "kind_index MaterialKind = 3"
| "kind_index CameraKind = 4"
| "kind_index LightKind = 5"
| "kind_index AssetMeshKind = 6"

lemma kind_index_inject: "kind_index a = kind_index b \<longleftrightarrow> a = b"
  by (cases a; cases b) auto

instantiation component_kind :: linorder
begin

definition less_eq_component_kind :: "component_kind \<Rightarrow> component_kind \<Rightarrow> bool" where
  "less_eq_component_kind a b \<longleftrightarrow> kind_index a \<le> kind_index b"

definition less_component_kind :: "component_kind \<Rightarrow> component_kind \<Rightarrow> bool" where
  "less_component_kind a b \<longleftrightarrow> kind_index a < kind_index b"

instance
  by standard (auto simp: less_eq_component_kind_def less_component_kind_def
      simp flip: kind_index_inject)

end

datatype component_value =
    Name name_component
  | LocalTransform local_transform
  | Primitive primitive_component
  | Material material_component
  | Camera camera_component
  | Light light_component
  | AssetMesh asset_mesh_component

fun component_kind_of :: "component_value \<Rightarrow> component_kind" where
  "component_kind_of (Name _) = NameKind"
| "component_kind_of (LocalTransform _) = LocalTransformKind"
| "component_kind_of (Primitive _) = PrimitiveKind"
| "component_kind_of (Material _) = MaterialKind"
| "component_kind_of (Camera _) = CameraKind"
| "component_kind_of (Light _) = LightKind"
| "component_kind_of (AssetMesh _) = AssetMeshKind"

fun component_text_bytes :: "component_value \<Rightarrow> nat" where
  "component_text_bytes (Name n) = len_bytes (name_value n)"
| "component_text_bytes _ = 0"

fun component_logical_size_bytes :: "component_value \<Rightarrow> u64" where
  "component_logical_size_bytes (Name n) =
     saturating_add (saturating_add 1 4) (len_or_max (len_bytes (name_value n)))"
| "component_logical_size_bytes (LocalTransform _) = 1 + 10 * 4"
| "component_logical_size_bytes (Primitive _) = 1 + 1 + 3 * 4"
| "component_logical_size_bytes (Material _) = 1 + 6 * 4"
| "component_logical_size_bytes (Camera _) = 1 + 3 * 4"
| "component_logical_size_bytes (Light _) = 1 + 1 + 4 * 4"
| "component_logical_size_bytes (AssetMesh _) = 1 + 32 + 4"

abbreviation f32_pi :: f32 where "f32_pi \<equiv> 0x40490FDB"

fun component_validate :: "component_value \<Rightarrow> validation_error + unit" where
  "component_validate (LocalTransform t) =
     (if \<not> is_non_zero (lt_rotation t)
      then Inl (ValidationError InvalidComponentValue ''component.rotation'') else Inr ())"
| "component_validate (Camera c) =
     (if f32_le f32_pi (positive_get (cam_vertical_fov_radians c))
         \<or> f32_le (positive_get (cam_far c)) (positive_get (cam_near c))
      then Inl (ValidationError InvalidComponentValue ''component.camera'') else Inr ())"
| "component_validate _ = Inr ()"

end
