(* ===== verification/Btree_Map.thy ===== *)
theory Btree_Map
  imports Prelude
begin

text \<open>
  \<open>std::collections::BTreeMap\<close> and \<open>BTreeSet\<close> as the source uses them: finite maps with
  a total order on the keys, iterated in key order, and equal when they hold the same
  entries. The representation is the strictly ascending list of entries, so equality of
  maps is equality of their lookups (\<open>bm_eq_iff\<close>), and every operation is executable.
  A set is a map to the unit type, as in the Rust library.
\<close>

section \<open>Ascending association lists\<close>

abbreviation ascending :: "('k::linorder \<times> 'v) list \<Rightarrow> bool" where
  "ascending xs \<equiv> sorted_wrt (<) (map fst xs)"

fun alist_put :: "'k::linorder \<Rightarrow> 'v \<Rightarrow> ('k \<times> 'v) list \<Rightarrow> ('k \<times> 'v) list" where
  "alist_put k v [] = [(k, v)]"
| "alist_put k v ((a, b) # xs) =
     (if a < k then (a, b) # alist_put k v xs
      else (k, v) # (if a = k then xs else (a, b) # xs))"

lemma alist_put_keys: "set (map fst (alist_put k v xs)) = insert k (set (map fst xs))"
  by (induction k v xs rule: alist_put.induct) auto

lemma ascending_alist_put: "ascending xs \<Longrightarrow> ascending (alist_put k v xs)"
proof (induction k v xs rule: alist_put.induct)
  case (2 k v a b xs)
  then show ?case
    using alist_put_keys [of k v xs]
    by (cases "a < k") (auto simp del: set_map dest: order_less_trans)
qed simp

lemma map_of_alist_put: "ascending xs \<Longrightarrow> map_of (alist_put k v xs) = (map_of xs)(k \<mapsto> v)"
  by (induction k v xs rule: alist_put.induct) (auto simp: fun_eq_iff)

lemma ascending_filter: "ascending xs \<Longrightarrow> ascending (filter p xs)"
  by (induction xs) auto

lemma ascending_distinct: "ascending xs \<Longrightarrow> distinct (map fst xs)"
  by (induction xs) auto

lemma map_of_filter_key:
  "map_of (filter (\<lambda>(k, v). p k) xs) = (\<lambda>k. if p k then map_of xs k else None)"
  by (induction xs) (auto simp: fun_eq_iff)

lemma ascending_unique:
  assumes "ascending xs" "ascending ys" "map_of xs = map_of ys"
  shows "xs = ys"
proof -
  have "set xs = set ys"
    using assms ascending_distinct map_of_inject_set by metis
  moreover have "inj_on fst (set xs \<union> set ys)"
    using ascending_distinct [OF assms(1)] calculation by (simp add: distinct_map)
  moreover have "sorted_list_of_set (fst ` set zs) = map fst zs" if "ascending zs" for zs :: "('a \<times> 'b) list"
    using that by (metis list.set_map sorted_list_of_set_unique strict_sorted_iff sorted_list_of_set.idem_if_sorted_distinct)
  ultimately show ?thesis
    using assms(1,2) by (metis inj_on_map_eq_map)
qed

section \<open>The map type\<close>

typedef (overloaded) ('k::linorder, 'v) btree_map = "{xs :: ('k \<times> 'v) list. ascending xs}"
  morphisms entries_rep Abs_btree_map
  by (rule exI [of _ "[]"]) simp

setup_lifting type_definition_btree_map

lift_definition bm_empty :: "('k::linorder, 'v) btree_map" is "[]" by simp

lift_definition bm_get :: "('k::linorder, 'v) btree_map \<Rightarrow> 'k \<Rightarrow> 'v option" is map_of .

lift_definition bm_entries :: "('k::linorder, 'v) btree_map \<Rightarrow> ('k \<times> 'v) list" is "\<lambda>xs. xs" .

lift_definition bm_insert :: "'k::linorder \<Rightarrow> 'v \<Rightarrow> ('k, 'v) btree_map \<Rightarrow> ('k, 'v) btree_map"
  is alist_put by (rule ascending_alist_put)

lift_definition bm_remove :: "'k::linorder \<Rightarrow> ('k, 'v) btree_map \<Rightarrow> ('k, 'v) btree_map"
  is "\<lambda>k. filter (\<lambda>(a, b). a \<noteq> k)" by (rule ascending_filter)

lift_definition bm_retain :: "('k::linorder \<Rightarrow> bool) \<Rightarrow> ('k, 'v) btree_map \<Rightarrow> ('k, 'v) btree_map"
  is "\<lambda>p. filter (\<lambda>(a, b). p a)" by (rule ascending_filter)

instantiation btree_map :: (linorder, equal) equal
begin

lift_definition equal_btree_map :: "('a, 'b) btree_map \<Rightarrow> ('a, 'b) btree_map \<Rightarrow> bool"
  is "(=)" .

instance
  by standard (transfer, simp)

end

definition bm_keys :: "('k::linorder, 'v) btree_map \<Rightarrow> 'k list" where
  "bm_keys m = map fst (bm_entries m)"

definition bm_values :: "('k::linorder, 'v) btree_map \<Rightarrow> 'v list" where
  "bm_values m = map snd (bm_entries m)"

definition bm_len :: "('k::linorder, 'v) btree_map \<Rightarrow> nat" where
  "bm_len m = length (bm_entries m)"

definition bm_contains :: "('k::linorder, 'v) btree_map \<Rightarrow> 'k \<Rightarrow> bool" where
  "bm_contains m k = (bm_get m k \<noteq> None)"

definition bm_extend :: "('k::linorder \<times> 'v) list \<Rightarrow> ('k, 'v) btree_map \<Rightarrow> ('k, 'v) btree_map" where
  "bm_extend kvs m = fold (\<lambda>(k, v). bm_insert k v) kvs m"

lemma bm_eq_iff: "m = n \<longleftrightarrow> bm_get m = bm_get n"
  by transfer (blast intro: ascending_unique)

lemma bm_get_empty [simp]: "bm_get bm_empty = Map.empty"
  by transfer simp

lemma bm_get_insert [simp]: "bm_get (bm_insert k v m) = (bm_get m)(k \<mapsto> v)"
  by transfer (rule map_of_alist_put)

lemma bm_get_remove [simp]: "bm_get (bm_remove k m) = (bm_get m)(k := None)"
  by transfer (auto simp: map_of_filter_key fun_eq_iff)

lemma bm_get_retain [simp]: "bm_get (bm_retain p m) = (\<lambda>k. if p k then bm_get m k else None)"
  by transfer (rule map_of_filter_key)

lemma bm_contains_iff [simp]: "bm_contains m k \<longleftrightarrow> k \<in> dom (bm_get m)"
  by (simp add: bm_contains_def domIff)

lemma finite_dom_bm [simp]: "finite (dom (bm_get m))"
  by transfer (simp add: finite_dom_map_of)

lemma ascending_bm_entries: "ascending (bm_entries m)"
  by transfer

lemma map_of_bm_entries: "map_of (bm_entries m) = bm_get m"
  by transfer simp

lemma set_bm_entries: "(k, v) \<in> set (bm_entries m) \<longleftrightarrow> bm_get m k = Some v"
  by transfer (simp add: ascending_distinct)

lemma set_bm_keys [simp]: "set (bm_keys m) = dom (bm_get m)"
  by (simp add: bm_keys_def dom_map_of_conv_image_fst flip: map_of_bm_entries)

lemma sorted_bm_keys: "sorted_wrt (<) (bm_keys m)"
  unfolding bm_keys_def by (rule ascending_bm_entries)

lemma distinct_bm_keys [simp]: "distinct (bm_keys m)"
  unfolding bm_keys_def by (rule ascending_distinct [OF ascending_bm_entries])

lemma bm_len_card: "bm_len m = card (dom (bm_get m))"
proof -
  have "bm_len m = length (bm_keys m)" by (simp add: bm_len_def bm_keys_def)
  also have "\<dots> = card (set (bm_keys m))"
    by (rule distinct_card [symmetric]) simp
  finally show ?thesis by simp
qed

lemma bm_entries_empty [simp]: "bm_entries bm_empty = []"
  by transfer simp

lemma bm_keys_empty [simp]: "bm_keys bm_empty = []"
  by (simp add: bm_keys_def)

lemma bm_len_empty [simp]: "bm_len bm_empty = 0"
  by (simp add: bm_len_def)

lemma bm_keys_eq_sorted: "bm_keys m = sorted_list_of_set (dom (bm_get m))"
  using sorted_bm_keys [of m] set_bm_keys [of m]
  by (metis sorted_list_of_set.idem_if_sorted_distinct strict_sorted_iff)

lemma bm_keys_Nil_iff: "bm_keys m = [] \<longleftrightarrow> bm_get m = Map.empty"
  by (metis dom_eq_empty_conv set_bm_keys set_empty)

lemma bm_get_extend: "bm_get (bm_extend kvs m) = bm_get m ++ map_of (rev kvs)"
  by (induction kvs arbitrary: m) (auto simp: bm_extend_def)

lemma bm_get_extend_entries: "bm_get (bm_extend (bm_entries n) m) = bm_get m ++ bm_get n"
proof -
  have "map_of (rev (bm_entries n)) = map_of (bm_entries n)"
    by (rule map_of_inject_set [THEN iffD2])
      (use ascending_distinct [OF ascending_bm_entries [of n]] in \<open>simp_all add: rev_map [symmetric]\<close>)
  then show ?thesis by (simp add: bm_get_extend map_of_bm_entries)
qed

section \<open>The set type\<close>

type_synonym 'k btree_set = "('k, unit) btree_map"

abbreviation bs_empty :: "'k::linorder btree_set" where
  "bs_empty \<equiv> bm_empty"

abbreviation bs_insert :: "'k::linorder \<Rightarrow> 'k btree_set \<Rightarrow> 'k btree_set" where
  "bs_insert k s \<equiv> bm_insert k () s"

abbreviation bs_remove :: "'k::linorder \<Rightarrow> 'k btree_set \<Rightarrow> 'k btree_set" where
  "bs_remove k s \<equiv> bm_remove k s"

abbreviation bs_mem :: "'k::linorder btree_set \<Rightarrow> 'k \<Rightarrow> bool" where
  "bs_mem s k \<equiv> bm_contains s k"

definition bs_set :: "'k::linorder btree_set \<Rightarrow> 'k set" where
  "bs_set s = dom (bm_get s)"

definition bs_extend :: "'k::linorder list \<Rightarrow> 'k btree_set \<Rightarrow> 'k btree_set" where
  "bs_extend ks s = fold (\<lambda>k. bs_insert k) ks s"

definition bs_of_list :: "'k::linorder list \<Rightarrow> 'k btree_set" where
  "bs_of_list ks = bs_extend ks bs_empty"

lemma bs_set_empty [simp]: "bs_set bs_empty = {}"
  by (simp add: bs_set_def)

lemma bs_set_insert [simp]: "bs_set (bs_insert k s) = insert k (bs_set s)"
  by (simp add: bs_set_def)

lemma bs_set_remove [simp]: "bs_set (bs_remove k s) = bs_set s - {k}"
  by (auto simp: bs_set_def)

lemma bs_mem_iff: "bs_mem s k \<longleftrightarrow> k \<in> bs_set s"
  by (simp add: bs_set_def)

lemma set_bs_keys: "set (bm_keys s) = bs_set s"
  by (simp add: bs_set_def)

lemma finite_bs_set [simp]: "finite (bs_set s)"
  by (simp add: bs_set_def)

lemma bs_len_card: "bm_len s = card (bs_set s)"
  by (simp add: bm_len_card bs_set_def)

lemma bs_set_extend [simp]: "bs_set (bs_extend ks s) = bs_set s \<union> set ks"
  by (induction ks arbitrary: s) (auto simp: bs_extend_def)

lemma bs_set_of_list [simp]: "bs_set (bs_of_list ks) = set ks"
  by (simp add: bs_of_list_def)

lemma bs_eq_iff: "s = t \<longleftrightarrow> bs_set s = bs_set t"
proof
  assume *: "bs_set s = bs_set t"
  have "bm_get s k = bm_get t k" for k
    using * by (cases "bm_get s k"; cases "bm_get t k")
      (auto simp: bs_set_def dom_def set_eq_iff dest: spec [of _ k])
  then show "s = t" by (simp add: bm_eq_iff fun_eq_iff)
qed simp

end
