(* ===== verification/Protocol_Message.thy ===== *)
theory Protocol_Message
  imports Protocol_Component Btree_Map
begin

text \<open>
  The messages of \<open>cogniform-protocol/src/message.rs\<close>: delivery semantics, queue
  configurations, scene patches with their ordered operations, receipts, observation
  requests and observation metadata, each with its validation against the runtime limits
  and its deterministic logical size.
\<close>

section \<open>Delivery and queues\<close>

datatype conflict_policy = RequireExactBase

datatype delivery_semantic =
    MustApply
  | LatestWins (supersession_key: scene_text)
  | BestEffort

fun delivery_text_bytes :: "delivery_semantic \<Rightarrow> nat" where
  "delivery_text_bytes (LatestWins key) = len_bytes key"
| "delivery_text_bytes MustApply = 0"
| "delivery_text_bytes BestEffort = 0"

fun delivery_logical_size_bytes :: "delivery_semantic \<Rightarrow> u64" where
  "delivery_logical_size_bytes (LatestWins key) =
     saturating_add (saturating_add 1 4) (len_or_max (len_bytes key))"
| "delivery_logical_size_bytes MustApply = 1"
| "delivery_logical_size_bytes BestEffort = 1"

record queue_config =
  queue_capacity :: u32
  queue_delivery :: delivery_semantic

definition queue_config_validate :: "queue_config \<Rightarrow> runtime_limits \<Rightarrow> validation_error + unit" where
  "queue_config_validate q limits =
     (if queue_capacity q > max_queue_capacity limits
      then Inl (ValidationError QueueCapacityExceeded ''queue.capacity'')
      else if len_or_max (delivery_text_bytes (queue_delivery q)) > max_text_bytes limits
      then Inl (ValidationError TextLimitExceeded ''queue.delivery.supersession_key'')
      else if saturating_add 4 (delivery_logical_size_bytes (queue_delivery q))
              > max_decoded_bytes limits
      then Inl (ValidationError DecodedSizeLimitExceeded ''queue'')
      else Inr ())"

section \<open>Scene operations\<close>

record create_entity =
  create_entity_id :: stable_entity_id
  create_components :: "component_value list"

record delete_entity =
  delete_entity_id :: stable_entity_id

record set_component =
  set_entity_id :: stable_entity_id
  set_component :: component_value

record remove_component =
  remove_entity_id :: stable_entity_id
  remove_component :: component_kind

record reparent_entity =
  reparent_entity_id :: stable_entity_id
  reparent_parent_id :: "stable_entity_id option"

datatype scene_operation =
    Create create_entity
  | Delete delete_entity
  | SetComponent set_component
  | RemoveComponent remove_component
  | Reparent reparent_entity

fun create_components_validate ::
    "component_value list \<Rightarrow> component_kind btree_set \<Rightarrow> validation_error + unit" where
  "create_components_validate [] kinds = Inr ()"
| "create_components_validate (c # cs) kinds =
     bind_res (component_validate c) (\<lambda>_.
       if bs_mem kinds (component_kind_of c)
       then Inl (ValidationError DuplicateComponent ''operations[].create.components'')
       else create_components_validate cs (bs_insert (component_kind_of c) kinds))"

fun operation_validate :: "scene_operation \<Rightarrow> validation_error + unit" where
  "operation_validate (Create create) =
     create_components_validate (create_components create) bs_empty"
| "operation_validate (SetComponent s) = component_validate (set_component s)"
| "operation_validate (Reparent r) =
     (if reparent_parent_id r = Some (reparent_entity_id r)
      then Inl (ValidationError SelfParent ''operations[].reparent.parent_id'') else Inr ())"
| "operation_validate (Delete _) = Inr ()"
| "operation_validate (RemoveComponent _) = Inr ()"

fun operation_component_count :: "scene_operation \<Rightarrow> nat" where
  "operation_component_count (Create create) = length (create_components create)"
| "operation_component_count (SetComponent _) = 1"
| "operation_component_count _ = 0"

fun operation_text_bytes :: "scene_operation \<Rightarrow> u64" where
  "operation_text_bytes (Create create) =
     foldl (\<lambda>total c. saturating_add total (len_or_max (component_text_bytes c))) 0
       (create_components create)"
| "operation_text_bytes (SetComponent s) = len_or_max (component_text_bytes (set_component s))"
| "operation_text_bytes _ = 0"

fun operation_logical_size_bytes :: "scene_operation \<Rightarrow> u64" where
  "operation_logical_size_bytes (Create create) =
     foldl (\<lambda>total c. saturating_add total (component_logical_size_bytes c)) (1 + 16 + 4)
       (create_components create)"
| "operation_logical_size_bytes (Delete _) = 1 + 16"
| "operation_logical_size_bytes (SetComponent s) =
     saturating_add (saturating_add 1 16) (component_logical_size_bytes (set_component s))"
| "operation_logical_size_bytes (RemoveComponent _) = 1 + 16 + 1"
| "operation_logical_size_bytes (Reparent r) =
     1 + 16 + 1 + (if reparent_parent_id r \<noteq> None then 1 else 0) * 16"

section \<open>Scene patches\<close>

record scene_patch =
  patch_schema_version :: schema_version
  patch_transaction_id :: transaction_id
  patch_idempotency_key :: idempotency_key
  patch_base_revision :: scene_revision
  patch_conflict_policy :: conflict_policy
  patch_delivery :: delivery_semantic
  patch_declared_budget :: patch_budget
  patch_operations :: "scene_operation list"

definition validate_schema :: "schema_version \<Rightarrow> validation_error + unit" where
  "validate_schema v =
     (if v \<noteq> V1 then Inl (ValidationError UnsupportedSchema ''schema_version'') else Inr ())"

definition patch_text_bytes :: "scene_patch \<Rightarrow> u64" where
  "patch_text_bytes p =
     foldl (\<lambda>total op. saturating_add total (operation_text_bytes op))
       (len_or_max (delivery_text_bytes (patch_delivery p))) (patch_operations p)"

definition patch_logical_size_bytes :: "scene_patch \<Rightarrow> u64" where
  "patch_logical_size_bytes p =
     foldl (\<lambda>total op. saturating_add total (operation_logical_size_bytes op))
       (saturating_add (saturating_add (saturating_add (saturating_add (saturating_add
         (saturating_add (saturating_add 2 16) 16) 8) 1)
           (delivery_logical_size_bytes (patch_delivery p))) 24) 4)
       (patch_operations p)"

text \<open>The loop over the operations, with its running component and text counts.\<close>

fun patch_operations_validate ::
    "runtime_limits \<Rightarrow> scene_operation list \<Rightarrow> u64 \<Rightarrow> u64 \<Rightarrow> validation_error + (u64 \<times> u64)" where
  "patch_operations_validate limits [] component_count text_bytes = Inr (component_count, text_bytes)"
| "patch_operations_validate limits (op # ops) component_count text_bytes =
     bind_res (operation_validate op) (\<lambda>_.
       if (case op of
             Create create \<Rightarrow>
               len_or_max (length (create_components create)) > max_components_per_entity limits
           | _ \<Rightarrow> False)
       then Inl (ValidationError ComponentLimitExceeded ''operations[].create.components'')
       else patch_operations_validate limits ops
              (saturating_add component_count (len_or_max (operation_component_count op)))
              (saturating_add text_bytes (operation_text_bytes op)))"

definition patch_validate_counts ::
    "scene_patch \<Rightarrow> runtime_limits \<Rightarrow> u64 \<Rightarrow> u64 \<Rightarrow> validation_error + unit" where
  "patch_validate_counts p limits component_count text_bytes =
     (if component_count > ucast (budget_max_components (patch_declared_budget p))
         \<or> component_count > ucast (max_components limits)
         \<or> budget_max_components (patch_declared_budget p) > max_components limits
      then Inl (ValidationError ComponentLimitExceeded ''operations[].components'')
      else if text_bytes > budget_max_text_bytes (patch_declared_budget p)
         \<or> text_bytes > max_text_bytes limits
         \<or> budget_max_text_bytes (patch_declared_budget p) > max_text_bytes limits
      then Inl (ValidationError TextLimitExceeded ''operations[].text'')
      else if patch_logical_size_bytes p > budget_max_decoded_bytes (patch_declared_budget p)
         \<or> patch_logical_size_bytes p > max_decoded_bytes limits
         \<or> budget_max_decoded_bytes (patch_declared_budget p) > max_decoded_bytes limits
      then Inl (ValidationError DecodedSizeLimitExceeded ''declared_budget.max_decoded_bytes'')
      else Inr ())"

definition patch_validate_operation_count ::
    "scene_patch \<Rightarrow> runtime_limits \<Rightarrow> u32 \<Rightarrow> validation_error + unit" where
  "patch_validate_operation_count p limits operation_count =
     (if operation_count = 0 then Inl (ValidationError EmptyPatch ''operations'')
      else if operation_count > budget_max_operations (patch_declared_budget p)
         \<or> operation_count > max_operations limits
         \<or> budget_max_operations (patch_declared_budget p) > max_operations limits
      then Inl (ValidationError OperationLimitExceeded ''operations'')
      else Inr ())"

definition patch_validate :: "scene_patch \<Rightarrow> runtime_limits \<Rightarrow> validation_error + unit" where
  "patch_validate p limits =
     bind_res (validate_schema (patch_schema_version p)) (\<lambda>_.
     bind_res (patch_validate_operation_count p limits (len_or_max (length (patch_operations p)))) (\<lambda>_.
     bind_res (patch_operations_validate limits (patch_operations p) 0
                 (len_or_max (delivery_text_bytes (patch_delivery p)))) (\<lambda>(component_count, text_bytes).
       patch_validate_counts p limits component_count text_bytes)))"

section \<open>Receipts\<close>

datatype apply_status = Applied | IdempotentReplay

record apply_timing =
  decode_micros :: u64
  validate_micros :: u64
  commit_micros :: u64

datatype diagnostic_severity = Info | Warning | Error

record diagnostic =
  diag_code :: diagnostic_code
  diag_severity :: diagnostic_severity
  diag_message :: scene_text
  diag_operation_index :: "u32 option"
  diag_entity_id :: "stable_entity_id option"

record apply_receipt =
  receipt_schema_version :: schema_version
  receipt_transaction_id :: transaction_id
  receipt_idempotency_key :: idempotency_key
  receipt_status :: apply_status
  receipt_previous_revision :: scene_revision
  receipt_new_revision :: scene_revision
  receipt_operation_count :: u32
  receipt_diagnostics :: "diagnostic list"
  receipt_timing :: apply_timing
  receipt_estimated_visible_frame :: frame_id

definition option_bytes :: "'a option \<Rightarrow> u64 \<Rightarrow> u64" where
  "option_bytes x n = 1 + (if x \<noteq> None then 1 else 0) * n"

definition receipt_logical_size_bytes :: "apply_receipt \<Rightarrow> u64" where
  "receipt_logical_size_bytes r =
     foldl (\<lambda>total d.
         saturating_add (saturating_add (saturating_add (saturating_add (saturating_add
           (saturating_add total 2) 1) 4) (len_or_max (len_bytes (diag_message d))))
             (option_bytes (diag_operation_index d) 4)) (option_bytes (diag_entity_id d) 16))
       (2 + 16 + 16 + 1 + 8 + 8 + 4 + 4 + 24 + 8) (receipt_diagnostics r)"

definition receipt_text_bytes :: "apply_receipt \<Rightarrow> u64" where
  "receipt_text_bytes r =
     foldl (\<lambda>total d. saturating_add total (len_or_max (len_bytes (diag_message d)))) 0
       (receipt_diagnostics r)"

definition receipt_validate :: "apply_receipt \<Rightarrow> runtime_limits \<Rightarrow> validation_error + unit" where
  "receipt_validate r limits =
     bind_res (validate_schema (receipt_schema_version r)) (\<lambda>_.
       if res_ok (checked_next (receipt_previous_revision r)) \<noteq> Some (receipt_new_revision r)
       then Inl (ValidationError InvalidReceiptRevision ''new_revision'')
       else if receipt_operation_count r > max_operations limits
       then Inl (ValidationError InvalidReceiptOperationCount ''operation_count'')
       else if len_or_max (length (receipt_diagnostics r)) > max_diagnostics limits
       then Inl (ValidationError DiagnosticLimitExceeded ''diagnostics'')
       else if receipt_text_bytes r > max_text_bytes limits
       then Inl (ValidationError TextLimitExceeded ''diagnostics[].message'')
       else if receipt_logical_size_bytes r > max_decoded_bytes limits
       then Inl (ValidationError DecodedSizeLimitExceeded ''receipt'')
       else Inr ())"

section \<open>Observations\<close>

datatype observation_kind = ColorKind | DepthKind | NormalKind | EntityIdKind | VisibilityKind

datatype observation_quality = Low | Medium | High

record observation_request =
  oreq_schema_version :: schema_version
  oreq_observation_id :: observation_id
  oreq_scene_revision :: scene_revision
  oreq_camera_id :: stable_entity_id
  oreq_kind :: observation_kind
  oreq_quality :: observation_quality

definition OBSERVATION_REQUEST_LOGICAL_BYTES :: u64 where
  "OBSERVATION_REQUEST_LOGICAL_BYTES = 44"

definition observation_request_validate ::
    "observation_request \<Rightarrow> runtime_limits \<Rightarrow> validation_error + unit" where
  "observation_request_validate r limits =
     bind_res (validate_schema (oreq_schema_version r)) (\<lambda>_.
       if OBSERVATION_REQUEST_LOGICAL_BYTES > max_decoded_bytes limits
       then Inl (ValidationError DecodedSizeLimitExceeded ''observation_request'')
       else Inr ())"

record image_dimensions =
  dim_width :: u32
  dim_height :: u32

definition pixel_count :: "image_dimensions \<Rightarrow> u64" where
  "pixel_count d = ucast (dim_width d) * ucast (dim_height d)"

record observation_staleness =
  latest_known_revision :: scene_revision
  revisions_behind :: u64

record observation_metadata =
  ometa_schema_version :: schema_version
  ometa_observation_id :: observation_id
  ometa_scene_revision :: scene_revision
  ometa_frame_id :: frame_id
  ometa_camera_id :: stable_entity_id
  ometa_kind :: observation_kind
  ometa_dimensions :: "image_dimensions option"
  ometa_quality :: observation_quality
  ometa_observed_at_unix_micros :: u64
  ometa_production_latency_micros :: u64
  ometa_staleness :: observation_staleness

definition observation_logical_size_bytes :: "observation_metadata \<Rightarrow> u64" where
  "observation_logical_size_bytes m =
     saturating_add (saturating_add (saturating_add (saturating_add (saturating_add (saturating_add
       (saturating_add (saturating_add (saturating_add (saturating_add 2 16) 8) 8) 16) 1)
         (option_bytes (ometa_dimensions m) 8)) 1) 8) 8) 16"

definition dimensions_exceed :: "runtime_limits \<Rightarrow> image_dimensions option \<Rightarrow> bool" where
  "dimensions_exceed limits d =
     (case d of None \<Rightarrow> False
      | Some d \<Rightarrow> dim_width d > max_observation_width limits
          \<or> dim_height d > max_observation_height limits
          \<or> pixel_count d > max_observation_pixels limits)"

definition observation_metadata_validate ::
    "observation_metadata \<Rightarrow> runtime_limits \<Rightarrow> validation_error + unit" where
  "observation_metadata_validate m limits =
     bind_res (validate_schema (ometa_schema_version m)) (\<lambda>_.
       if (ometa_kind m \<noteq> VisibilityKind) \<noteq> (ometa_dimensions m \<noteq> None)
       then Inl (ValidationError InvalidObservationDimensions ''dimensions'')
       else if dimensions_exceed limits (ometa_dimensions m)
       then Inl (ValidationError ObservationPixelLimitExceeded ''dimensions'')
       else if checked_sub (revision_get (latest_known_revision (ometa_staleness m)))
                 (revision_get (ometa_scene_revision m)) \<noteq> Some (revisions_behind (ometa_staleness m))
       then Inl (ValidationError InvalidObservationStaleness ''staleness'')
       else if observation_logical_size_bytes m > max_decoded_bytes limits
       then Inl (ValidationError DecodedSizeLimitExceeded ''observation'')
       else Inr ())"

end
