(* ===== verification/Protocol_Render.thy ===== *)
theory Protocol_Render
  imports Protocol_Message
begin

text \<open>
  The contract between the world and a renderer (\<open>cogniform-protocol/src/render.rs\<close>):
  render records with a finite matrix and at least one render component, and extraction
  packets whose changes are strictly ordered by stable identity.
\<close>

record render_components =
  rc_primitive :: "primitive_component option"
  rc_material :: "material_component option"
  rc_camera :: "camera_component option"
  rc_light :: "light_component option"
  rc_asset_mesh :: "asset_mesh_component option"

record render_entity =
  re_entity_id :: stable_entity_id
  re_world_transform :: "f64 list"
  re_world_transform_generation :: u64
  re_components :: render_components

datatype render_contract_error =
    NonFiniteWorldTransform stable_entity_id
  | EmptyRenderEntity stable_entity_id
  | RevisionRegressed scene_revision scene_revision
  | ChangesNotStrictlyOrdered stable_entity_id stable_entity_id

definition render_components_empty :: "render_components \<Rightarrow> bool" where
  "render_components_empty c \<longleftrightarrow>
     rc_primitive c = None \<and> rc_material c = None \<and> rc_camera c = None \<and>
     rc_light c = None \<and> rc_asset_mesh c = None"

definition render_entity_new ::
    "stable_entity_id \<Rightarrow> f64 list \<Rightarrow> u64 \<Rightarrow> render_components
       \<Rightarrow> render_contract_error + render_entity" where
  "render_entity_new i matrix generation components =
     (if \<not> list_all f64_is_finite matrix then Inl (NonFiniteWorldTransform i)
      else if render_components_empty components then Inl (EmptyRenderEntity i)
      else Inr \<lparr> re_entity_id = i, re_world_transform = matrix,
                 re_world_transform_generation = generation, re_components = components \<rparr>)"

datatype render_change = Upsert render_entity | Remove stable_entity_id

fun render_change_entity_id :: "render_change \<Rightarrow> stable_entity_id" where
  "render_change_entity_id (Upsert e) = re_entity_id e"
| "render_change_entity_id (Remove i) = i"

record render_extraction =
  rx_generation :: u64
  rx_base_revision :: scene_revision
  rx_scene_revision :: scene_revision
  rx_changes :: "render_change list"

text \<open>The first adjacent pair of changes that is not strictly increasing.\<close>

fun first_disorder :: "render_change list \<Rightarrow> (stable_entity_id \<times> stable_entity_id) option" where
  "first_disorder (a # b # rest) =
     (if render_change_entity_id a \<ge> render_change_entity_id b
      then Some (render_change_entity_id a, render_change_entity_id b)
      else first_disorder (b # rest))"
| "first_disorder _ = None"

definition render_extraction_new ::
    "u64 \<Rightarrow> scene_revision \<Rightarrow> scene_revision \<Rightarrow> render_change list
       \<Rightarrow> render_contract_error + render_extraction" where
  "render_extraction_new generation base_revision revision changes =
     (if revision < base_revision then Inl (RevisionRegressed base_revision revision)
      else (case first_disorder changes of
          Some (previous, current) \<Rightarrow> Inl (ChangesNotStrictlyOrdered previous current)
        | None \<Rightarrow> Inr \<lparr> rx_generation = generation, rx_base_revision = base_revision,
                        rx_scene_revision = revision, rx_changes = changes \<rparr>))"

lemma first_disorder_None_iff:
  "first_disorder cs = None \<longleftrightarrow> sorted_wrt (<) (map render_change_entity_id cs)"
proof (induction cs rule: first_disorder.induct)
  case (1 a b rest)
  have "(if render_change_entity_id a \<ge> render_change_entity_id b then False else
      sorted_wrt (<) (map render_change_entity_id (b # rest))) \<longleftrightarrow>
      sorted_wrt (<) (map render_change_entity_id (a # b # rest))"
    by (auto dest: order_less_trans)
  with 1 show ?case by (simp split: if_splits)
qed simp_all

lemma render_extraction_new_ok:
  assumes "base \<le> revision" "sorted_wrt (<) (map render_change_entity_id changes)"
  shows "render_extraction_new g base revision changes =
    Inr \<lparr> rx_generation = g, rx_base_revision = base, rx_scene_revision = revision,
          rx_changes = changes \<rparr>"
  using assms by (auto simp: render_extraction_new_def simp flip: first_disorder_None_iff)

end
