(* ===== verification/World_Error.thy ===== *)
theory World_Error
  imports Protocol_Render
begin

text \<open>The error types of \<open>cogniform-world/src/error.rs\<close>.\<close>

datatype world_invariant_error_kind =
    EntityCountMismatch | MissingStorageEntity | StableIdMismatch | HierarchyEntityMissing
  | HierarchyIndexMismatch | HierarchyTopologyInvalid | WorldTransformMissing
  | WorldTransformOrphan

datatype world_invariant_error =
  WorldInvariantError (wie_kind: world_invariant_error_kind) (wie_entity_id: "stable_entity_id option")

datatype world_apply_error =
    InvalidPatch validation_error
  | BaseRevisionMismatch scene_revision scene_revision
  | WorldRevisionOverflow
  | IdempotencyKeyConflict idempotency_key transaction_id transaction_id
  | IdempotencyCapacityExceeded u32
  | EntityCapacityExceeded u32 stable_entity_id u32
  | EntityAlreadyExists u32 stable_entity_id
  | EntityNotFound u32 stable_entity_id
  | ComponentNotFound u32 stable_entity_id component_kind
  | HierarchyParentNotFound stable_entity_id stable_entity_id
  | HierarchyCycle stable_entity_id
  | HierarchyDepthExceeded stable_entity_id u32 u32
  | TransformOverflow stable_entity_id
  | TransformGenerationOverflow
  | RenderExtractionCapacityExceeded u32
  | RenderExtractionGenerationOverflow
  | UnsupportedOperation u32 stable_entity_id
  | InvariantViolation world_invariant_error

datatype world_extraction_error =
    GenerationOverflow
  | ExtractionInvariantViolation world_invariant_error
  | InvalidRenderData render_contract_error

end
