(* ===== verification/Hierarchy.thy ===== *)
theory Hierarchy
  imports World_Error
begin

text \<open>
  The parent relation of the scene (\<open>cogniform-world/src/world.rs\<close>, the free functions
  \<open>hierarchy_depths\<close>, \<open>assign_path_depths\<close> and \<open>affected_entities\<close>, and the child
  index rebuilt from the parents). The depth walk terminates on every input, cycles
  included; the ancestor walk of \<open>affected_entities\<close> does not on a cycle, so it is a
  partial function, shown to return wherever the depth walk succeeded.
\<close>

section \<open>Depths\<close>

type_synonym parent_map = "(stable_entity_id, stable_entity_id) btree_map"
type_synonym child_map = "(stable_entity_id, stable_entity_id btree_set) btree_map"
type_synonym depth_map = "(stable_entity_id, u32) btree_map"

text \<open>The body of the loop over the reversed path.\<close>

fun assign_depths ::
    "u32 \<Rightarrow> stable_entity_id list \<Rightarrow> u32 \<Rightarrow> depth_map \<Rightarrow> world_apply_error + depth_map" where
  "assign_depths max_depth [] depth depths = Inr depths"
| "assign_depths max_depth (i # rest) depth depths =
     (case checked_add depth 1 of
        None \<Rightarrow> Inl (HierarchyDepthExceeded i (- 1) max_depth)
      | Some d \<Rightarrow>
          (if d > max_depth then Inl (HierarchyDepthExceeded i d max_depth)
           else assign_depths max_depth rest d (bm_insert i d depths)))"

definition assign_path_depths ::
    "depth_map \<Rightarrow> stable_entity_id list \<Rightarrow> u32 \<Rightarrow> u32 \<Rightarrow> world_apply_error + depth_map" where
  "assign_path_depths depths path base_depth max_depth =
     assign_depths max_depth (rev path) base_depth depths"

text \<open>The inner loop: climb from \<open>current\<close> until a known depth, a root or a repetition.\<close>

function (sequential) depth_walk ::
    "parent_map \<Rightarrow> u32 \<Rightarrow> depth_map \<Rightarrow> stable_entity_id list \<Rightarrow> stable_entity_id btree_set
       \<Rightarrow> stable_entity_id \<Rightarrow> world_apply_error + depth_map" where
  "depth_walk parents max_depth depths path visiting current =
     (case bm_get depths current of
        Some known_depth \<Rightarrow> assign_path_depths depths path known_depth max_depth
      | None \<Rightarrow>
          (if bs_mem visiting current then Inl (HierarchyCycle current)
           else (case bm_get parents current of
               Some parent_id \<Rightarrow>
                 depth_walk parents max_depth depths (path @ [current]) (bs_insert current visiting) parent_id
             | None \<Rightarrow> assign_path_depths (bm_insert current 0 depths) path 0 max_depth)))"
  by pat_completeness auto

termination
proof (relation "measure (\<lambda>(parents, _, _, _, visiting, _). card (dom (bm_get parents) - bs_set visiting))")
  fix parents :: parent_map and max_depth :: u32 and depths :: depth_map
    and path :: "stable_entity_id list" and visiting :: "stable_entity_id btree_set"
    and current parent_id
  assume "bm_get depths current = None" and new: "\<not> bs_mem visiting current"
    and par: "bm_get parents current = Some parent_id"
  have "current \<in> dom (bm_get parents) - bs_set visiting" using par new by (auto simp: bs_set_def)
  then have "card (dom (bm_get parents) - bs_set (bs_insert current visiting))
      < card (dom (bm_get parents) - bs_set visiting)"
    by (intro psubset_card_mono) auto
  then show "((parents, max_depth, depths, path @ [current], bs_insert current visiting, parent_id),
      parents, max_depth, depths, path, visiting, current)
      \<in> measure (\<lambda>(parents, _, _, _, visiting, _). card (dom (bm_get parents) - bs_set visiting))"
    by simp
qed simp

declare depth_walk.simps [simp del]

fun check_endpoints ::
    "stable_entity_id btree_set \<Rightarrow> (stable_entity_id \<times> stable_entity_id) list \<Rightarrow> world_apply_error + unit" where
  "check_endpoints live_ids [] = Inr ()"
| "check_endpoints live_ids ((child_id, parent_id) # rest) =
     (if \<not> bs_mem live_ids child_id \<or> \<not> bs_mem live_ids parent_id
      then Inl (HierarchyParentNotFound child_id parent_id)
      else check_endpoints live_ids rest)"

definition hierarchy_start ::
    "parent_map \<Rightarrow> u32 \<Rightarrow> stable_entity_id \<Rightarrow> depth_map \<Rightarrow> world_apply_error + depth_map" where
  "hierarchy_start parents max_depth start depths =
     (if bm_contains depths start then Inr depths
      else depth_walk parents max_depth depths [] bs_empty start)"

definition hierarchy_depths ::
    "stable_entity_id btree_set \<Rightarrow> parent_map \<Rightarrow> u32 \<Rightarrow> world_apply_error + depth_map" where
  "hierarchy_depths live_ids parents max_depth =
     bind_res (check_endpoints live_ids (bm_entries parents)) (\<lambda>_.
       fold_res (hierarchy_start parents max_depth) (bm_keys live_ids) bm_empty)"

section \<open>Affected entities\<close>

text \<open>
  The ancestor walk of the root filter: \<open>Some True\<close> when no proper ancestor is dirty,
  \<open>Some False\<close> when one is, \<open>None\<close> when the walk does not end.
\<close>

partial_function (option) no_dirty_ancestor ::
    "parent_map \<Rightarrow> stable_entity_id btree_set \<Rightarrow> stable_entity_id \<Rightarrow> bool option" where
  [code]: "no_dirty_ancestor parents dirty_roots current =
     (case bm_get parents current of
        None \<Rightarrow> Some True
      | Some parent_id \<Rightarrow>
          (if bs_mem dirty_roots parent_id then Some False
           else no_dirty_ancestor parents dirty_roots parent_id))"

fun filter_option :: "('a \<Rightarrow> bool option) \<Rightarrow> 'a list \<Rightarrow> 'a list option" where
  "filter_option p [] = Some []"
| "filter_option p (x # xs) =
     (case p x of
        None \<Rightarrow> None
      | Some keep \<Rightarrow> map_option (\<lambda>ys. if keep then x # ys else ys) (filter_option p xs))"

definition child_list :: "child_map \<Rightarrow> stable_entity_id \<Rightarrow> stable_entity_id list" where
  "child_list children i = (case bm_get children i of None \<Rightarrow> [] | Some s \<Rightarrow> bm_keys s)"

text \<open>
  The stack-driven traversal; the head of \<open>pending\<close> is the top of the stack, onto which
  the source pushes the children in descending order.
\<close>

function (sequential) visit_affected ::
    "child_map \<Rightarrow> stable_entity_id btree_set \<Rightarrow> stable_entity_id list \<Rightarrow> stable_entity_id list
       \<Rightarrow> stable_entity_id list" where
  "visit_affected children seen affected [] = affected"
| "visit_affected children seen affected (i # pending) =
     (if bs_mem seen i then visit_affected children seen affected pending
      else visit_affected children (bs_insert i seen) (affected @ [i]) (child_list children i @ pending))"
  by pat_completeness auto

termination
proof (relation "measures [\<lambda>(children, seen, _, _). card (dom (bm_get children) - bs_set seen),
    \<lambda>(_, _, _, pending). length pending]")
  fix children :: child_map and seen :: "stable_entity_id btree_set"
    and affected pending :: "stable_entity_id list" and i
  assume new: "\<not> bs_mem seen i"
  show "((children, bs_insert i seen, affected @ [i], child_list children i @ pending),
      children, seen, affected, i # pending)
      \<in> measures [\<lambda>(children, seen, _, _). card (dom (bm_get children) - bs_set seen),
          \<lambda>(_, _, _, pending). length pending]"
  proof (cases "bm_get children i")
    case None
    then have "dom (bm_get children) - bs_set (bs_insert i seen) = dom (bm_get children) - bs_set seen"
      by auto
    with None show ?thesis by (simp add: child_list_def)
  next
    case (Some s)
    then have "i \<in> dom (bm_get children) - bs_set seen" using new by (auto simp: bs_set_def)
    then have "card (dom (bm_get children) - bs_set (bs_insert i seen))
        < card (dom (bm_get children) - bs_set seen)"
      by (intro psubset_card_mono) auto
    then show ?thesis by simp
  qed
qed simp_all

definition affected_entities ::
    "parent_map \<Rightarrow> child_map \<Rightarrow> stable_entity_id btree_set \<Rightarrow> stable_entity_id list option" where
  "affected_entities parents children dirty_roots =
     map_option (\<lambda>roots. visit_affected children bs_empty [] (bm_keys (bs_of_list roots)))
       (filter_option (no_dirty_ancestor parents dirty_roots) (bm_keys dirty_roots))"

section \<open>The child index\<close>

definition add_child ::
    "stable_entity_id \<times> stable_entity_id \<Rightarrow> child_map \<Rightarrow> child_map" where
  "add_child e children =
     bm_insert (snd e)
       (bs_insert (fst e) (case bm_get children (snd e) of None \<Rightarrow> bs_empty | Some s \<Rightarrow> s)) children"

definition rebuild_children :: "parent_map \<Rightarrow> child_map" where
  "rebuild_children parents = fold add_child (bm_entries parents) bm_empty"

section \<open>Depth of an entity\<close>

text \<open>
  \<open>depth_of par x n\<close>: climbing \<open>n\<close> parent edges from \<open>x\<close> reaches a root. It is the
  reference for the depth walk, and says at once that the walk from \<open>x\<close> ends.
\<close>

inductive depth_of :: "('a \<rightharpoonup> 'a) \<Rightarrow> 'a \<Rightarrow> nat \<Rightarrow> bool" for par where
  depth_root: "par x = None \<Longrightarrow> depth_of par x 0"
| depth_child: "par x = Some p \<Longrightarrow> depth_of par p n \<Longrightarrow> depth_of par x (Suc n)"

definition parent_rel :: "('a \<rightharpoonup> 'a) \<Rightarrow> 'a rel" where
  "parent_rel par = {(c, p). par c = Some p}"

lemma parent_rel_iff [simp]: "(c, p) \<in> parent_rel par \<longleftrightarrow> par c = Some p"
  by (simp add: parent_rel_def)

lemma depth_of_None: "par x = None \<Longrightarrow> depth_of par x n \<longleftrightarrow> n = 0"
  by (rule iffI, erule depth_of.cases, simp_all add: depth_root)

lemma depth_of_Some: "par x = Some p \<Longrightarrow> depth_of par x n \<longleftrightarrow> (\<exists>m. n = Suc m \<and> depth_of par p m)"
  by (rule iffI, erule depth_of.cases, simp, simp, elim exE conjE, simp add: depth_child)

lemma depth_of_unique: "depth_of par x n \<Longrightarrow> depth_of par x m \<Longrightarrow> n = m"
proof (induction arbitrary: m rule: depth_of.induct)
  case (depth_root x)
  then show ?case by (simp add: depth_of_None)
next
  case (depth_child x p n)
  from depth_child.prems obtain k where k: "m = Suc k" "depth_of par p k"
    by (auto simp: depth_of_Some [of par x p m, OF depth_child.hyps(1)])
  from depth_child.IH [OF k(2)] k(1) show ?case by (simp only:)
qed

lemma depth_of_trancl:
  assumes "(x, y) \<in> (parent_rel par)\<^sup>+" "depth_of par x n"
  shows "\<exists>m<n. depth_of par y m"
  using assms
proof (induction arbitrary: n rule: trancl_induct)
  case (base y)
  then have "par x = Some y" by simp
  with base.prems show ?case using depth_of_Some [of par x y n] by auto
next
  case (step y z)
  then obtain m where m: "m < n" "depth_of par y m" by blast
  from step.hyps(2) have "par y = Some z" by simp
  with m(2) obtain k where "m = Suc k" "depth_of par z k"
    using depth_of_Some [of par y z m] by auto
  with m(1) show ?case by (intro exI [of _ k]) simp
qed

lemma depth_of_acyclic: "depth_of par x n \<Longrightarrow> (x, x) \<notin> (parent_rel par)\<^sup>+"
proof
  assume d: "depth_of par x n" and "(x, x) \<in> (parent_rel par)\<^sup>+"
  then obtain m where m: "m < n" "depth_of par x m" using depth_of_trancl [of x x par n] by blast
  from depth_of_unique [OF d m(2)] m(1) show False by simp
qed

lemma depth_of_rtrancl:
  "(x, y) \<in> (parent_rel par)\<^sup>* \<Longrightarrow> depth_of par x n \<Longrightarrow> \<exists>m\<le>n. depth_of par y m"
  unfolding rtrancl_eq_or_trancl using depth_of_trancl [of x y par n] less_imp_le by blast

section \<open>Correctness of the depth walk\<close>

definition depths_ok :: "parent_map \<Rightarrow> u32 \<Rightarrow> depth_map \<Rightarrow> bool" where
  "depths_ok parents max_depth depths \<longleftrightarrow>
     (\<forall>x w. bm_get depths x = Some w \<longrightarrow> depth_of (bm_get parents) x (unat w) \<and> w \<le> max_depth)"

text \<open>A path read from its last element: each entry is the child of the previous one.\<close>

fun chain_below :: "('a \<rightharpoonup> 'a) \<Rightarrow> 'a \<Rightarrow> 'a list \<Rightarrow> bool" where
  "chain_below par apex [] = True"
| "chain_below par apex (x # xs) \<longleftrightarrow> par x = Some apex \<and> chain_below par x xs"

lemma chain_below_rtrancl: "chain_below par apex xs \<Longrightarrow> x \<in> set xs \<Longrightarrow> (x, apex) \<in> (parent_rel par)\<^sup>+"
proof (induction xs arbitrary: apex)
  case (Cons y ys)
  then have y: "(y, apex) \<in> parent_rel par" "chain_below par y ys" by auto
  show ?case
  proof (cases "x = y")
    case False
    then have "(x, y) \<in> (parent_rel par)\<^sup>+" using Cons.IH [OF y(2)] Cons.prems(2) by simp
    then show ?thesis using y(1) by (rule trancl_into_trancl)
  qed (use y(1) in blast)
qed simp

lemma assign_depths_ok:
  assumes "assign_depths max_depth xs d depths = Inr depths'"
    and "depths_ok parents max_depth depths" "chain_below (bm_get parents) apex xs"
    and "depth_of (bm_get parents) apex (unat d)"
  shows "depths_ok parents max_depth depths' \<and>
    dom (bm_get depths') = dom (bm_get depths) \<union> set xs"
  using assms
proof (induction max_depth xs d depths arbitrary: apex rule: assign_depths.induct)
  case (2 max_depth i rest d depths)
  from "2.prems"(1) obtain e where e: "checked_add d 1 = Some e" "e \<le> max_depth"
      "assign_depths max_depth rest e (bm_insert i e depths) = Inr depths'"
    by (auto split: option.splits if_splits)
  have i: "depth_of (bm_get parents) i (unat e)" "chain_below (bm_get parents) i rest"
    using "2.prems"(3,4) checked_add_unat [OF e(1)] by (auto intro: depth_child)
  then have "depths_ok parents max_depth (bm_insert i e depths)"
    using "2.prems"(2) e(2) by (auto simp: depths_ok_def)
  from "2.IH" [OF e(1) _ e(3) this i(2,1)] e(2)
  have "depths_ok parents max_depth depths'"
    "dom (bm_get depths') = dom (bm_get (bm_insert i e depths)) \<union> set rest" by auto
  then show ?case by auto
qed simp

lemma assign_depths_error:
  assumes "assign_depths max_depth xs d depths = Inl e"
    and "chain_below (bm_get parents) apex xs" "depth_of (bm_get parents) apex (unat d)"
  shows "\<exists>i k n. e = HierarchyDepthExceeded i k max_depth \<and> i \<in> set xs \<and>
    depth_of (bm_get parents) i n \<and> unat max_depth < n"
  using assms
proof (induction max_depth xs d depths arbitrary: apex rule: assign_depths.induct)
  case (2 max_depth i rest d depths)
  have i: "depth_of (bm_get parents) i (Suc (unat d))"
    using "2.prems"(2,3) by (auto intro: depth_child)
  show ?case
  proof (cases "checked_add d 1")
    case None
    then have "\<not> unat d + 1 < 2 ^ 32" by (auto simp: checked_add_def split: if_splits)
    then have "unat max_depth < Suc (unat d)" using unat_bound [of max_depth] by simp
    with None i "2.prems"(1) show ?thesis by auto
  next
    case (Some k)
    then have k: "unat k = Suc (unat d)" using checked_add_unat by fastforce
    show ?thesis
    proof (cases "k > max_depth")
      case True
      with Some i k "2.prems"(1) show ?thesis by (auto simp: word_less_unat)
    next
      case False
      with Some "2.prems"(1) have "assign_depths max_depth rest k (bm_insert i k depths) = Inl e" by simp
      from "2.IH" [OF Some False this, of i] "2.prems"(2) i k show ?thesis by auto
    qed
  qed
qed simp

text \<open>
  The walk keeps the depths correct and ends with \<open>current\<close> and the whole path known; it
  fails only on an entity that is on a cycle or too deep.
\<close>

definition walk_error ::
    "parent_map \<Rightarrow> u32 \<Rightarrow> (stable_entity_id \<Rightarrow> bool) \<Rightarrow> world_apply_error \<Rightarrow> bool" where
  "walk_error parents max_depth p e \<longleftrightarrow>
     (\<exists>i. p i \<and> e = HierarchyCycle i \<and> (i, i) \<in> (parent_rel (bm_get parents))\<^sup>+) \<or>
     (\<exists>i k n. p i \<and> e = HierarchyDepthExceeded i k max_depth \<and>
        depth_of (bm_get parents) i n \<and> unat max_depth < n)"

definition walk_result ::
    "parent_map \<Rightarrow> u32 \<Rightarrow> stable_entity_id set \<Rightarrow> depth_map \<Rightarrow> stable_entity_id set
       \<Rightarrow> world_apply_error + depth_map \<Rightarrow> bool" where
  "walk_result parents max_depth reach depths known r \<longleftrightarrow>
     (case r of
        Inr depths' \<Rightarrow> depths_ok parents max_depth depths' \<and> known \<subseteq> dom (bm_get depths') \<and>
          dom (bm_get depths) \<subseteq> dom (bm_get depths') \<and>
          dom (bm_get depths') \<subseteq> dom (bm_get depths) \<union> reach
      | Inl e \<Rightarrow> walk_error parents max_depth (\<lambda>i. i \<in> reach) e)"

lemma assign_depths_walk:
  assumes "depths_ok parents max_depth depths" "chain_below (bm_get parents) apex xs"
    and "depth_of (bm_get parents) apex (unat d)" "set xs \<subseteq> reach"
  shows "walk_result parents max_depth reach depths (dom (bm_get depths) \<union> set xs)
    (assign_depths max_depth xs d depths)"
proof (cases "assign_depths max_depth xs d depths")
  case (Inl e)
  from assign_depths_error [OF Inl assms(2,3)] assms(4) Inl show ?thesis
    by (auto simp: walk_result_def walk_error_def)
next
  case (Inr depths')
  from assign_depths_ok [OF Inr assms(1-3)] assms(4) Inr show ?thesis
    by (auto simp: walk_result_def)
qed

lemma walk_result_weaken:
  "walk_result parents max_depth reach depths known r \<Longrightarrow> dom (bm_get depths') \<subseteq> dom (bm_get depths) \<Longrightarrow>
    dom (bm_get depths) \<subseteq> dom (bm_get depths') \<union> reach \<Longrightarrow> known' \<subseteq> known \<Longrightarrow>
    walk_result parents max_depth reach depths' known' r"
  by (cases r) (simp_all add: walk_result_def, blast)

lemma depth_walk_correct:
  assumes "depths_ok parents max_depth depths" "chain_below (bm_get parents) current (rev path)"
    and "bs_set visiting = set path" "set path \<subseteq> reach" "current \<in> reach"
    and "\<And>x y. x \<in> reach \<Longrightarrow> bm_get parents x = Some y \<Longrightarrow> y \<in> reach"
  shows "walk_result parents max_depth reach depths (insert current (set path))
    (depth_walk parents max_depth depths path visiting current)"
  using assms
proof (induction parents max_depth depths path visiting current rule: depth_walk.induct)
  case (1 parents max_depth depths path visiting current)
  note prems = "1.prems"
  consider (known) w where "bm_get depths current = Some w"
    | (cycle) "bm_get depths current = None" "bs_mem visiting current"
    | (climb) p where "bm_get depths current = None" "\<not> bs_mem visiting current" "bm_get parents current = Some p"
    | (root) "bm_get depths current = None" "\<not> bs_mem visiting current" "bm_get parents current = None"
    by (cases "bm_get depths current"; cases "bm_get parents current"; auto)
  then show ?case
  proof cases
    case known
    then have "depth_of (bm_get parents) current (unat w)" using prems(1) by (auto simp: depths_ok_def)
    note assign_depths_walk [OF prems(1,2) this, of reach]
    with prems(4) have "walk_result parents max_depth reach depths (dom (bm_get depths) \<union> set path)
        (depth_walk parents max_depth depths path visiting current)"
      using known by (simp add: depth_walk.simps assign_path_depths_def)
    then show ?thesis by (rule walk_result_weaken) (use known in auto)
  next
    case cycle
    then have "current \<in> set (rev path)" using prems(3) by (auto simp: bs_set_def)
    then have "(current, current) \<in> (parent_rel (bm_get parents))\<^sup>+"
      by (rule chain_below_rtrancl [OF prems(2)])
    then show ?thesis
      using cycle prems(5) by (simp add: depth_walk.simps walk_result_def walk_error_def)
  next
    case climb
    have "p \<in> reach" using climb(3) prems(5,6) by blast
    then have "walk_result parents max_depth reach depths (insert p (set (path @ [current])))
        (depth_walk parents max_depth depths (path @ [current]) (bs_insert current visiting) p)"
      using "1.IH" [OF climb] prems climb(3) by simp
    then have "walk_result parents max_depth reach depths (insert p (set (path @ [current])))
        (depth_walk parents max_depth depths path visiting current)"
      using climb by (subst depth_walk.simps) simp
    then show ?thesis by (rule walk_result_weaken) auto
  next
    case root
    then have d: "depth_of (bm_get parents) current (unat (0 :: u32))" by (auto intro: depth_root)
    have "depths_ok parents max_depth (bm_insert current 0 depths)"
      using prems(1) d by (auto simp: depths_ok_def)
    note assign_depths_walk [OF this prems(2) d, of reach]
    with prems(4) have "walk_result parents max_depth reach (bm_insert current 0 depths)
        (dom (bm_get (bm_insert current 0 depths)) \<union> set path)
        (depth_walk parents max_depth depths path visiting current)"
      using root by (simp add: depth_walk.simps assign_path_depths_def)
    then show ?thesis by (rule walk_result_weaken) (use prems(5) in auto)
  qed
qed

lemma hierarchy_start_walk:
  assumes "depths_ok parents max_depth depths" "start \<in> reach"
    and "\<And>x y. x \<in> reach \<Longrightarrow> bm_get parents x = Some y \<Longrightarrow> y \<in> reach"
  shows "walk_result parents max_depth reach depths {start} (hierarchy_start parents max_depth start depths)"
proof (cases "bm_contains depths start")
  case True
  then show ?thesis using assms(1) by (auto simp: hierarchy_start_def walk_result_def)
next
  case False
  have "walk_result parents max_depth reach depths (insert start (set []))
      (depth_walk parents max_depth depths [] bs_empty start)"
    by (rule depth_walk_correct) (use assms in auto)
  with False show ?thesis by (simp add: hierarchy_start_def)
qed

lemma hierarchy_fold_walk:
  assumes "depths_ok parents max_depth depths" "set starts \<subseteq> reach"
    and "\<And>x y. x \<in> reach \<Longrightarrow> bm_get parents x = Some y \<Longrightarrow> y \<in> reach"
  shows "walk_result parents max_depth reach depths (set starts)
    (fold_res (hierarchy_start parents max_depth) starts depths)"
  using assms(1,2)
proof (induction starts arbitrary: depths)
  case (Cons start starts)
  have first: "walk_result parents max_depth reach depths {start}
      (hierarchy_start parents max_depth start depths)"
    using Cons.prems assms(3) by (intro hierarchy_start_walk) auto
  show ?case
  proof (cases "hierarchy_start parents max_depth start depths")
    case (Inl e)
    then show ?thesis using first by (simp add: walk_result_def)
  next
    case (Inr depths')
    with first have d': "depths_ok parents max_depth depths'" "start \<in> dom (bm_get depths')"
        "dom (bm_get depths) \<subseteq> dom (bm_get depths')" "dom (bm_get depths') \<subseteq> dom (bm_get depths) \<union> reach"
      by (simp_all add: walk_result_def)
    from Cons.IH [OF d'(1)] Cons.prems(2)
    have "walk_result parents max_depth reach depths' (set starts)
        (fold_res (hierarchy_start parents max_depth) starts depths')" by simp
    with d'(2-4) Inr show ?thesis
      by (cases "fold_res (hierarchy_start parents max_depth) starts depths'")
        (simp_all add: walk_result_def, blast)
  qed
qed (simp add: walk_result_def)

lemma check_endpoints_Inr_iff:
  "check_endpoints live es = Inr () \<longleftrightarrow> (\<forall>(c, p)\<in>set es. c \<in> bs_set live \<and> p \<in> bs_set live)"
  by (induction live es rule: check_endpoints.induct) (auto simp: bs_set_def)

lemma check_endpoints_Inl:
  "check_endpoints live es = Inl e \<Longrightarrow>
     \<exists>c p. (c, p) \<in> set es \<and> e = HierarchyParentNotFound c p \<and> (c \<notin> bs_set live \<or> p \<notin> bs_set live)"
  by (induction live es rule: check_endpoints.induct) (auto simp: bs_set_def split: if_splits)

text \<open>What a valid hierarchy is: live endpoints, no cycle, and bounded depth.\<close>

definition hierarchy_ok :: "'a set \<Rightarrow> ('a \<rightharpoonup> 'a) \<Rightarrow> nat \<Rightarrow> bool" where
  "hierarchy_ok live par max_depth \<longleftrightarrow>
     (\<forall>c p. par c = Some p \<longrightarrow> c \<in> live \<and> p \<in> live) \<and>
     (\<forall>x\<in>live. \<exists>n\<le>max_depth. depth_of par x n)"

lemma hierarchy_depths_result:
  assumes "check_endpoints live (bm_entries parents) = Inr ()"
  shows "walk_result parents max_depth (bs_set live) bm_empty (bs_set live)
    (hierarchy_depths live parents max_depth)"
proof -
  have closed: "bm_get parents x = Some y \<Longrightarrow> y \<in> bs_set live" for x y
    using assms by (auto simp: check_endpoints_Inr_iff set_bm_entries)
  have "walk_result parents max_depth (bs_set live) bm_empty (set (bm_keys live))
      (fold_res (hierarchy_start parents max_depth) (bm_keys live) bm_empty)"
    using closed by (intro hierarchy_fold_walk) (auto simp: depths_ok_def bs_set_def)
  then show ?thesis using assms by (simp only: hierarchy_depths_def bind_res.simps set_bs_keys)
qed

lemma hierarchy_depths_Inr:
  assumes "hierarchy_depths live parents max_depth = Inr depths"
  shows "hierarchy_ok (bs_set live) (bm_get parents) (unat max_depth)"
    and "dom (bm_get depths) = bs_set live"
    and "bm_get depths x = Some w \<Longrightarrow> depth_of (bm_get parents) x (unat w)"
proof -
  have ends: "check_endpoints live (bm_entries parents) = Inr ()"
    using assms by (auto simp: hierarchy_depths_def res_simps)
  from hierarchy_depths_result [OF ends, of max_depth] assms
  have ok: "depths_ok parents max_depth depths" and dom: "dom (bm_get depths) = bs_set live"
    by (auto simp: walk_result_def)
  show "dom (bm_get depths) = bs_set live" by (rule dom)
  show "bm_get depths x = Some w \<Longrightarrow> depth_of (bm_get parents) x (unat w)"
    using ok by (auto simp: depths_ok_def)
  have "\<exists>n\<le>unat max_depth. depth_of (bm_get parents) x n" if "x \<in> bs_set live" for x
  proof -
    from that dom obtain w where "bm_get depths x = Some w" by blast
    then show ?thesis using ok by (auto simp: depths_ok_def word_le_unat)
  qed
  moreover have "c \<in> bs_set live \<and> p \<in> bs_set live" if "bm_get parents c = Some p" for c p
    using ends that by (auto simp: check_endpoints_Inr_iff set_bm_entries)
  ultimately show "hierarchy_ok (bs_set live) (bm_get parents) (unat max_depth)"
    by (simp add: hierarchy_ok_def)
qed

lemma hierarchy_depths_Inl:
  assumes "hierarchy_depths live parents max_depth = Inl e"
  shows "(\<exists>c p. e = HierarchyParentNotFound c p \<and> bm_get parents c = Some p \<and>
      (c \<notin> bs_set live \<or> p \<notin> bs_set live)) \<or>
    walk_error parents max_depth (\<lambda>i. i \<in> bs_set live) e"
proof (cases "check_endpoints live (bm_entries parents)")
  case (Inl f)
  then have "e = f" using assms by (simp add: hierarchy_depths_def)
  then show ?thesis using check_endpoints_Inl [OF Inl] by (auto simp: set_bm_entries)
next
  case (Inr u)
  then have "check_endpoints live (bm_entries parents) = Inr ()" by simp
  from hierarchy_depths_result [OF this, of max_depth] assms show ?thesis
    by (simp add: walk_result_def)
qed

lemma walk_error_not_ok:
  assumes "walk_error parents max_depth (\<lambda>i. i \<in> live) e"
  shows "\<not> hierarchy_ok live (bm_get parents) (unat max_depth)"
proof
  assume ok: "hierarchy_ok live (bm_get parents) (unat max_depth)"
  from assms consider (cycle) i where "i \<in> live" "(i, i) \<in> (parent_rel (bm_get parents))\<^sup>+"
    | (deep) i n where "i \<in> live" "depth_of (bm_get parents) i n" "unat max_depth < n"
    by (auto simp: walk_error_def)
  then show False
  proof cases
    case cycle
    then obtain n where "depth_of (bm_get parents) i n" using ok by (auto simp: hierarchy_ok_def)
    from depth_of_acyclic [OF this] cycle(2) show False by contradiction
  next
    case deep
    then obtain m where m: "m \<le> unat max_depth" "depth_of (bm_get parents) i m"
      using ok by (auto simp: hierarchy_ok_def)
    from depth_of_unique [OF m(2) deep(2)] m(1) deep(3) show False by simp
  qed
qed

lemma hierarchy_depths_Inr_iff:
  "(\<exists>depths. hierarchy_depths live parents max_depth = Inr depths) \<longleftrightarrow>
     hierarchy_ok (bs_set live) (bm_get parents) (unat max_depth)"
proof
  assume ok: "hierarchy_ok (bs_set live) (bm_get parents) (unat max_depth)"
  show "\<exists>depths. hierarchy_depths live parents max_depth = Inr depths"
  proof (cases "hierarchy_depths live parents max_depth")
    case (Inl e)
    have "\<not> walk_error parents max_depth (\<lambda>i. i \<in> bs_set live) e"
      using walk_error_not_ok [of parents max_depth "bs_set live" e] ok by blast
    moreover have "bm_get parents c = Some p \<Longrightarrow> c \<in> bs_set live \<and> p \<in> bs_set live" for c p
      using ok by (simp add: hierarchy_ok_def)
    ultimately show ?thesis using hierarchy_depths_Inl [OF Inl] by blast
  qed blast
qed (use hierarchy_depths_Inr(1) in blast)

section \<open>Correctness of the child index\<close>

text \<open>The child index of a parent map: one entry per parent, holding exactly its children.\<close>

definition children_of :: "('a \<rightharpoonup> 'a) \<Rightarrow> 'a \<Rightarrow> 'a set" where
  "children_of par p = {c. par c = Some p}"

definition child_set :: "child_map \<Rightarrow> stable_entity_id \<Rightarrow> stable_entity_id set" where
  "child_set children p = set (child_list children p)"

lemma child_set_get: "bm_get children p = Some s \<Longrightarrow> bs_set s = child_set children p"
  by (simp add: child_set_def child_list_def bs_set_def)

lemma child_set_None: "bm_get children p = None \<Longrightarrow> child_set children p = {}"
  by (simp add: child_set_def child_list_def)

lemma child_set_add_child:
  "child_set (add_child (c, p) children) q = child_set children q \<union> (if q = p then {c} else {})"
  by (cases "bm_get children p") (auto simp: child_set_def child_list_def add_child_def)

lemma dom_add_child: "dom (bm_get (add_child (c, p) children)) = insert p (dom (bm_get children))"
  by (simp add: add_child_def)

lemma child_set_fold:
  "child_set (fold add_child es children) q = child_set children q \<union> {c. (c, q) \<in> set es}"
proof (induction es arbitrary: children)
  case (Cons e es)
  obtain c p where "e = (c, p)" by (cases e)
  then show ?case by (simp add: Cons child_set_add_child) auto
qed simp

lemma dom_fold_add_child:
  "dom (bm_get (fold add_child es children)) = dom (bm_get children) \<union> snd ` set es"
proof (induction es arbitrary: children)
  case (Cons e es)
  obtain c p where "e = (c, p)" by (cases e)
  then show ?case by (simp only: fold.simps comp_apply Cons dom_add_child) auto
qed simp

lemma child_set_rebuild: "child_set (rebuild_children parents) p = children_of (bm_get parents) p"
  by (simp add: rebuild_children_def child_set_fold children_of_def set_bm_entries child_set_None)

lemma dom_rebuild: "dom (bm_get (rebuild_children parents)) = ran (bm_get parents)"
proof -
  have "snd ` set (bm_entries parents) = ran (bm_get parents)"
    by (force simp: ran_def set_bm_entries [symmetric])
  then show ?thesis by (simp add: rebuild_children_def dom_fold_add_child)
qed

lemma bm_values_keys: "bm_values m = map (\<lambda>k. the (bm_get m k)) (bm_keys m)"
  by (auto simp: bm_values_def bm_keys_def set_bm_entries simp flip: map_of_bm_entries
      intro!: map_of_is_SomeI ascending_distinct [OF ascending_bm_entries])

text \<open>Every child is counted once.\<close>

lemma rebuild_children_count:
  "sum_list (map bm_len (bm_values (rebuild_children parents))) = bm_len parents"
proof -
  let ?ch = "rebuild_children parents" and ?par = "bm_get parents"
  have len: "bm_len (the (bm_get ?ch p)) = card (children_of ?par p)" if "p \<in> dom (bm_get ?ch)" for p
    using that child_set_get [of ?ch p] by (auto simp: bs_len_card child_set_rebuild)
  have "sum_list (map bm_len (bm_values ?ch)) = (\<Sum>p\<in>dom (bm_get ?ch). bm_len (the (bm_get ?ch p)))"
    using sum_list_distinct_conv_sum_set [OF distinct_bm_keys [of ?ch], of "\<lambda>p. bm_len (the (bm_get ?ch p))"]
    by (simp add: bm_values_keys comp_def)
  also have "\<dots> = (\<Sum>p\<in>ran ?par. card (children_of ?par p))"
    using len by (simp add: dom_rebuild)
  also have "\<dots> = card (\<Union>p\<in>ran ?par. children_of ?par p)"
  proof (rule card_UN_disjoint [symmetric])
    show "finite (ran ?par)" by (rule finite_ran) simp
    show "\<forall>p\<in>ran ?par. finite (children_of ?par p)"
      by (auto simp: children_of_def intro: finite_subset [of _ "dom ?par"])
  qed (auto simp: children_of_def)
  also have "(\<Union>p\<in>ran ?par. children_of ?par p) = dom ?par"
    by (auto simp: children_of_def ran_def)
  finally show ?thesis by (simp add: bm_len_card [of parents])
qed

section \<open>Correctness of the affected set\<close>

abbreviation has_dirty_above :: "('a \<rightharpoonup> 'a) \<Rightarrow> 'a set \<Rightarrow> 'a \<Rightarrow> bool" where
  "has_dirty_above par dirty x \<equiv> \<exists>y\<in>dirty. (x, y) \<in> (parent_rel par)\<^sup>+"

lemma trancl_parent_rel:
  assumes "par x = Some p"
  shows "(x, y) \<in> (parent_rel par)\<^sup>+ \<longleftrightarrow> y = p \<or> (p, y) \<in> (parent_rel par)\<^sup>+"
proof -
  have "(x, y) \<in> (parent_rel par)\<^sup>+ \<longleftrightarrow> (\<exists>z. par x = Some z \<and> (z, y) \<in> (parent_rel par)\<^sup>*)"
    by (simp add: trancl_unfold_left relcomp_unfold)
  then show ?thesis using assms by (auto simp: rtrancl_eq_or_trancl)
qed

lemma no_trancl_root: "par x = None \<Longrightarrow> (x, y) \<notin> (parent_rel par)\<^sup>+"
  by (simp add: trancl_unfold_left relcomp_unfold)

lemma no_dirty_ancestor_returns:
  assumes "depth_of (bm_get parents) x n"
  shows "no_dirty_ancestor parents dirty x = Some (\<not> has_dirty_above (bm_get parents) (bs_set dirty) x)"
  using assms
proof (induction rule: depth_of.induct)
  case (depth_root x)
  then show ?case
    by (subst no_dirty_ancestor.simps) (simp add: no_trancl_root)
next
  case (depth_child x p n)
  then show ?case
    by (subst no_dirty_ancestor.simps) (auto simp: trancl_parent_rel bs_set_def)
qed

lemma filter_option_Some: "(\<And>x. x \<in> set xs \<Longrightarrow> p x = Some (q x)) \<Longrightarrow> filter_option p xs = Some (filter q xs)"
  by (induction xs) auto

text \<open>
  The order of a traversal: every entry is one of the roots or comes after its parent.
\<close>

definition parents_first :: "('a \<rightharpoonup> 'a) \<Rightarrow> 'a set \<Rightarrow> 'a list \<Rightarrow> bool" where
  "parents_first par roots xs \<longleftrightarrow>
     (\<forall>ys x zs. xs = ys @ x # zs \<longrightarrow> x \<in> roots \<or> (\<exists>p\<in>set ys. par x = Some p))"

lemma parents_first_snoc:
  "parents_first par roots (xs @ [x]) \<longleftrightarrow>
     parents_first par roots xs \<and> (x \<in> roots \<or> (\<exists>p\<in>set xs. par x = Some p))"
  (is "?l \<longleftrightarrow> ?r")
proof
  assume ?l
  then show ?r by (fastforce simp: parents_first_def)
next
  assume r: ?r
  show ?l
    unfolding parents_first_def
  proof (intro allI impI)
    fix ys y zs assume eq: "xs @ [x] = ys @ y # zs"
    show "y \<in> roots \<or> (\<exists>p\<in>set ys. par y = Some p)"
    proof (cases zs rule: rev_cases)
      case Nil
      with eq r show ?thesis by simp
    next
      case (snoc ws w)
      with eq have "xs = ys @ y # ws" by simp
      with r show ?thesis by (simp add: parents_first_def)
    qed
  qed
qed

text \<open>The loop invariant of the traversal.\<close>

definition visit_inv ::
    "(stable_entity_id \<rightharpoonup> stable_entity_id) \<Rightarrow> stable_entity_id set \<Rightarrow> stable_entity_id btree_set
       \<Rightarrow> stable_entity_id list \<Rightarrow> stable_entity_id list \<Rightarrow> bool" where
  "visit_inv par roots seen affected pending \<longleftrightarrow>
     bs_set seen = set affected \<and> distinct affected \<and> parents_first par roots affected \<and>
     (\<forall>y\<in>set affected. children_of par y \<subseteq> set affected \<union> set pending) \<and>
     (\<forall>y\<in>set pending. y \<in> roots \<or> (\<exists>p\<in>set affected. par y = Some p)) \<and>
     roots \<subseteq> set affected \<union> set pending"

lemma visit_inv_seen:
  assumes "visit_inv par roots seen affected (i # pending)" "i \<in> bs_set seen"
  shows "visit_inv par roots seen affected pending"
proof -
  have "set affected \<union> set (i # pending) = set affected \<union> set pending"
    using assms by (auto simp: visit_inv_def)
  with assms(1) show ?thesis unfolding visit_inv_def by simp
qed

lemma visit_inv_new:
  assumes "visit_inv par roots seen affected (i # pending)" "i \<notin> bs_set seen"
    and "set kids = children_of par i"
  shows "visit_inv par roots (bs_insert i seen) (affected @ [i]) (kids @ pending)"
  using assms by (auto simp: visit_inv_def parents_first_snoc children_of_def)

lemma visit_affected_correct:
  assumes "\<And>p. child_set children p = children_of par p" "visit_inv par roots seen affected pending"
  shows "\<exists>seen'. visit_inv par roots seen' (visit_affected children seen affected pending) []"
  using assms
proof (induction children seen affected pending rule: visit_affected.induct)
  case (2 children seen affected i pending)
  show ?case
  proof (cases "bs_mem seen i")
    case True
    then have "visit_inv par roots seen affected pending"
      using "2.prems"(2) visit_inv_seen by (auto simp: bs_set_def)
    from "2.IH"(1) [OF True "2.prems"(1) this] True show ?thesis by simp
  next
    case False
    have "set (child_list children i) = children_of par i"
      using "2.prems"(1) by (simp add: child_set_def)
    then have "visit_inv par roots (bs_insert i seen) (affected @ [i]) (child_list children i @ pending)"
      using "2.prems"(2) False by (intro visit_inv_new) (auto simp: bs_set_def)
    from "2.IH"(2) [OF False "2.prems"(1) this] False show ?thesis by simp
  qed
qed auto

lemma parents_first_reach:
  assumes "parents_first par roots xs" "x \<in> set xs"
  shows "\<exists>r\<in>roots. (x, r) \<in> (parent_rel par)\<^sup>*"
  using assms
proof (induction xs arbitrary: x rule: rev_induct)
  case (snoc y ys)
  have ys: "\<exists>r\<in>roots. (z, r) \<in> (parent_rel par)\<^sup>*" if "z \<in> set ys" for z
    using snoc.IH that snoc.prems(1) by (simp add: parents_first_snoc)
  show ?case
  proof (cases "x \<in> set ys")
    case False
    with snoc.prems consider "x \<in> roots" | p where "p \<in> set ys" "par x = Some p"
      by (auto simp: parents_first_snoc)
    then show ?thesis
    proof cases
      case 2
      from ys [OF 2(1)] obtain r where r: "r \<in> roots" "(p, r) \<in> (parent_rel par)\<^sup>*" by blast
      have "(x, p) \<in> parent_rel par" using 2(2) by simp
      from converse_rtrancl_into_rtrancl [OF this r(2)] r(1) show ?thesis by blast
    qed blast
  qed (rule ys)
qed simp

lemma visit_inv_done_set:
  assumes "visit_inv par roots seen xs []"
  shows "set xs = {x. \<exists>r\<in>roots. (x, r) \<in> (parent_rel par)\<^sup>*}"
proof -
  have closed: "children_of par y \<subseteq> set xs" if "y \<in> set xs" for y
    using assms that by (auto simp: visit_inv_def)
  have "x \<in> set xs" if "(x, r) \<in> (parent_rel par)\<^sup>*" "r \<in> roots" for x r
    using that(1)
  proof (induction rule: converse_rtrancl_induct)
    case base
    then show ?case using assms that(2) by (auto simp: visit_inv_def)
  next
    case (step y z)
    then show ?case using closed [of z] by (auto simp: children_of_def)
  qed
  moreover have "\<exists>r\<in>roots. (x, r) \<in> (parent_rel par)\<^sup>*" if "x \<in> set xs" for x
    using assms that by (intro parents_first_reach) (auto simp: visit_inv_def)
  ultimately show ?thesis by blast
qed

text \<open>Every dirty entity lies below a dirty one that has no dirty ancestor.\<close>

lemma topmost_dirty:
  assumes "depth_of par x n" "x \<in> dirty"
  shows "\<exists>r\<in>dirty. \<not> has_dirty_above par dirty r \<and> (x, r) \<in> (parent_rel par)\<^sup>*"
  using assms
proof (induction n arbitrary: x rule: less_induct)
  case (less n)
  show ?case
  proof (cases "has_dirty_above par dirty x")
    case True
    then obtain y where y: "y \<in> dirty" "(x, y) \<in> (parent_rel par)\<^sup>+" by blast
    from depth_of_trancl [OF y(2) less.prems(1)] obtain m where "m < n" "depth_of par y m" by blast
    from less.IH [OF this y(1)] obtain r where "r \<in> dirty" "\<not> has_dirty_above par dirty r"
      "(y, r) \<in> (parent_rel par)\<^sup>*" by blast
    moreover have "(x, y) \<in> (parent_rel par)\<^sup>*" using y(2) by (rule trancl_into_rtrancl)
    ultimately show ?thesis by (blast intro: rtrancl_trans)
  qed (use less.prems in blast)
qed

lemma affected_entities_correct:
  assumes kids: "\<And>p. child_set children p = children_of (bm_get parents) p"
    and deep: "\<And>x. x \<in> bs_set dirty \<Longrightarrow> \<exists>n. depth_of (bm_get parents) x n"
  obtains xs where "affected_entities parents children dirty = Some xs" "distinct xs"
    "set xs = {x. \<exists>d\<in>bs_set dirty. (x, d) \<in> (parent_rel (bm_get parents))\<^sup>*}"
    "\<And>ys x zs p. xs = ys @ x # zs \<Longrightarrow> bm_get parents x = Some p \<Longrightarrow> p \<in> set xs \<Longrightarrow> p \<in> set ys"
proof -
  let ?par = "bm_get parents"
  let ?roots = "{d \<in> bs_set dirty. \<not> has_dirty_above ?par (bs_set dirty) d}"
  let ?rs = "filter (\<lambda>d. \<not> has_dirty_above ?par (bs_set dirty) d) (bm_keys dirty)"
  have "filter_option (no_dirty_ancestor parents dirty) (bm_keys dirty) = Some ?rs"
  proof (rule filter_option_Some)
    fix x assume "x \<in> set (bm_keys dirty)"
    then obtain n where "depth_of ?par x n" using deep by (auto simp: bs_set_def)
    then show "no_dirty_ancestor parents dirty x = Some (\<not> has_dirty_above ?par (bs_set dirty) x)"
      by (rule no_dirty_ancestor_returns)
  qed
  moreover define xs where "xs = visit_affected children bs_empty [] (bm_keys (bs_of_list ?rs))"
  ultimately have aff: "affected_entities parents children dirty = Some xs"
    by (simp add: affected_entities_def)
  have "visit_inv ?par ?roots bs_empty [] (bm_keys (bs_of_list ?rs))"
    by (auto simp: visit_inv_def parents_first_def set_bs_keys simp del: set_bm_keys)
  from visit_affected_correct [OF kids this] obtain seen where inv: "visit_inv ?par ?roots seen xs []"
    unfolding xs_def by blast
  have set_roots: "set xs = {x. \<exists>r\<in>?roots. (x, r) \<in> (parent_rel ?par)\<^sup>*}"
    by (rule visit_inv_done_set [OF inv])
  have set_dirty: "set xs = {x. \<exists>d\<in>bs_set dirty. (x, d) \<in> (parent_rel ?par)\<^sup>*}"
    unfolding set_roots using deep topmost_dirty [of ?par _ _ "bs_set dirty"]
    by (blast intro: rtrancl_trans)
  have "p \<in> set ys" if xs: "xs = ys @ x # zs" and p: "?par x = Some p" "p \<in> set xs" for ys x zs p
  proof -
    have "parents_first ?par ?roots xs" using inv by (simp add: visit_inv_def)
    with xs have "x \<in> ?roots \<or> (\<exists>q\<in>set ys. ?par x = Some q)"
      unfolding parents_first_def by blast
    then consider "x \<in> ?roots" | q where "q \<in> set ys" "?par x = Some q" by blast
    then show ?thesis
    proof cases
      case 1
      from p(2) set_dirty obtain d where "d \<in> bs_set dirty" "(p, d) \<in> (parent_rel ?par)\<^sup>*" by blast
      moreover have "(x, p) \<in> parent_rel ?par" using p(1) by simp
      ultimately have "has_dirty_above ?par (bs_set dirty) x" by (blast intro: rtrancl_into_trancl2)
      with 1 show ?thesis by simp
    qed (use p(1) in simp)
  qed
  moreover have "distinct xs" using inv by (simp add: visit_inv_def)
  ultimately show ?thesis using that [OF aff _ set_dirty] by blast
qed

section \<open>Properties\<close>

text \<open>
  C8. The depth computation of the hierarchy is total and exact: it succeeds if and only
  if every edge joins two live entities, there is no cycle, and no entity is deeper than
  the limit; and on success it maps exactly the live entities, each to its distance from
  its root. On failure it names the reason: an edge with a missing endpoint, an entity
  that is its own ancestor, or an entity that is deeper than the limit.
\<close>

theorem hierarchy_depths_accepts_iff:
  "case hierarchy_depths live_ids parents max_depth of
     Inr depths \<Rightarrow>
       hierarchy_ok (bs_set live_ids) (bm_get parents) (unat max_depth) \<and>
       dom (bm_get depths) = bs_set live_ids \<and>
       (\<forall>x d. bm_get depths x = Some d \<longleftrightarrow> x \<in> bs_set live_ids \<and> depth_of (bm_get parents) x (unat d))
   | Inl e \<Rightarrow>
       \<not> hierarchy_ok (bs_set live_ids) (bm_get parents) (unat max_depth) \<and>
       ((\<exists>c p. e = HierarchyParentNotFound c p \<and> bm_get parents c = Some p \<and>
           (c \<notin> bs_set live_ids \<or> p \<notin> bs_set live_ids)) \<or>
        (\<exists>i\<in>bs_set live_ids. e = HierarchyCycle i \<and> (i, i) \<in> (parent_rel (bm_get parents))\<^sup>+) \<or>
        (\<exists>i\<in>bs_set live_ids. \<exists>k n. e = HierarchyDepthExceeded i k max_depth \<and>
           depth_of (bm_get parents) i n \<and> unat max_depth < n))"
proof (cases "hierarchy_depths live_ids parents max_depth")
  case (Inl e)
  have "\<not> hierarchy_ok (bs_set live_ids) (bm_get parents) (unat max_depth)"
    using hierarchy_depths_Inr_iff [of live_ids parents max_depth] Inl by simp
  with hierarchy_depths_Inl [OF Inl] show ?thesis unfolding walk_error_def Inl sum.case by blast
next
  case (Inr depths)
  note h = hierarchy_depths_Inr [OF Inr]
  have "bm_get depths x = Some d" if "x \<in> bs_set live_ids" "depth_of (bm_get parents) x (unat d)" for x d
  proof -
    from that(1) h(2) obtain w where w: "bm_get depths x = Some w" by blast
    from depth_of_unique [OF h(3) [OF w] that(2)] have "w = d" by (simp add: unat_inj_iff)
    with w show ?thesis by simp
  qed
  moreover have "x \<in> bs_set live_ids" if "bm_get depths x = Some d" for x d
    using h(2) that by blast
  ultimately have "bm_get depths x = Some d \<longleftrightarrow>
      x \<in> bs_set live_ids \<and> depth_of (bm_get parents) x (unat d)" for x d
    using h(3) by blast
  with h(1,2) show ?thesis unfolding Inr sum.case by blast
qed

theorem hierarchy_depths_accepts_witness:
  "is_ok (hierarchy_depths (bs_of_list [StableEntityId 1, StableEntityId 2])
     (bm_insert (StableEntityId 2) (StableEntityId 1) bm_empty) 1) \<and>
   hierarchy_ok (bs_set (bs_of_list [StableEntityId 1, StableEntityId 2]))
     (bm_get (bm_insert (StableEntityId 2) (StableEntityId 1) bm_empty)) (unat (1 :: u32))"
proof -
  have ok: "is_ok (hierarchy_depths (bs_of_list [StableEntityId 1, StableEntityId 2])
      (bm_insert (StableEntityId 2) (StableEntityId 1) bm_empty) 1)"
    by code_simp
  then show ?thesis
    using hierarchy_depths_accepts_iff [of "bs_of_list [StableEntityId 1, StableEntityId 2]"
        "bm_insert (StableEntityId 2) (StableEntityId 1) bm_empty" 1]
    by (auto simp: is_ok_iff)
qed

end
