(* ===== verification/Transform.thy ===== *)
theory Transform
  imports Protocol_Component
begin

text \<open>
  Derived transforms (\<open>cogniform-world/src/transform.rs\<close>): column-major 4x4 matrices of
  64-bit floats, built from a local transform and composed with the parent's matrix.
  Every arithmetic operation is rounded in the order in which the source writes it.
\<close>

record world_transform =
  wt_matrix :: "f64 list"
  wt_generation :: u64

definition IDENTITY_MATRIX :: "f64 list" where
  "IDENTITY_MATRIX =
     [f64_one, f64_zero, f64_zero, f64_zero,
      f64_zero, f64_one, f64_zero, f64_zero,
      f64_zero, f64_zero, f64_one, f64_zero,
      f64_zero, f64_zero, f64_zero, f64_one]"

definition identity :: "u64 \<Rightarrow> world_transform" where
  "identity generation = \<lparr> wt_matrix = IDENTITY_MATRIX, wt_generation = generation \<rparr>"

text \<open>The reciprocal of the norm of a quaternion.\<close>

definition inverse_norm :: "f64 \<Rightarrow> f64 \<Rightarrow> f64 \<Rightarrow> f64 \<Rightarrow> f64" where
  "inverse_norm x y z w =
     f64_recip (f64_sqrt
       (f64_add (f64_add (f64_add (f64_mul x x) (f64_mul y y)) (f64_mul z z)) (f64_mul w w)))"

text \<open>\<open>(1 - 2 (a + b)) s\<close>, \<open>2 (a + b) s\<close> and \<open>2 (a - b) s\<close>, as the matrix uses them.\<close>

definition diagonal_entry :: "f64 \<Rightarrow> f64 \<Rightarrow> f64 \<Rightarrow> f64" where
  "diagonal_entry a b s = f64_mul (f64_sub f64_one (f64_mul f64_two (f64_add a b))) s"

definition sum_entry :: "f64 \<Rightarrow> f64 \<Rightarrow> f64 \<Rightarrow> f64" where
  "sum_entry a b s = f64_mul (f64_mul f64_two (f64_add a b)) s"

definition difference_entry :: "f64 \<Rightarrow> f64 \<Rightarrow> f64 \<Rightarrow> f64" where
  "difference_entry a b s = f64_mul (f64_mul f64_two (f64_sub a b)) s"

definition local_matrix ::
    "f64 \<Rightarrow> f64 \<Rightarrow> f64 \<Rightarrow> f64 \<Rightarrow> f64 \<Rightarrow> f64 \<Rightarrow> f64 \<Rightarrow> f64 \<Rightarrow> f64 \<Rightarrow> f64 \<Rightarrow> f64 list" where
  "local_matrix x y z w sx sy sz tx ty tz =
     [diagonal_entry (f64_mul y y) (f64_mul z z) sx,
      sum_entry (f64_mul x y) (f64_mul z w) sx,
      difference_entry (f64_mul x z) (f64_mul y w) sx,
      f64_zero,
      difference_entry (f64_mul x y) (f64_mul z w) sy,
      diagonal_entry (f64_mul x x) (f64_mul z z) sy,
      sum_entry (f64_mul y z) (f64_mul x w) sy,
      f64_zero,
      sum_entry (f64_mul x z) (f64_mul y w) sz,
      difference_entry (f64_mul y z) (f64_mul x w) sz,
      diagonal_entry (f64_mul x x) (f64_mul y y) sz,
      f64_zero,
      tx, ty, tz, f64_one]"

definition all_finite :: "f64 list \<Rightarrow> u64 \<Rightarrow> world_transform option" where
  "all_finite matrix generation =
     (if list_all f64_is_finite matrix
      then Some \<lparr> wt_matrix = matrix, wt_generation = generation \<rparr> else None)"

definition normalised_local ::
    "local_transform \<Rightarrow> f64 \<Rightarrow> f64 \<Rightarrow> f64 \<Rightarrow> f64 \<Rightarrow> f64 \<Rightarrow> u64 \<Rightarrow> world_transform option" where
  "normalised_local t x y z w n generation =
     (if \<not> f64_is_finite n then None
      else all_finite
        (local_matrix (f64_mul x n) (f64_mul y n) (f64_mul z n) (f64_mul w n)
          (f64_of_f32 (positive_get (pvec3_x (lt_scale t))))
          (f64_of_f32 (positive_get (pvec3_y (lt_scale t))))
          (f64_of_f32 (positive_get (pvec3_z (lt_scale t))))
          (f64_of_f32 (finite_get (vec3_x (lt_translation t))))
          (f64_of_f32 (finite_get (vec3_y (lt_translation t))))
          (f64_of_f32 (finite_get (vec3_z (lt_translation t))))) generation)"

definition from_rotation ::
    "local_transform \<Rightarrow> f64 \<Rightarrow> f64 \<Rightarrow> f64 \<Rightarrow> f64 \<Rightarrow> u64 \<Rightarrow> world_transform option" where
  "from_rotation t x y z w generation = normalised_local t x y z w (inverse_norm x y z w) generation"

definition from_local :: "local_transform option \<Rightarrow> u64 \<Rightarrow> world_transform option" where
  "from_local local_transform generation =
     (case local_transform of
        None \<Rightarrow> Some (identity generation)
      | Some t \<Rightarrow>
          from_rotation t
            (f64_of_f32 (finite_get (quat_x (lt_rotation t))))
            (f64_of_f32 (finite_get (quat_y (lt_rotation t))))
            (f64_of_f32 (finite_get (quat_z (lt_rotation t))))
            (f64_of_f32 (finite_get (quat_w (lt_rotation t)))) generation)"

definition compose_entry :: "f64 list \<Rightarrow> f64 list \<Rightarrow> nat \<times> nat \<Rightarrow> f64" where
  "compose_entry a b column_row =
     foldl (\<lambda>sum index.
         f64_add sum (f64_mul (a ! (index * 4 + snd column_row)) (b ! (fst column_row * 4 + index))))
       f64_zero [0, 1, 2, 3]"

definition compose_entries :: "f64 list \<Rightarrow> f64 list \<Rightarrow> f64 list" where
  "compose_entries a b =
     map (compose_entry a b) (List.product [0, 1, 2, 3] [0, 1, 2, 3])"

definition compose :: "world_transform \<Rightarrow> world_transform \<Rightarrow> u64 \<Rightarrow> world_transform option" where
  "compose parent local_transform generation =
     all_finite (compose_entries (wt_matrix parent) (wt_matrix local_transform)) generation"

section \<open>Shape of the results\<close>

definition matrix_ok :: "f64 list \<Rightarrow> bool" where
  "matrix_ok m \<longleftrightarrow> length m = 16 \<and> list_all f64_is_finite m"

lemma IDENTITY_MATRIX_ok: "matrix_ok IDENTITY_MATRIX"
  by (simp add: matrix_ok_def IDENTITY_MATRIX_def f64_is_finite_0_1)

lemma all_finite_Some:
  "all_finite m g = Some t \<longleftrightarrow> list_all f64_is_finite m \<and> t = \<lparr> wt_matrix = m, wt_generation = g \<rparr>"
  by (auto simp: all_finite_def)

lemma length_local_matrix: "length (local_matrix x y z w sx sy sz tx ty tz) = 16"
  by (simp add: local_matrix_def)

lemma length_compose_entries: "length (compose_entries a b) = 16"
  by (simp add: compose_entries_def)

lemma from_local_ok:
  assumes "from_local l g = Some t"
  shows "matrix_ok (wt_matrix t)" "wt_generation t = g"
  using assms
  by (auto simp: from_local_def from_rotation_def normalised_local_def all_finite_Some matrix_ok_def
      length_local_matrix identity_def IDENTITY_MATRIX_ok [unfolded matrix_ok_def]
      split: option.splits if_splits)

lemma compose_ok:
  assumes "compose p l g = Some t"
  shows "matrix_ok (wt_matrix t)" "wt_generation t = g"
  using assms by (auto simp: compose_def all_finite_Some matrix_ok_def length_compose_entries)

text \<open>The generation only labels the result.\<close>

lemma from_local_generation:
  "from_local l g = Some t \<Longrightarrow> from_local l h = Some (t\<lparr>wt_generation := h\<rparr>)"
  by (auto simp: from_local_def from_rotation_def normalised_local_def all_finite_def identity_def
      split: option.splits if_splits)

text \<open>Composing identities needs no rounding.\<close>

lemma compose_identity: "compose (identity g) (identity h) k = Some (identity k)"
  by (simp add: compose_def all_finite_def compose_entries_def compose_entry_def identity_def
      IDENTITY_MATRIX_def f64_mul_0_1 f64_add_0_1 f64_is_finite_0_1)

section \<open>The matrix of an entity\<close>

text \<open>
  Full recomputation of a world matrix: the local matrix of a root, the product with the
  parent's matrix below it.
\<close>

inductive world_matrix ::
    "('a \<rightharpoonup> 'a) \<Rightarrow> ('a \<Rightarrow> local_transform option) \<Rightarrow> 'a \<Rightarrow> f64 list \<Rightarrow> bool" for par loc where
  matrix_root: "par x = None \<Longrightarrow> from_local (loc x) 0 = Some t \<Longrightarrow> world_matrix par loc x (wt_matrix t)"
| matrix_child: "par x = Some p \<Longrightarrow> world_matrix par loc p m \<Longrightarrow> from_local (loc x) 0 = Some t \<Longrightarrow>
    all_finite (compose_entries m (wt_matrix t)) 0 = Some u \<Longrightarrow> world_matrix par loc x (wt_matrix u)"

lemma world_matrix_unique: "world_matrix par loc x m \<Longrightarrow> world_matrix par loc x n \<Longrightarrow> m = n"
proof (induction arbitrary: n rule: world_matrix.induct)
  case (matrix_root x t)
  from matrix_root.prems show ?case
    by cases (use matrix_root.hyps in simp_all)
next
  case (matrix_child x p m t u)
  from matrix_child.prems show ?case
  proof cases
    case (matrix_child q m' t' u')
    with matrix_child.hyps have "q = p" "t' = t" by simp_all
    with matrix_child.IH matrix_child have "m' = m" by simp
    with \<open>t' = t\<close> matrix_child matrix_child.hyps show ?thesis by simp
  qed (use matrix_child.hyps in simp)
qed

lemma world_matrix_ok: "world_matrix par loc x m \<Longrightarrow> matrix_ok m"
proof (induction rule: world_matrix.induct)
  case (matrix_child x p m t u)
  then show ?case by (simp add: all_finite_Some matrix_ok_def length_compose_entries)
qed (rule from_local_ok(1))

text \<open>The matrix of an entity depends on its own chain of ancestors alone.\<close>

lemma world_matrix_cong:
  assumes "world_matrix par loc x m" "P x"
    and "\<And>y. P y \<Longrightarrow> par' y = par y \<and> loc' y = loc y"
    and "\<And>y p. P y \<Longrightarrow> par y = Some p \<Longrightarrow> P p"
  shows "world_matrix par' loc' x m"
  using assms(1,2)
proof (induction rule: world_matrix.induct)
  case (matrix_root x t)
  then show ?case using assms(3) [of x] by (auto intro: world_matrix.matrix_root)
next
  case (matrix_child x p m t u)
  then have "world_matrix par' loc' p m" using assms(4) by blast
  then show ?case
    using matrix_child.hyps matrix_child.prems assms(3) [of x]
    by (auto intro: world_matrix.matrix_child)
qed

end
