(* ===== verification/Entity_Store.thy ===== *)
theory Entity_Store
  imports Protocol_Component Btree_Map
begin

text \<open>
  The entity storage under the world (\<open>vendor/hecs\<close>): handles with a slot and a
  generation, the free list that recycles slots, and the components of an entity.
  A slot holds the components of its entity directly; the archetype tables, which decide
  where the components lie in memory, are not modelled. The allocator is modelled as the
  world uses it: no reserved handles, so the free cursor is the length of the free list.
  \<open>entity_store\<close> is the interface the world relies on, with the lemmas about an index
  from stable identities to handles proved once inside it.
\<close>

section \<open>Components of one entity\<close>

record component_bundle =
  b_stable_id :: "stable_entity_id option"
  b_name :: "name_component option"
  b_local_transform :: "local_transform option"
  b_primitive :: "primitive_component option"
  b_material :: "material_component option"
  b_camera :: "camera_component option"
  b_light :: "light_component option"
  b_asset_mesh :: "asset_mesh_component option"

definition empty_bundle :: component_bundle where
  "empty_bundle =
     \<lparr> b_stable_id = None, b_name = None, b_local_transform = None, b_primitive = None,
       b_material = None, b_camera = None, b_light = None, b_asset_mesh = None \<rparr>"

fun bundle_put :: "component_value \<Rightarrow> component_bundle \<Rightarrow> component_bundle" where
  "bundle_put (Name v) b = b\<lparr>b_name := Some v\<rparr>"
| "bundle_put (LocalTransform v) b = b\<lparr>b_local_transform := Some v\<rparr>"
| "bundle_put (Primitive v) b = b\<lparr>b_primitive := Some v\<rparr>"
| "bundle_put (Material v) b = b\<lparr>b_material := Some v\<rparr>"
| "bundle_put (Camera v) b = b\<lparr>b_camera := Some v\<rparr>"
| "bundle_put (Light v) b = b\<lparr>b_light := Some v\<rparr>"
| "bundle_put (AssetMesh v) b = b\<lparr>b_asset_mesh := Some v\<rparr>"

fun bundle_take :: "component_kind \<Rightarrow> component_bundle \<Rightarrow> component_bundle" where
  "bundle_take NameKind b = b\<lparr>b_name := None\<rparr>"
| "bundle_take LocalTransformKind b = b\<lparr>b_local_transform := None\<rparr>"
| "bundle_take PrimitiveKind b = b\<lparr>b_primitive := None\<rparr>"
| "bundle_take MaterialKind b = b\<lparr>b_material := None\<rparr>"
| "bundle_take CameraKind b = b\<lparr>b_camera := None\<rparr>"
| "bundle_take LightKind b = b\<lparr>b_light := None\<rparr>"
| "bundle_take AssetMeshKind b = b\<lparr>b_asset_mesh := None\<rparr>"

fun bundle_get :: "component_bundle \<Rightarrow> component_kind \<Rightarrow> component_value option" where
  "bundle_get b NameKind = map_option Name (b_name b)"
| "bundle_get b LocalTransformKind = map_option LocalTransform (b_local_transform b)"
| "bundle_get b PrimitiveKind = map_option Primitive (b_primitive b)"
| "bundle_get b MaterialKind = map_option Material (b_material b)"
| "bundle_get b CameraKind = map_option Camera (b_camera b)"
| "bundle_get b LightKind = map_option Light (b_light b)"
| "bundle_get b AssetMeshKind = map_option AssetMesh (b_asset_mesh b)"

lemma bundle_get_put [simp]:
  "bundle_get (bundle_put v b) k = (if k = component_kind_of v then Some v else bundle_get b k)"
  by (cases v; cases k) auto

lemma bundle_get_take [simp]:
  "bundle_get (bundle_take j b) k = (if k = j then None else bundle_get b k)"
  by (cases j; cases k) auto

lemma bundle_get_empty [simp]: "bundle_get empty_bundle k = None"
  by (cases k) (auto simp: empty_bundle_def)

lemma bundle_get_stable_id [simp]: "bundle_get (b\<lparr>b_stable_id := i\<rparr>) k = bundle_get b k"
  by (cases k) auto

lemma b_stable_id_put [simp]: "b_stable_id (bundle_put v b) = b_stable_id b"
  by (cases v) auto

lemma b_stable_id_take [simp]: "b_stable_id (bundle_take k b) = b_stable_id b"
  by (cases k) auto

lemma bundle_get_kind: "bundle_get b k = Some v \<Longrightarrow> component_kind_of v = k"
  by (cases k) auto

text \<open>An entity is its stable identity and what a lookup by kind returns.\<close>

lemma bundle_eqI:
  assumes "b_stable_id b = b_stable_id c" and get: "\<And>k. bundle_get b k = bundle_get c k"
  shows "b = (c :: component_bundle)"
proof -
  have inj: "map_option f x = map_option f y \<Longrightarrow> inj f \<Longrightarrow> x = y" for f :: "'x \<Rightarrow> 'y" and x y
    by (cases x; cases y) (auto dest: injD)
  have "b_name b = b_name c" using get [of NameKind] by (auto elim!: inj intro: injI)
  moreover have "b_local_transform b = b_local_transform c"
    using get [of LocalTransformKind] by (auto elim!: inj intro: injI)
  moreover have "b_primitive b = b_primitive c"
    using get [of PrimitiveKind] by (auto elim!: inj intro: injI)
  moreover have "b_material b = b_material c"
    using get [of MaterialKind] by (auto elim!: inj intro: injI)
  moreover have "b_camera b = b_camera c" using get [of CameraKind] by (auto elim!: inj intro: injI)
  moreover have "b_light b = b_light c" using get [of LightKind] by (auto elim!: inj intro: injI)
  moreover have "b_asset_mesh b = b_asset_mesh c"
    using get [of AssetMeshKind] by (auto elim!: inj intro: injI)
  ultimately show ?thesis using assms(1) by (intro component_bundle.equality) auto
qed

section \<open>Slots and handles\<close>

record entity =
  ent_id :: u32
  ent_generation :: u32

record entity_meta =
  meta_generation :: u32
  meta_row :: "component_bundle option"

record storage =
  st_meta :: "entity_meta list"
  st_pending :: "u32 list"
  st_len :: u32

definition storage_new :: storage where
  "storage_new = \<lparr> st_meta = [], st_pending = [], st_len = 0 \<rparr>"

definition slot_of :: "storage \<Rightarrow> u32 \<Rightarrow> entity_meta option" where
  "slot_of s i = (if unat i < length (st_meta s) then Some (st_meta s ! unat i) else None)"

text \<open>The components a handle reaches: a slot of the same generation that is occupied.\<close>

definition storage_row :: "storage \<Rightarrow> entity \<Rightarrow> component_bundle option" where
  "storage_row s e =
     (case slot_of s (ent_id e) of
        None \<Rightarrow> None
      | Some m \<Rightarrow> if meta_generation m = ent_generation e then meta_row m else None)"

definition storage_contains :: "storage \<Rightarrow> entity \<Rightarrow> bool" where
  "storage_contains s e = (storage_row s e \<noteq> None)"

definition storage_get :: "storage \<Rightarrow> entity \<Rightarrow> component_kind \<Rightarrow> component_value option" where
  "storage_get s e k =
     (case storage_row s e of None \<Rightarrow> None | Some b \<Rightarrow> bundle_get b k)"

definition write_row :: "storage \<Rightarrow> u32 \<Rightarrow> component_bundle option \<Rightarrow> storage" where
  "write_row s i row =
     s\<lparr>st_meta := (st_meta s)[unat i := (st_meta s ! unat i)\<lparr>meta_row := row\<rparr>]\<rparr>"

text \<open>\<open>Entities::alloc\<close>; \<open>None\<close> is the panic on a count or slot that does not fit.\<close>

definition entities_alloc :: "storage \<Rightarrow> (entity \<times> storage) option" where
  "entities_alloc s =
     (case checked_add (st_len s) 1 of
        None \<Rightarrow> None
      | Some l \<Rightarrow>
          (if st_pending s \<noteq> [] then
             Some (\<lparr> ent_id = last (st_pending s),
                     ent_generation = meta_generation (st_meta s ! unat (last (st_pending s))) \<rparr>,
                   s\<lparr> st_len := l, st_pending := butlast (st_pending s) \<rparr>)
           else
             (case word_of_len (length (st_meta s)) of
                None \<Rightarrow> None
              | Some i \<Rightarrow>
                  Some (\<lparr> ent_id = i, ent_generation = 1 \<rparr>,
                        s\<lparr> st_len := l,
                           st_meta := st_meta s @ [\<lparr> meta_generation = 1, meta_row = None \<rparr>] \<rparr>))))"

definition storage_spawn :: "storage \<Rightarrow> component_bundle \<Rightarrow> (entity \<times> storage) option" where
  "storage_spawn s b =
     (case entities_alloc s of
        None \<Rightarrow> None
      | Some (e, s') \<Rightarrow> Some (e, write_row s' (ent_id e) (Some b)))"

definition next_generation :: "u32 \<Rightarrow> u32" where
  "next_generation g = (if g + 1 = 0 then 1 else g + 1)"

text \<open>\<open>World::despawn\<close> through \<open>Entities::free\<close>; \<open>None\<close> is \<open>NoSuchEntity\<close>.\<close>

definition storage_despawn :: "storage \<Rightarrow> entity \<Rightarrow> storage option" where
  "storage_despawn s e =
     (if storage_contains s e then
        Some (s\<lparr> st_meta := (st_meta s)[unat (ent_id e) :=
                   \<lparr> meta_generation = next_generation (ent_generation e), meta_row = None \<rparr>],
                 st_pending := st_pending s @ [ent_id e],
                 st_len := st_len s - 1 \<rparr>)
      else None)"

text \<open>\<open>insert_one\<close> and \<open>remove_one\<close>; \<open>None\<close> is the error of a missing entity or component.\<close>

definition storage_insert_one :: "storage \<Rightarrow> entity \<Rightarrow> component_value \<Rightarrow> storage option" where
  "storage_insert_one s e v =
     (case storage_row s e of
        None \<Rightarrow> None
      | Some b \<Rightarrow> Some (write_row s (ent_id e) (Some (bundle_put v b))))"

definition storage_remove_one :: "storage \<Rightarrow> entity \<Rightarrow> component_kind \<Rightarrow> storage option" where
  "storage_remove_one s e k =
     (case storage_row s e of
        None \<Rightarrow> None
      | Some b \<Rightarrow>
          (if bundle_get b k = None then None
           else Some (write_row s (ent_id e) (Some (bundle_take k b)))))"

section \<open>The allocator's invariant\<close>

text \<open>
  The free list names distinct existing slots, exactly the empty ones, and the count is
  the number of the others.
\<close>

definition storage_ok :: "storage \<Rightarrow> bool" where
  "storage_ok s \<longleftrightarrow>
     distinct (st_pending s) \<and>
     (\<forall>i\<in>set (st_pending s). unat i < length (st_meta s)) \<and>
     (\<forall>i. unat i < length (st_meta s) \<longrightarrow>
        (meta_row (st_meta s ! unat i) = None \<longleftrightarrow> i \<in> set (st_pending s))) \<and>
     length (st_meta s) \<le> 2 ^ 32 - 1 \<and>
     unat (st_len s) + length (st_pending s) = length (st_meta s)"

lemma storage_ok_new: "storage_ok storage_new"
  by (simp add: storage_ok_def storage_new_def)

lemma storage_row_Some_iff:
  "storage_row s e = Some b \<longleftrightarrow>
     unat (ent_id e) < length (st_meta s) \<and>
     meta_generation (st_meta s ! unat (ent_id e)) = ent_generation e \<and>
     meta_row (st_meta s ! unat (ent_id e)) = Some b"
  by (auto simp: storage_row_def slot_of_def)

lemma storage_row_new [simp]: "storage_row storage_new = Map.empty"
  by (auto simp: storage_row_def slot_of_def storage_new_def)

lemma entity_eq_iff: "e = f \<longleftrightarrow> ent_id e = ent_id f \<and> ent_generation e = ent_generation (f :: entity)"
  by (cases e; cases f) auto

text \<open>Writing the components of an occupied slot changes that handle alone.\<close>

lemma storage_row_write:
  assumes "storage_row s e = Some b"
  shows "storage_row (write_row s (ent_id e) (Some c)) = (storage_row s)(e \<mapsto> c)"
proof (rule ext)
  fix f
  show "storage_row (write_row s (ent_id e) (Some c)) f = ((storage_row s)(e \<mapsto> c)) f"
  proof (cases "ent_id f = ent_id e")
    case True
    then show ?thesis
      using assms
      by (auto simp: storage_row_def slot_of_def write_row_def entity_eq_iff split: if_splits)
  next
    case False
    then have "unat (ent_id f) \<noteq> unat (ent_id e)" using unsigned_word_eqI by blast
    with False show ?thesis
      by (auto simp: storage_row_def slot_of_def write_row_def entity_eq_iff)
  qed
qed

lemma storage_ok_write:
  assumes "storage_ok s" "storage_row s e = Some b"
  shows "storage_ok (write_row s (ent_id e) (Some c))"
  using assms by (auto simp: storage_ok_def write_row_def nth_list_update storage_row_Some_iff)

lemma storage_despawn_laws:
  assumes ok: "storage_ok s" and row: "storage_row s e = Some b"
  shows "\<exists>s'. storage_despawn s e = Some s' \<and> storage_ok s' \<and>
    storage_row s' = (storage_row s)(e := None)"
proof -
  let ?i = "unat (ent_id e)"
  have i: "?i < length (st_meta s)" "meta_row (st_meta s ! ?i) = Some b"
      "meta_generation (st_meta s ! ?i) = ent_generation e"
    using row by (auto simp: storage_row_Some_iff)
  then have fresh: "ent_id e \<notin> set (st_pending s)" using ok by (auto simp: storage_ok_def)
  obtain s' where s': "storage_despawn s e = Some s'"
    using row by (simp add: storage_despawn_def storage_contains_def)
  then have s'_eq: "s' = s\<lparr> st_meta := (st_meta s)[?i :=
                   \<lparr> meta_generation = next_generation (ent_generation e), meta_row = None \<rparr>],
                 st_pending := st_pending s @ [ent_id e], st_len := st_len s - 1 \<rparr>"
    by (simp add: storage_despawn_def split: if_splits)
  have "set (st_pending s) \<subseteq> of_nat ` ({..<length (st_meta s)} - {?i})"
  proof
    fix j assume "j \<in> set (st_pending s)"
    then have "unat j < length (st_meta s)" "j \<noteq> ent_id e" using ok fresh by (auto simp: storage_ok_def)
    moreover have "unat j \<noteq> ?i" using \<open>j \<noteq> ent_id e\<close> unsigned_word_eqI by blast
    ultimately show "j \<in> of_nat ` ({..<length (st_meta s)} - {?i})"
      by (auto intro!: image_eqI [of _ _ "unat j"])
  qed
  then have "card (set (st_pending s)) \<le> card ({..<length (st_meta s)} - {?i})"
    by (meson card_image_le card_mono finite_Diff finite_imageI finite_lessThan le_trans)
  then have "length (st_pending s) < length (st_meta s)"
    using i(1) ok by (simp add: storage_ok_def distinct_card)
  then have "0 < unat (st_len s)" using ok by (simp add: storage_ok_def)
  then have "unat (st_len s - 1) = unat (st_len s) - 1"
    by (metis One_nat_def Suc_leI unat_1 unat_sub word_le_nat_alt)
  then have "storage_ok s'"
    using ok i fresh \<open>0 < unat (st_len s)\<close>
    by (auto simp: storage_ok_def s'_eq nth_list_update unat_inj_iff)
  moreover have "storage_row s' f = ((storage_row s)(e := None)) f" for f
    using i by (auto simp: storage_row_def slot_of_def s'_eq nth_list_update entity_eq_iff unat_inj_iff)
  ultimately show ?thesis using s' by blast
qed

lemma entities_alloc_recycled:
  assumes "storage_ok s" "st_pending s \<noteq> []" "entities_alloc s = Some (e, s')"
  shows "ent_id e = last (st_pending s)"
    "ent_generation e = meta_generation (st_meta s ! unat (ent_id e))"
    "s' = s\<lparr> st_len := st_len s + 1, st_pending := butlast (st_pending s) \<rparr>"
    "unat (st_len s + 1) = Suc (unat (st_len s))"
  using assms
  by (auto simp: entities_alloc_def res_simps unat_add_no_overflow split: option.splits)

lemma entities_alloc_fresh:
  assumes "st_pending s = []" "entities_alloc s = Some (e, s')"
  shows "unat (ent_id e) = length (st_meta s)" "ent_generation e = 1"
    "s' = s\<lparr> st_len := st_len s + 1,
              st_meta := st_meta s @ [\<lparr> meta_generation = 1, meta_row = None \<rparr>] \<rparr>"
    "unat (st_len s + 1) = Suc (unat (st_len s))"
  using assms
  by (auto simp: entities_alloc_def res_simps unat_add_no_overflow unat_of_nat_small
      split: option.splits)

lemma storage_spawn_recycled:
  assumes ok: "storage_ok s" and p: "st_pending s \<noteq> []" and sp: "storage_spawn s b = Some (e, s')"
  shows "storage_ok s' \<and> storage_row s e = None \<and> storage_row s' = (storage_row s)(e \<mapsto> b)"
proof -
  obtain t where t: "entities_alloc s = Some (e, t)" and s': "s' = write_row t (ent_id e) (Some b)"
    using sp by (auto simp: storage_spawn_def split: option.splits)
  note e = entities_alloc_recycled [OF ok p t]
  obtain q where q: "st_pending s = q @ [ent_id e]"
    using p e(1) by (metis append_butlast_last_id)
  have i: "unat (ent_id e) < length (st_meta s)" "meta_row (st_meta s ! unat (ent_id e)) = None"
      "ent_id e \<notin> set q"
    using ok q by (auto simp: storage_ok_def)
  have "storage_ok s'"
    using ok q i e(3,4)
    by (auto simp: storage_ok_def s' write_row_def nth_list_update unat_inj_iff)
  moreover have "storage_row s' f = ((storage_row s)(e \<mapsto> b)) f" for f
    using i e(2,3)
    by (auto simp: storage_row_def slot_of_def s' write_row_def nth_list_update entity_eq_iff
        unat_inj_iff split: if_splits)
  moreover have "storage_row s e = None"
    using i by (simp add: storage_row_def slot_of_def)
  ultimately show ?thesis by blast
qed

lemma storage_spawn_fresh:
  assumes ok: "storage_ok s" and p: "st_pending s = []" and sp: "storage_spawn s b = Some (e, s')"
    and room: "unat (st_len s) < 2 ^ 32 - 1"
  shows "storage_ok s' \<and> storage_row s e = None \<and> storage_row s' = (storage_row s)(e \<mapsto> b)"
proof -
  obtain t where t: "entities_alloc s = Some (e, t)" and s': "s' = write_row t (ent_id e) (Some b)"
    using sp by (auto simp: storage_spawn_def split: option.splits)
  note e = entities_alloc_fresh [OF p t]
  have len: "length (st_meta s) = unat (st_len s)" using ok p by (simp add: storage_ok_def)
  have meta: "st_meta s' = st_meta s @ [\<lparr> meta_generation = 1, meta_row = Some b \<rparr>]"
    using e(1,3) by (simp add: s' write_row_def)
  have rest: "st_pending s' = []" "st_len s' = st_len s + 1"
    using e(3) p by (simp_all add: s' write_row_def)
  have "storage_ok s'"
    using ok p len room e(4) by (auto simp: storage_ok_def meta rest nth_append)
  moreover have "storage_row s' f = ((storage_row s)(e \<mapsto> b)) f" for f
  proof -
    consider "unat (ent_id f) < length (st_meta s)" | "unat (ent_id f) = length (st_meta s)"
      | "length (st_meta s) < unat (ent_id f)" by linarith
    then show ?thesis
      using e(1,2)
      by cases (auto simp: storage_row_def slot_of_def meta nth_append entity_eq_iff simp flip: unat_inj_iff)
  qed
  moreover have "storage_row s e = None" using e(1) by (simp add: storage_row_def slot_of_def)
  ultimately show ?thesis by blast
qed

lemma storage_spawn_total:
  assumes "storage_ok s" "unat (st_len s) < 2 ^ 32 - 1"
  shows "\<exists>e s'. storage_spawn s b = Some (e, s')"
proof -
  have "checked_add (st_len s) 1 = Some (st_len s + 1)"
    using assms(2) by (simp add: checked_add_def)
  moreover have "st_pending s = [] \<Longrightarrow>
      word_of_len (length (st_meta s)) = Some (of_nat (length (st_meta s)) :: u32)"
    using assms by (simp add: storage_ok_def word_of_len_def)
  ultimately show ?thesis by (auto simp: storage_spawn_def entities_alloc_def)
qed

lemma storage_spawn_laws:
  assumes "storage_ok s" "unat (st_len s) < 2 ^ 32 - 1"
  shows "\<exists>e s'. storage_spawn s b = Some (e, s') \<and> storage_ok s' \<and> storage_row s e = None \<and>
    storage_row s' = (storage_row s)(e \<mapsto> b)"
  using storage_spawn_total [OF assms, of b] storage_spawn_recycled [OF assms(1)]
    storage_spawn_fresh [OF assms(1) _ _ assms(2)]
  by (cases "st_pending s = []") blast+

text \<open>The handles in use are as many as the count says.\<close>

lemma storage_row_count:
  assumes "storage_ok s"
  shows "finite (dom (storage_row s))" "card (dom (storage_row s)) = unat (st_len s)"
proof -
  let ?n = "length (st_meta s)"
  let ?occ = "{i. unat i < ?n} - set (st_pending s)"
  have all: "{i :: u32. unat i < ?n} = of_nat ` {..<?n}"
  proof (rule set_eqI, rule iffI)
    fix i :: u32 assume "i \<in> of_nat ` {..<?n}"
    then obtain j where j: "i = of_nat j" "j < ?n" by auto
    moreover have "j < 2 ^ LENGTH(32)" using j assms by (simp add: storage_ok_def)
    ultimately show "i \<in> {i. unat i < ?n}" by (simp add: unat_of_nat_small)
  qed (auto intro!: image_eqI [of _ _ "unat _"])
  have inj: "inj_on (of_nat :: nat \<Rightarrow> u32) {..<?n}"
  proof (rule inj_onI)
    fix i j assume "i \<in> {..<?n}" "j \<in> {..<?n}" and eq: "(of_nat i :: u32) = of_nat j"
    then have "i < 2 ^ LENGTH(32)" "j < 2 ^ LENGTH(32)" using assms by (auto simp: storage_ok_def)
    then show "i = j" using eq by (metis unat_of_nat_small)
  qed
  have "card {i :: u32. unat i < ?n} = ?n" using card_image [OF inj] by (simp add: all)
  moreover have fin: "finite {i :: u32. unat i < ?n}" by (simp add: all)
  moreover have "set (st_pending s) \<subseteq> {i. unat i < ?n}" "card (set (st_pending s)) = length (st_pending s)"
    using assms by (auto simp: storage_ok_def distinct_card)
  moreover have "unat (st_len s) + length (st_pending s) = ?n"
    using assms by (simp add: storage_ok_def)
  ultimately have occ: "card ?occ = unat (st_len s)"
    using card_Diff_subset [of "set (st_pending s)" "{i. unat i < ?n}"] by simp
  have dom: "dom (storage_row s) =
      (\<lambda>i. \<lparr> ent_id = i, ent_generation = meta_generation (st_meta s ! unat i) \<rparr>) ` ?occ"
    using assms by (auto simp: dom_def storage_row_Some_iff storage_ok_def entity_eq_iff image_iff)
  have "inj_on (\<lambda>i. \<lparr> ent_id = i, ent_generation = meta_generation (st_meta s ! unat i) \<rparr>) ?occ"
    by (auto intro: inj_onI)
  then show "card (dom (storage_row s)) = unat (st_len s)" by (simp add: dom occ card_image)
  show "finite (dom (storage_row s))" using fin by (simp add: dom)
qed

section \<open>The interface of the storage\<close>

text \<open>
  \<open>index_ok rows ident idx\<close>: the index \<open>idx\<close> from stable identities to handles reaches
  exactly the handles in use, each marked with the identity it is filed under.
  \<open>index_view\<close> is what the identities then stand for.
\<close>

definition index_ok :: "('h \<rightharpoonup> 'b) \<Rightarrow> ('b \<Rightarrow> 'i option) \<Rightarrow> ('i \<rightharpoonup> 'h) \<Rightarrow> bool" where
  "index_ok rows ident idx \<longleftrightarrow>
     dom rows = ran idx \<and> (\<forall>i h b. idx i = Some h \<longrightarrow> rows h = Some b \<longrightarrow> ident b = Some i)"

definition index_view :: "('h \<rightharpoonup> 'b) \<Rightarrow> ('i \<rightharpoonup> 'h) \<Rightarrow> ('i \<rightharpoonup> 'b)" where
  "index_view rows idx = (\<lambda>i. case idx i of None \<Rightarrow> None | Some h \<Rightarrow> rows h)"

lemma index_ok_row: "index_ok rows ident idx \<Longrightarrow> idx i = Some h \<Longrightarrow> \<exists>b. rows h = Some b \<and> ident b = Some i"
  by (fastforce simp: index_ok_def ran_def)

lemma index_ok_inj: "index_ok rows ident idx \<Longrightarrow> idx i = Some h \<Longrightarrow> idx j = Some h \<Longrightarrow> i = j"
proof -
  assume *: "index_ok rows ident idx" "idx i = Some h" "idx j = Some h"
  obtain b where "rows h = Some b" "ident b = Some i" using index_ok_row [OF *(1,2)] by blast
  moreover have "rows h = Some b \<Longrightarrow> ident b = Some j" using *(1,3) by (simp add: index_ok_def)
  ultimately show "i = j" by simp
qed

lemma dom_index_view: "index_ok rows ident idx \<Longrightarrow> dom (index_view rows idx) = dom idx"
  by (auto simp: index_view_def dest: index_ok_row split: option.splits)

lemma index_ok_fresh:
  assumes "index_ok rows ident idx" "rows h = None" "idx i = None" "ident b = Some i"
  shows "index_ok (rows(h \<mapsto> b)) ident (idx(i \<mapsto> h))"
    "index_view (rows(h \<mapsto> b)) (idx(i \<mapsto> h)) = (index_view rows idx)(i \<mapsto> b)"
proof -
  have h: "idx j \<noteq> Some h" for j using index_ok_row [OF assms(1)] assms(2) by force
  have "ran (idx(i \<mapsto> h)) = insert h (ran idx)" using assms(3) by simp
  then show "index_ok (rows(h \<mapsto> b)) ident (idx(i \<mapsto> h))"
    using assms h by (auto simp: index_ok_def split: if_splits)
  show "index_view (rows(h \<mapsto> b)) (idx(i \<mapsto> h)) = (index_view rows idx)(i \<mapsto> b)"
    using h by (auto simp: index_view_def fun_eq_iff split: option.splits)
qed

lemma index_ok_removed:
  assumes "index_ok rows ident idx" "idx i = Some h"
  shows "index_ok (rows(h := None)) ident (idx(i := None))"
    "index_view (rows(h := None)) (idx(i := None)) = (index_view rows idx)(i := None)"
proof -
  have h: "j \<noteq> i \<Longrightarrow> idx j \<noteq> Some h" for j using index_ok_inj [OF assms(1)] assms(2) by blast
  have "y \<in> ran (idx(i := None)) \<longleftrightarrow> y \<in> ran idx - {h}" for y
    using h assms(2) unfolding ran_def by (simp add: fun_upd_def) (metis option.inject)
  then have "ran (idx(i := None)) = ran idx - {h}" by blast
  then show "index_ok (rows(h := None)) ident (idx(i := None))"
    using assms by (auto simp: index_ok_def split: if_splits)
  show "index_view (rows(h := None)) (idx(i := None)) = (index_view rows idx)(i := None)"
    using h by (auto simp: index_view_def fun_eq_iff split: option.splits)
qed

lemma index_ok_updated:
  assumes "index_ok rows ident idx" "idx i = Some h" "ident b = Some i"
  shows "index_ok (rows(h \<mapsto> b)) ident idx"
    "index_view (rows(h \<mapsto> b)) idx = (index_view rows idx)(i \<mapsto> b)"
proof -
  have h: "j \<noteq> i \<Longrightarrow> idx j \<noteq> Some h" for j using index_ok_inj [OF assms(1)] assms(2) by blast
  have "h \<in> ran idx" using assms(2) by (rule ranI)
  then have "dom (rows(h \<mapsto> b)) = ran idx" using assms(1) by (auto simp: index_ok_def)
  moreover have "ident c = Some j" if "idx j = Some g" "(rows(h \<mapsto> b)) g = Some c" for j g c
  proof (cases "g = h")
    case True
    then have "j = i" using that(1) h by blast
    with True that(2) assms(3) show ?thesis by simp
  next
    case False
    then show ?thesis using that assms(1) by (simp add: index_ok_def)
  qed
  ultimately show "index_ok (rows(h \<mapsto> b)) ident idx" by (simp add: index_ok_def)
  have "index_view (rows(h \<mapsto> b)) idx j = ((index_view rows idx)(i \<mapsto> b)) j" for j
    using h [of j] assms(2) by (cases "j = i"; cases "idx j") (simp_all add: index_view_def)
  then show "index_view (rows(h \<mapsto> b)) idx = (index_view rows idx)(i \<mapsto> b)" by (rule ext)
qed

locale entity_store =
  fixes rows :: "'s \<Rightarrow> 'h \<Rightarrow> 'b option" and ok :: "'s \<Rightarrow> bool" and size :: "'s \<Rightarrow> nat"
    and spawn :: "'s \<Rightarrow> 'b \<Rightarrow> ('h \<times> 's) option" and despawn :: "'s \<Rightarrow> 'h \<Rightarrow> 's option"
    and insert_one :: "'s \<Rightarrow> 'h \<Rightarrow> 'v \<Rightarrow> 's option" and remove_one :: "'s \<Rightarrow> 'h \<Rightarrow> 'k \<Rightarrow> 's option"
    and ident :: "'b \<Rightarrow> 'i option" and put :: "'v \<Rightarrow> 'b \<Rightarrow> 'b" and take_out :: "'k \<Rightarrow> 'b \<Rightarrow> 'b"
    and has :: "'b \<Rightarrow> 'k \<Rightarrow> bool" and capacity :: nat
  assumes spawn_law: "ok s \<Longrightarrow> size s < capacity \<Longrightarrow>
      \<exists>h s'. spawn s b = Some (h, s') \<and> ok s' \<and> rows s h = None \<and> rows s' = (rows s)(h \<mapsto> b)"
    and despawn_law: "ok s \<Longrightarrow> rows s h = Some b \<Longrightarrow>
      \<exists>s'. despawn s h = Some s' \<and> ok s' \<and> rows s' = (rows s)(h := None)"
    and insert_law: "ok s \<Longrightarrow> rows s h = Some b \<Longrightarrow>
      \<exists>s'. insert_one s h v = Some s' \<and> ok s' \<and> rows s' = (rows s)(h \<mapsto> put v b)"
    and remove_law: "ok s \<Longrightarrow> rows s h = Some b \<Longrightarrow> has b k \<Longrightarrow>
      \<exists>s'. remove_one s h k = Some s' \<and> ok s' \<and> rows s' = (rows s)(h \<mapsto> take_out k b)"
    and size_law: "ok s \<Longrightarrow> finite (dom (rows s)) \<and> card (dom (rows s)) = size s"
    and ident_put: "ident (put v b) = ident b"
    and ident_take: "ident (take_out k b) = ident b"
begin

lemma index_count: "ok s \<Longrightarrow> index_ok (rows s) ident idx \<Longrightarrow> card (dom idx) = size s"
proof -
  assume s: "ok s" and idx: "index_ok (rows s) ident idx"
  have inj: "inj_on (\<lambda>i. the (idx i)) (dom idx)"
  proof (rule inj_onI)
    fix i j assume "i \<in> dom idx" "j \<in> dom idx" "the (idx i) = the (idx j)"
    then have "idx i = Some (the (idx j))" "idx j = Some (the (idx j))" by auto
    then show "i = j" by (rule index_ok_inj [OF idx])
  qed
  have "ran idx = (\<lambda>i. the (idx i)) ` dom idx" by (force simp: ran_def)
  then have "card (ran idx) = card (dom idx)" by (simp add: card_image [OF inj])
  then show ?thesis using idx size_law [OF s] by (simp add: index_ok_def)
qed

lemma spawn_indexed:
  assumes "ok s" "index_ok (rows s) ident idx" "card (dom idx) < capacity" "idx i = None"
    "ident b = Some i"
  shows "\<exists>h s'. spawn s b = Some (h, s') \<and> ok s' \<and> index_ok (rows s') ident (idx(i \<mapsto> h)) \<and>
    index_view (rows s') (idx(i \<mapsto> h)) = (index_view (rows s) idx)(i \<mapsto> b)"
proof -
  have "size s < capacity" using index_count [OF assms(1,2)] assms(3) by simp
  then obtain h s' where s': "spawn s b = Some (h, s')" "ok s'" "rows s h = None"
      "rows s' = (rows s)(h \<mapsto> b)"
    using spawn_law [OF assms(1), of b] by blast
  note index_ok_fresh [OF assms(2) s'(3) assms(4,5), folded s'(4)]
  with s'(1,2) show ?thesis by blast
qed

lemma despawn_indexed:
  assumes "ok s" "index_ok (rows s) ident idx" "idx i = Some h"
  shows "\<exists>s'. despawn s h = Some s' \<and> ok s' \<and> index_ok (rows s') ident (idx(i := None)) \<and>
    index_view (rows s') (idx(i := None)) = (index_view (rows s) idx)(i := None)"
proof -
  obtain b where "rows s h = Some b" using index_ok_row [OF assms(2,3)] by blast
  then obtain s' where s': "despawn s h = Some s'" "ok s'" "rows s' = (rows s)(h := None)"
    using despawn_law [OF assms(1)] by blast
  note index_ok_removed [OF assms(2,3), folded s'(3)]
  with s'(1,2) show ?thesis by blast
qed

lemma insert_indexed:
  assumes "ok s" "index_ok (rows s) ident idx" "idx i = Some h"
  shows "\<exists>s'. insert_one s h v = Some s' \<and> ok s' \<and> index_ok (rows s') ident idx \<and>
    index_view (rows s') idx = (index_view (rows s) idx)(i \<mapsto> put v (the (index_view (rows s) idx i)))"
proof -
  obtain b where b: "rows s h = Some b" "ident b = Some i" using index_ok_row [OF assms(2,3)] by blast
  then have "ident (put v b) = Some i" by (simp add: ident_put)
  note upd = index_ok_updated [OF assms(2,3) this]
  obtain s' where s': "insert_one s h v = Some s'" "ok s'" "rows s' = (rows s)(h \<mapsto> put v b)"
    using insert_law [OF assms(1) b(1), of v] by blast
  have "the (index_view (rows s) idx i) = b" using b assms(3) by (simp add: index_view_def)
  with s'(1,2) upd [folded s'(3)] show ?thesis by simp
qed

lemma remove_indexed:
  assumes "ok s" "index_ok (rows s) ident idx" "idx i = Some h" "index_view (rows s) idx i = Some b"
    "has b k"
  shows "\<exists>s'. remove_one s h k = Some s' \<and> ok s' \<and> index_ok (rows s') ident idx \<and>
    index_view (rows s') idx = (index_view (rows s) idx)(i \<mapsto> take_out k b)"
proof -
  have b: "rows s h = Some b" using assms(3,4) by (simp add: index_view_def)
  then have "ident (take_out k b) = Some i"
    using index_ok_row [OF assms(2,3)] by (simp add: ident_take)
  note upd = index_ok_updated [OF assms(2,3) this]
  obtain s' where s': "remove_one s h k = Some s'" "ok s'" "rows s' = (rows s)(h \<mapsto> take_out k b)"
    using remove_law [OF assms(1) b assms(5)] by blast
  with upd [folded s'(3)] show ?thesis by blast
qed

end

interpretation hecs: entity_store storage_row storage_ok "\<lambda>s. unat (st_len s)"
  storage_spawn storage_despawn storage_insert_one storage_remove_one
  b_stable_id bundle_put bundle_take "\<lambda>b k. bundle_get b k \<noteq> None" "2 ^ 32 - 1"
proof unfold_locales
  show "\<exists>s'. storage_insert_one s h v = Some s' \<and> storage_ok s' \<and>
      storage_row s' = (storage_row s)(h \<mapsto> bundle_put v b)"
    if "storage_ok s" "storage_row s h = Some b" for s h b v
    using that by (simp add: storage_insert_one_def storage_row_write storage_ok_write)
  show "\<exists>s'. storage_remove_one s h k = Some s' \<and> storage_ok s' \<and>
      storage_row s' = (storage_row s)(h \<mapsto> bundle_take k b)"
    if "storage_ok s" "storage_row s h = Some b" "bundle_get b k \<noteq> None" for s h b k
    using that by (simp add: storage_remove_one_def storage_row_write storage_ok_write)
  show "finite (dom (storage_row s)) \<and> card (dom (storage_row s)) = unat (st_len s)"
    if "storage_ok s" for s
    using storage_row_count [OF that] by simp
qed (rule storage_spawn_laws storage_despawn_laws b_stable_id_put b_stable_id_take; assumption)+

end
