(* ===== verification/World.thy ===== *)
theory World
  imports Hierarchy Transform Entity_Store
begin

text \<open>
  The authoritative world (\<open>cogniform-world/src/world.rs\<close>): its state, the preflight of
  a patch, the commit, and the render extraction. Methods that change the world return
  their result together with the world after the call. A panic of the source (an
  \<open>expect\<close>, an index, an assertion) is the value \<open>Panic\<close>, or \<open>None\<close> inside the
  commit. The two durations in a receipt are arguments, as they come from a clock.
\<close>

unbundle bit_operations_syntax

section \<open>Configuration and state\<close>

record world_config =
  wc_runtime_limits :: runtime_limits
  wc_max_entities :: u32
  wc_max_idempotency_records :: u32
  wc_max_pending_render_changes :: u32
  wc_max_hierarchy_depth :: u32

definition world_config_default :: world_config where
  "world_config_default =
     \<lparr> wc_runtime_limits = runtime_limits_default, wc_max_entities = 65536,
       wc_max_idempotency_records = 4096, wc_max_pending_render_changes = 65536,
       wc_max_hierarchy_depth = 256 \<rparr>"

record recorded_apply =
  ra_transaction_id :: transaction_id
  ra_receipt :: apply_receipt

datatype component_mask = ComponentMask (mask_bits: u8)

abbreviation EMPTY_MASK :: component_mask where "EMPTY_MASK \<equiv> ComponentMask 0"

fun mask_bit :: "component_kind \<Rightarrow> u8" where
  "mask_bit NameKind = push_bit 0 1"
| "mask_bit LocalTransformKind = push_bit 1 1"
| "mask_bit PrimitiveKind = push_bit 2 1"
| "mask_bit MaterialKind = push_bit 3 1"
| "mask_bit CameraKind = push_bit 4 1"
| "mask_bit LightKind = push_bit 5 1"
| "mask_bit AssetMeshKind = push_bit 6 1"

definition mask_contains :: "component_mask \<Rightarrow> component_kind \<Rightarrow> bool" where
  "mask_contains m k \<longleftrightarrow> (mask_bits m AND mask_bit k) \<noteq> 0"

definition mask_insert :: "component_kind \<Rightarrow> component_mask \<Rightarrow> component_mask" where
  "mask_insert k m = ComponentMask (mask_bits m OR mask_bit k)"

definition mask_remove :: "component_kind \<Rightarrow> component_mask \<Rightarrow> component_mask" where
  "mask_remove k m = ComponentMask (mask_bits m AND NOT (mask_bit k))"

definition mask_from_values :: "component_value list \<Rightarrow> component_mask" where
  "mask_from_values values = foldl (\<lambda>m v. mask_insert (component_kind_of v) m) EMPTY_MASK values"

record entity_state =
  es_exists :: bool
  es_components :: component_mask

definition MISSING :: entity_state where
  "MISSING = \<lparr> es_exists = False, es_components = EMPTY_MASK \<rparr>"

type_synonym transform_map = "(stable_entity_id, world_transform) btree_map"
type_synonym override_map = "(stable_entity_id, local_transform option) btree_map"

record commit_plan =
  cp_previous_revision :: scene_revision
  cp_new_revision :: scene_revision
  cp_operations :: "scene_operation list"
  cp_parents :: "parent_map option"
  cp_children :: "child_map option"
  cp_transform_updates :: transform_map
  cp_transform_generation :: u64
  cp_render_changed_ids :: "stable_entity_id btree_set"

datatype 'a cow = Borrowed (cow_get: 'a) | Owned (cow_get: 'a)

record preflight_state =
  ps_overlay :: "(stable_entity_id, entity_state) btree_map"
  ps_parents :: "parent_map cow"
  ps_local_overrides :: override_map
  ps_dirty_roots :: "stable_entity_id btree_set"
  ps_render_changed_ids :: "stable_entity_id btree_set"
  ps_hierarchy_changed :: bool
  ps_live_entities :: u32
  ps_operations :: "scene_operation list"

record authoritative_world =
  w_storage :: storage
  w_stable_index :: "(stable_entity_id, entity) btree_map"
  w_parents :: parent_map
  w_children :: child_map
  w_world_transforms :: transform_map
  w_transform_generation :: u64
  w_revision :: scene_revision
  w_pending_render_changes :: "stable_entity_id btree_set"
  w_last_extracted_revision :: scene_revision
  w_render_extraction_generation :: u64
  w_idempotency_records :: "(idempotency_key, recorded_apply) btree_map"
  w_config :: world_config

definition world_new :: "world_config \<Rightarrow> authoritative_world" where
  "world_new config =
     \<lparr> w_storage = storage_new, w_stable_index = bm_empty, w_parents = bm_empty,
       w_children = bm_empty, w_world_transforms = bm_empty, w_transform_generation = 0,
       w_revision = INITIAL, w_pending_render_changes = bs_empty,
       w_last_extracted_revision = INITIAL, w_render_extraction_generation = 0,
       w_idempotency_records = bm_empty, w_config = config \<rparr>"

definition recorded_transaction :: "authoritative_world \<Rightarrow> idempotency_key \<Rightarrow> transaction_id option" where
  "recorded_transaction w key = map_option ra_transaction_id (bm_get (w_idempotency_records w) key)"

definition world_contains :: "authoritative_world \<Rightarrow> stable_entity_id \<Rightarrow> bool" where
  "world_contains w i = bm_contains (w_stable_index w) i"

definition world_parent_id :: "authoritative_world \<Rightarrow> stable_entity_id \<Rightarrow> stable_entity_id option option" where
  "world_parent_id w i = (if world_contains w i then Some (bm_get (w_parents w) i) else None)"

definition world_children :: "authoritative_world \<Rightarrow> stable_entity_id \<Rightarrow> stable_entity_id list option" where
  "world_children w i = (if world_contains w i then Some (child_list (w_children w) i) else None)"

definition world_transform_of :: "authoritative_world \<Rightarrow> stable_entity_id \<Rightarrow> world_transform option" where
  "world_transform_of w i = bm_get (w_world_transforms w) i"

section \<open>Invariant check\<close>

definition stored_id_matches :: "storage \<Rightarrow> entity \<Rightarrow> stable_entity_id \<Rightarrow> bool" where
  "stored_id_matches s e i =
     (case storage_row s e of None \<Rightarrow> False | Some b \<Rightarrow> b_stable_id b = Some i)"

fun check_index ::
    "authoritative_world \<Rightarrow> (stable_entity_id \<times> entity) list \<Rightarrow> world_invariant_error + unit" where
  "check_index w [] = Inr ()"
| "check_index w ((i, e) # rest) =
     (if \<not> storage_contains (w_storage w) e
      then Inl (WorldInvariantError MissingStorageEntity (Some i))
      else if \<not> stored_id_matches (w_storage w) e i
      then Inl (WorldInvariantError StableIdMismatch (Some i))
      else if \<not> bm_contains (w_world_transforms w) i
      then Inl (WorldInvariantError WorldTransformMissing (Some i))
      else check_index w rest)"

fun check_transforms ::
    "authoritative_world \<Rightarrow> stable_entity_id list \<Rightarrow> world_invariant_error + unit" where
  "check_transforms w [] = Inr ()"
| "check_transforms w (i # rest) =
     (if \<not> bm_contains (w_stable_index w) i
      then Inl (WorldInvariantError WorldTransformOrphan (Some i))
      else check_transforms w rest)"

fun check_parents ::
    "authoritative_world \<Rightarrow> (stable_entity_id \<times> stable_entity_id) list \<Rightarrow> world_invariant_error + unit" where
  "check_parents w [] = Inr ()"
| "check_parents w ((c, p) # rest) =
     (if \<not> bm_contains (w_stable_index w) c \<or> \<not> bm_contains (w_stable_index w) p
      then Inl (WorldInvariantError HierarchyEntityMissing (Some c))
      else if \<not> (case bm_get (w_children w) p of None \<Rightarrow> False | Some s \<Rightarrow> bs_mem s c)
      then Inl (WorldInvariantError HierarchyIndexMismatch (Some c))
      else check_parents w rest)"

definition live_ids :: "authoritative_world \<Rightarrow> stable_entity_id btree_set" where
  "live_ids w = bs_of_list (bm_keys (w_stable_index w))"

definition validate_invariants :: "authoritative_world \<Rightarrow> world_invariant_error + unit" where
  "validate_invariants w =
     (if unat (st_len (w_storage w)) \<noteq> bm_len (w_stable_index w)
      then Inl (WorldInvariantError EntityCountMismatch None)
      else bind_res (check_index w (bm_entries (w_stable_index w))) (\<lambda>_.
           bind_res (check_transforms w (bm_keys (w_world_transforms w))) (\<lambda>_.
           bind_res (check_parents w (bm_entries (w_parents w))) (\<lambda>_.
             if sum_list (map bm_len (bm_values (w_children w))) \<noteq> bm_len (w_parents w)
             then Inl (WorldInvariantError HierarchyIndexMismatch None)
             else if \<not> is_ok (hierarchy_depths (live_ids w) (w_parents w)
                               (wc_max_hierarchy_depth (w_config w)))
             then Inl (WorldInvariantError HierarchyTopologyInvalid None)
             else Inr ()))))"

section \<open>Stored state of an entity\<close>

definition mask_add_if :: "storage \<Rightarrow> entity \<Rightarrow> component_kind \<Rightarrow> component_mask \<Rightarrow> component_mask" where
  "mask_add_if s e k m = (if storage_get s e k \<noteq> None then mask_insert k m else m)"

definition component_kinds :: "component_kind list" where
  "component_kinds =
     [NameKind, LocalTransformKind, PrimitiveKind, MaterialKind, CameraKind, LightKind, AssetMeshKind]"

definition component_mask_of :: "authoritative_world \<Rightarrow> entity \<Rightarrow> component_mask" where
  "component_mask_of w e = fold (mask_add_if (w_storage w) e) component_kinds EMPTY_MASK"

definition snapshot_components :: "authoritative_world \<Rightarrow> entity \<Rightarrow> component_value list" where
  "snapshot_components w e = List.map_filter (storage_get (w_storage w) e) component_kinds"

definition stored_entity_state ::
    "authoritative_world \<Rightarrow> stable_entity_id \<Rightarrow> world_apply_error + entity_state" where
  "stored_entity_state w i =
     (case bm_get (w_stable_index w) i of
        None \<Rightarrow> Inr MISSING
      | Some e \<Rightarrow>
          (if \<not> storage_contains (w_storage w) e
           then Inl (InvariantViolation (WorldInvariantError MissingStorageEntity (Some i)))
           else if \<not> stored_id_matches (w_storage w) e i
           then Inl (InvariantViolation (WorldInvariantError StableIdMismatch (Some i)))
           else Inr \<lparr> es_exists = True, es_components = component_mask_of w e \<rparr>))"

definition overlay_state ::
    "authoritative_world \<Rightarrow> (stable_entity_id, entity_state) btree_map \<Rightarrow> stable_entity_id
       \<Rightarrow> world_apply_error + entity_state" where
  "overlay_state w overlay i =
     (case bm_get overlay i of Some es \<Rightarrow> Inr es | None \<Rightarrow> stored_entity_state w i)"

definition stored_local_transform ::
    "authoritative_world \<Rightarrow> stable_entity_id \<Rightarrow> local_transform option" where
  "stored_local_transform w i =
     (case bm_get (w_stable_index w) i of
        None \<Rightarrow> None
      | Some e \<Rightarrow> (case storage_row (w_storage w) e of None \<Rightarrow> None | Some b \<Rightarrow> b_local_transform b))"

definition effective_local_transform ::
    "authoritative_world \<Rightarrow> override_map \<Rightarrow> stable_entity_id \<Rightarrow> local_transform option" where
  "effective_local_transform w overrides i =
     (case bm_get overrides i of Some value \<Rightarrow> value | None \<Rightarrow> stored_local_transform w i)"

section \<open>Preflight of the operations\<close>

type_synonym 'a world_result = "world_apply_error fault + 'a"

abbreviation err :: "world_apply_error \<Rightarrow> 'a world_result" where
  "err e \<equiv> Inl (Err e)"

definition lift_res :: "world_apply_error + 'a \<Rightarrow> 'a world_result" where
  "lift_res r = map_err Err r"

fun find_local_transform :: "component_value list \<Rightarrow> local_transform option" where
  "find_local_transform [] = None"
| "find_local_transform (LocalTransform t # rest) = Some t"
| "find_local_transform (_ # rest) = find_local_transform rest"

definition create_state :: "create_entity \<Rightarrow> u32 \<Rightarrow> preflight_state \<Rightarrow> preflight_state" where
  "create_state create live_entities state =
     state\<lparr> ps_live_entities := live_entities,
            ps_overlay := bm_insert (create_entity_id create)
              \<lparr> es_exists = True, es_components = mask_from_values (create_components create) \<rparr>
              (ps_overlay state),
            ps_hierarchy_changed := True,
            ps_local_overrides := bm_insert (create_entity_id create)
              (find_local_transform (create_components create)) (ps_local_overrides state),
            ps_dirty_roots := bs_insert (create_entity_id create) (ps_dirty_roots state),
            ps_render_changed_ids :=
              bs_insert (create_entity_id create) (ps_render_changed_ids state) \<rparr>"

definition preflight_create ::
    "authoritative_world \<Rightarrow> preflight_state \<Rightarrow> create_entity \<Rightarrow> u32 \<Rightarrow> preflight_state world_result" where
  "preflight_create w state create operation_index =
     bind_res (lift_res (overlay_state w (ps_overlay state) (create_entity_id create))) (\<lambda>es.
       if es_exists es then err (EntityAlreadyExists operation_index (create_entity_id create))
       else (case checked_add (ps_live_entities state) 1 of
           None \<Rightarrow> err (EntityCapacityExceeded operation_index (create_entity_id create)
                         (wc_max_entities (w_config w)))
         | Some live_entities \<Rightarrow>
             (if live_entities > wc_max_entities (w_config w)
              then err (EntityCapacityExceeded operation_index (create_entity_id create)
                         (wc_max_entities (w_config w)))
              else Inr (create_state create live_entities state))))"

definition delete_state :: "stable_entity_id \<Rightarrow> u32 \<Rightarrow> preflight_state \<Rightarrow> preflight_state" where
  "delete_state i live_entities state =
     state\<lparr> ps_live_entities := live_entities,
            ps_overlay := bm_insert i MISSING (ps_overlay state),
            ps_parents :=
              (if bm_contains (cow_get (ps_parents state)) i
               then Owned (bm_remove i (cow_get (ps_parents state))) else ps_parents state),
            ps_hierarchy_changed := True,
            ps_local_overrides := bm_remove i (ps_local_overrides state),
            ps_dirty_roots := bs_remove i (ps_dirty_roots state),
            ps_render_changed_ids := bs_insert i (ps_render_changed_ids state) \<rparr>"

definition preflight_delete ::
    "authoritative_world \<Rightarrow> preflight_state \<Rightarrow> delete_entity \<Rightarrow> u32 \<Rightarrow> preflight_state world_result" where
  "preflight_delete w state delete operation_index =
     bind_res (lift_res (overlay_state w (ps_overlay state) (delete_entity_id delete))) (\<lambda>es.
       if \<not> es_exists es then err (EntityNotFound operation_index (delete_entity_id delete))
       else (case checked_sub (ps_live_entities state) 1 of
           None \<Rightarrow> Inl Panic
         | Some live_entities \<Rightarrow> Inr (delete_state (delete_entity_id delete) live_entities state)))"

definition note_local_transform ::
    "authoritative_world \<Rightarrow> stable_entity_id \<Rightarrow> component_value \<Rightarrow> preflight_state \<Rightarrow> preflight_state" where
  "note_local_transform w i v state =
     (case v of
        LocalTransform t \<Rightarrow>
          state\<lparr> ps_dirty_roots :=
                   (if effective_local_transform w (ps_local_overrides state) i \<noteq> Some t
                    then bs_insert i (ps_dirty_roots state) else ps_dirty_roots state),
                 ps_local_overrides := bm_insert i (Some t) (ps_local_overrides state) \<rparr>
      | _ \<Rightarrow> state)"

definition note_render_change ::
    "stable_entity_id \<Rightarrow> component_kind \<Rightarrow> preflight_state \<Rightarrow> preflight_state" where
  "note_render_change i k state =
     (if k \<noteq> NameKind
      then state\<lparr> ps_render_changed_ids := bs_insert i (ps_render_changed_ids state) \<rparr> else state)"

definition set_overlay :: "stable_entity_id \<Rightarrow> entity_state \<Rightarrow> preflight_state \<Rightarrow> preflight_state" where
  "set_overlay i es state = state\<lparr> ps_overlay := bm_insert i es (ps_overlay state) \<rparr>"

definition preflight_set ::
    "authoritative_world \<Rightarrow> preflight_state \<Rightarrow> set_component \<Rightarrow> u32 \<Rightarrow> preflight_state world_result" where
  "preflight_set w state s operation_index =
     bind_res (lift_res (overlay_state w (ps_overlay state) (set_entity_id s))) (\<lambda>es.
       if \<not> es_exists es then err (EntityNotFound operation_index (set_entity_id s))
       else Inr
         (set_overlay (set_entity_id s)
           (es\<lparr> es_components := mask_insert (component_kind_of (set_component s)) (es_components es) \<rparr>)
           (note_render_change (set_entity_id s) (component_kind_of (set_component s))
             (note_local_transform w (set_entity_id s) (set_component s) state))))"

definition note_transform_removed :: "stable_entity_id \<Rightarrow> component_kind \<Rightarrow> preflight_state \<Rightarrow> preflight_state" where
  "note_transform_removed i k state =
     (if k = LocalTransformKind
      then state\<lparr> ps_local_overrides := bm_insert i None (ps_local_overrides state),
                  ps_dirty_roots := bs_insert i (ps_dirty_roots state) \<rparr>
      else state)"

definition preflight_remove ::
    "authoritative_world \<Rightarrow> preflight_state \<Rightarrow> remove_component \<Rightarrow> u32 \<Rightarrow> preflight_state world_result" where
  "preflight_remove w state r operation_index =
     bind_res (lift_res (overlay_state w (ps_overlay state) (remove_entity_id r))) (\<lambda>es.
       if \<not> es_exists es then err (EntityNotFound operation_index (remove_entity_id r))
       else if \<not> mask_contains (es_components es) (remove_component r)
       then err (ComponentNotFound operation_index (remove_entity_id r) (remove_component r))
       else Inr
         (set_overlay (remove_entity_id r)
           (es\<lparr> es_components := mask_remove (remove_component r) (es_components es) \<rparr>)
           (note_render_change (remove_entity_id r) (remove_component r)
             (note_transform_removed (remove_entity_id r) (remove_component r) state))))"

definition reparent_state ::
    "stable_entity_id \<Rightarrow> stable_entity_id option \<Rightarrow> preflight_state \<Rightarrow> preflight_state" where
  "reparent_state i parent state =
     (if bm_get (cow_get (ps_parents state)) i \<noteq> parent
      then state\<lparr> ps_parents := Owned (case parent of
                    Some p \<Rightarrow> bm_insert i p (cow_get (ps_parents state))
                  | None \<Rightarrow> bm_remove i (cow_get (ps_parents state))),
                  ps_dirty_roots := bs_insert i (ps_dirty_roots state),
                  ps_hierarchy_changed := True \<rparr>
      else state)"

definition preflight_reparent ::
    "authoritative_world \<Rightarrow> preflight_state \<Rightarrow> reparent_entity \<Rightarrow> u32 \<Rightarrow> preflight_state world_result" where
  "preflight_reparent w state r operation_index =
     bind_res (lift_res (overlay_state w (ps_overlay state) (reparent_entity_id r))) (\<lambda>es.
       if \<not> es_exists es then err (EntityNotFound operation_index (reparent_entity_id r))
       else (case reparent_parent_id r of
           None \<Rightarrow> Inr (reparent_state (reparent_entity_id r) None state)
         | Some p \<Rightarrow>
             bind_res (lift_res (overlay_state w (ps_overlay state) p)) (\<lambda>ps.
               if \<not> es_exists ps then err (EntityNotFound operation_index p)
               else Inr (reparent_state (reparent_entity_id r) (Some p) state))))"

fun preflight_operation ::
    "authoritative_world \<Rightarrow> preflight_state \<Rightarrow> scene_operation \<Rightarrow> u32 \<Rightarrow> preflight_state world_result" where
  "preflight_operation w state (Create c) operation_index = preflight_create w state c operation_index"
| "preflight_operation w state (Delete d) operation_index = preflight_delete w state d operation_index"
| "preflight_operation w state (SetComponent s) operation_index = preflight_set w state s operation_index"
| "preflight_operation w state (RemoveComponent r) operation_index = preflight_remove w state r operation_index"
| "preflight_operation w state (Reparent r) operation_index = preflight_reparent w state r operation_index"

definition push_operation :: "scene_operation \<Rightarrow> preflight_state \<Rightarrow> preflight_state" where
  "push_operation op state = state\<lparr> ps_operations := ps_operations state @ [op] \<rparr>"

fun preflight_operations ::
    "authoritative_world \<Rightarrow> nat \<Rightarrow> scene_operation list \<Rightarrow> preflight_state \<Rightarrow> preflight_state world_result" where
  "preflight_operations w position [] state = Inr state"
| "preflight_operations w position (op # ops) state =
     (case word_of_len position of
        None \<Rightarrow> Inl Panic
      | Some operation_index \<Rightarrow>
          bind_res (preflight_operation w state op operation_index) (\<lambda>state'.
            preflight_operations w (Suc position) ops (push_operation op state')))"

section \<open>The transform plan\<close>

definition compose_world_transform ::
    "authoritative_world \<Rightarrow> stable_entity_id \<Rightarrow> world_transform \<Rightarrow> u64 \<Rightarrow> parent_map \<Rightarrow> transform_map
       \<Rightarrow> world_apply_error + world_transform" where
  "compose_world_transform w i local_transform generation parents updates =
     (case bm_get parents i of
        None \<Rightarrow> Inr local_transform
      | Some p \<Rightarrow>
          (case (case bm_get updates p of Some t \<Rightarrow> Some t | None \<Rightarrow> bm_get (w_world_transforms w) p) of
             None \<Rightarrow> Inl (InvariantViolation (WorldInvariantError WorldTransformMissing (Some p)))
           | Some parent \<Rightarrow> ok_or (TransformOverflow i) (compose parent local_transform generation)))"

definition update_transform ::
    "authoritative_world \<Rightarrow> parent_map \<Rightarrow> override_map \<Rightarrow> u64 \<Rightarrow> stable_entity_id \<Rightarrow> transform_map
       \<Rightarrow> world_apply_error + transform_map" where
  "update_transform w parents local_overrides generation i updates =
     bind_res (ok_or (TransformOverflow i)
       (from_local (effective_local_transform w local_overrides i) generation)) (\<lambda>t.
     bind_res (compose_world_transform w i t generation parents updates) (\<lambda>t'.
       Inr (bm_insert i t' updates)))"

definition transform_plan ::
    "authoritative_world \<Rightarrow> parent_map \<Rightarrow> override_map \<Rightarrow> stable_entity_id list
       \<Rightarrow> world_apply_error + (transform_map \<times> u64)" where
  "transform_plan w parents local_overrides ordered =
     bind_res (if ordered = [] then Inr (w_transform_generation w)
               else ok_or TransformGenerationOverflow (checked_add (w_transform_generation w) 1))
       (\<lambda>generation.
          bind_res (fold_res (update_transform w parents local_overrides generation) ordered bm_empty)
            (\<lambda>updates. Inr (updates, generation)))"

definition plan_transform_updates ::
    "authoritative_world \<Rightarrow> parent_map \<Rightarrow> child_map \<Rightarrow> override_map \<Rightarrow> stable_entity_id btree_set
       \<Rightarrow> (transform_map \<times> u64) world_result" where
  "plan_transform_updates w parents children local_overrides dirty_roots =
     (case affected_entities parents children dirty_roots of
        None \<Rightarrow> Inl Diverges
      | Some ordered \<Rightarrow> lift_res (transform_plan w parents local_overrides ordered))"

section \<open>The commit plan\<close>

definition apply_overlay ::
    "stable_entity_id \<times> entity_state \<Rightarrow> stable_entity_id btree_set \<Rightarrow> stable_entity_id btree_set" where
  "apply_overlay e live = (if es_exists (snd e) then bs_insert (fst e) live else bs_remove (fst e) live)"

definition overlaid_live_ids ::
    "authoritative_world \<Rightarrow> (stable_entity_id, entity_state) btree_map \<Rightarrow> stable_entity_id btree_set" where
  "overlaid_live_ids w overlay = fold apply_overlay (bm_entries overlay) (live_ids w)"

definition plan_children ::
    "authoritative_world \<Rightarrow> preflight_state \<Rightarrow> world_apply_error + child_map option" where
  "plan_children w state =
     (if ps_hierarchy_changed state
      then bind_res (hierarchy_depths (overlaid_live_ids w (ps_overlay state))
                       (cow_get (ps_parents state)) (wc_max_hierarchy_depth (w_config w)))
             (\<lambda>_. Inr (Some (rebuild_children (cow_get (ps_parents state)))))
      else Inr None)"

definition or_children :: "authoritative_world \<Rightarrow> child_map option \<Rightarrow> child_map" where
  "or_children w rebuilt = (case rebuilt of Some c \<Rightarrow> c | None \<Rightarrow> w_children w)"

definition render_changes ::
    "preflight_state \<Rightarrow> transform_map \<Rightarrow> stable_entity_id btree_set" where
  "render_changes state updates = bs_extend (bm_keys updates) (ps_render_changed_ids state)"

definition pending_count :: "authoritative_world \<Rightarrow> stable_entity_id btree_set \<Rightarrow> nat" where
  "pending_count w changed = bm_len (bs_extend (bm_keys changed) (w_pending_render_changes w))"

definition owned_parents :: "parent_map cow \<Rightarrow> parent_map option" where
  "owned_parents c = (case c of Borrowed _ \<Rightarrow> None | Owned parents \<Rightarrow> Some parents)"

definition build_plan ::
    "authoritative_world \<Rightarrow> preflight_state \<Rightarrow> scene_revision \<Rightarrow> child_map option
       \<Rightarrow> transform_map \<times> u64 \<Rightarrow> world_apply_error + commit_plan" where
  "build_plan w state new_revision rebuilt updates =
     (if pending_count w (render_changes state (fst updates))
         > unat (wc_max_pending_render_changes (w_config w))
      then Inl (RenderExtractionCapacityExceeded (wc_max_pending_render_changes (w_config w)))
      else Inr \<lparr> cp_previous_revision = w_revision w, cp_new_revision = new_revision,
                 cp_operations = ps_operations state, cp_parents = owned_parents (ps_parents state),
                 cp_children = rebuilt, cp_transform_updates = fst updates,
                 cp_transform_generation = snd updates,
                 cp_render_changed_ids = render_changes state (fst updates) \<rparr>)"

definition complete_preflight ::
    "authoritative_world \<Rightarrow> preflight_state \<Rightarrow> scene_revision \<Rightarrow> commit_plan world_result" where
  "complete_preflight w state new_revision =
     bind_res (lift_res (plan_children w state)) (\<lambda>rebuilt.
     bind_res (plan_transform_updates w (cow_get (ps_parents state)) (or_children w rebuilt)
                 (ps_local_overrides state) (ps_dirty_roots state)) (\<lambda>updates.
       lift_res (build_plan w state new_revision rebuilt updates)))"

definition preflight_start :: "authoritative_world \<Rightarrow> u32 \<Rightarrow> preflight_state" where
  "preflight_start w live_entities =
     \<lparr> ps_overlay = bm_empty, ps_parents = Borrowed (w_parents w), ps_local_overrides = bm_empty,
       ps_dirty_roots = bs_empty, ps_render_changed_ids = bs_empty, ps_hierarchy_changed = False,
       ps_live_entities = live_entities, ps_operations = [] \<rparr>"

definition preflight ::
    "authoritative_world \<Rightarrow> scene_patch \<Rightarrow> scene_revision \<Rightarrow> commit_plan world_result" where
  "preflight w patch new_revision =
     bind_res (ok_or (Err (InvariantViolation (WorldInvariantError EntityCountMismatch None)))
                 (word_of_len (bm_len (w_stable_index w)))) (\<lambda>live_entities.
     bind_res (preflight_operations w 0 (patch_operations patch) (preflight_start w live_entities))
       (\<lambda>state. complete_preflight w state new_revision))"

section \<open>Commit\<close>

definition build_bundle :: "create_entity \<Rightarrow> component_bundle" where
  "build_bundle create =
     fold bundle_put (create_components create)
       (empty_bundle\<lparr> b_stable_id := Some (create_entity_id create) \<rparr>)"

definition commit_create :: "authoritative_world \<Rightarrow> create_entity \<Rightarrow> authoritative_world option" where
  "commit_create w create =
     (case storage_spawn (w_storage w) (build_bundle create) of
        None \<Rightarrow> None
      | Some (e, s) \<Rightarrow>
          (if bm_get (w_stable_index w) (create_entity_id create) \<noteq> None then None
           else Some (w\<lparr> w_storage := s,
                         w_stable_index := bm_insert (create_entity_id create) e (w_stable_index w) \<rparr>)))"

definition commit_delete :: "authoritative_world \<Rightarrow> delete_entity \<Rightarrow> authoritative_world option" where
  "commit_delete w delete =
     (case bm_get (w_stable_index w) (delete_entity_id delete) of
        None \<Rightarrow> None
      | Some e \<Rightarrow>
          (case storage_despawn (w_storage w) e of
             None \<Rightarrow> None
           | Some s \<Rightarrow>
               Some (w\<lparr> w_storage := s,
                        w_stable_index := bm_remove (delete_entity_id delete) (w_stable_index w) \<rparr>)))"

definition commit_set :: "authoritative_world \<Rightarrow> set_component \<Rightarrow> authoritative_world option" where
  "commit_set w s =
     (case bm_get (w_stable_index w) (set_entity_id s) of
        None \<Rightarrow> None
      | Some e \<Rightarrow> map_option (\<lambda>st. w\<lparr> w_storage := st \<rparr>)
                    (storage_insert_one (w_storage w) e (set_component s)))"

definition commit_remove :: "authoritative_world \<Rightarrow> remove_component \<Rightarrow> authoritative_world option" where
  "commit_remove w r =
     (case bm_get (w_stable_index w) (remove_entity_id r) of
        None \<Rightarrow> None
      | Some e \<Rightarrow> map_option (\<lambda>st. w\<lparr> w_storage := st \<rparr>)
                    (storage_remove_one (w_storage w) e (remove_component r)))"

fun commit_operation :: "authoritative_world \<Rightarrow> scene_operation \<Rightarrow> authoritative_world option" where
  "commit_operation w (Create c) = commit_create w c"
| "commit_operation w (Delete d) = commit_delete w d"
| "commit_operation w (SetComponent s) = commit_set w s"
| "commit_operation w (RemoveComponent r) = commit_remove w r"
| "commit_operation w (Reparent _) = Some w"

fun commit_operations :: "authoritative_world \<Rightarrow> scene_operation list \<Rightarrow> authoritative_world option" where
  "commit_operations w [] = Some w"
| "commit_operations w (op # ops) =
     (case commit_operation w op of None \<Rightarrow> None | Some w' \<Rightarrow> commit_operations w' ops)"

definition commit_derived :: "commit_plan \<Rightarrow> authoritative_world \<Rightarrow> authoritative_world" where
  "commit_derived plan w =
     w\<lparr> w_world_transforms :=
          bm_extend (bm_entries (cp_transform_updates plan))
            (bm_retain (bm_contains (w_stable_index w)) (w_world_transforms w)),
        w_parents := (case cp_parents plan of Some parents \<Rightarrow> parents | None \<Rightarrow> w_parents w),
        w_children := (case cp_children plan of Some children \<Rightarrow> children | None \<Rightarrow> w_children w),
        w_transform_generation := cp_transform_generation plan,
        w_revision := cp_new_revision plan,
        w_pending_render_changes :=
          bs_extend (bm_keys (cp_render_changed_ids plan)) (w_pending_render_changes w) \<rparr>"

definition commit :: "authoritative_world \<Rightarrow> commit_plan \<Rightarrow> authoritative_world option" where
  "commit w plan = map_option (commit_derived plan) (commit_operations w (cp_operations plan))"

section \<open>Applying a patch\<close>

definition applied_receipt ::
    "scene_patch \<Rightarrow> frame_id \<Rightarrow> u64 \<times> u64 \<Rightarrow> scene_revision \<Rightarrow> scene_revision \<Rightarrow> u32 \<Rightarrow> apply_receipt" where
  "applied_receipt patch frame micros previous_revision new_revision operation_count =
     \<lparr> receipt_schema_version = patch_schema_version patch,
       receipt_transaction_id = patch_transaction_id patch,
       receipt_idempotency_key = patch_idempotency_key patch,
       receipt_status = Applied,
       receipt_previous_revision = previous_revision,
       receipt_new_revision = new_revision,
       receipt_operation_count = operation_count,
       receipt_diagnostics = [],
       receipt_timing = \<lparr> decode_micros = 0, validate_micros = fst micros, commit_micros = snd micros \<rparr>,
       receipt_estimated_visible_frame = frame \<rparr>"

definition record_apply :: "scene_patch \<Rightarrow> apply_receipt \<Rightarrow> authoritative_world \<Rightarrow> authoritative_world" where
  "record_apply patch receipt w =
     w\<lparr> w_idempotency_records :=
          bm_insert (patch_idempotency_key patch)
            \<lparr> ra_transaction_id = patch_transaction_id patch, ra_receipt = receipt \<rparr>
            (w_idempotency_records w) \<rparr>"

definition apply_plan ::
    "authoritative_world \<Rightarrow> scene_patch \<Rightarrow> frame_id \<Rightarrow> u64 \<times> u64 \<Rightarrow> scene_revision \<Rightarrow> commit_plan
       \<Rightarrow> apply_receipt world_result \<times> authoritative_world" where
  "apply_plan w patch frame micros new_revision plan =
     (case word_of_len (length (cp_operations plan)) of
        None \<Rightarrow> (Inl Panic, w)
      | Some operation_count \<Rightarrow>
          (if operation_count = 0 then (Inl Panic, w)
           else (case commit w plan of
               None \<Rightarrow> (Inl Panic, w)
             | Some w' \<Rightarrow>
                 (Inr (applied_receipt patch frame micros (cp_previous_revision plan) new_revision operation_count),
                  record_apply patch
                    (applied_receipt patch frame micros (cp_previous_revision plan) new_revision operation_count)
                    w'))))"

definition apply_new ::
    "authoritative_world \<Rightarrow> scene_patch \<Rightarrow> frame_id \<Rightarrow> u64 \<times> u64
       \<Rightarrow> apply_receipt world_result \<times> authoritative_world" where
  "apply_new w patch frame micros =
     (if w_render_extraction_generation w = - 1 then (err RenderExtractionGenerationOverflow, w)
      else if bm_len (w_idempotency_records w) \<ge> unat (wc_max_idempotency_records (w_config w))
      then (err (IdempotencyCapacityExceeded (wc_max_idempotency_records (w_config w))), w)
      else if patch_conflict_policy patch = RequireExactBase \<and> patch_base_revision patch \<noteq> w_revision w
      then (err (BaseRevisionMismatch (w_revision w) (patch_base_revision patch)), w)
      else (case checked_next (w_revision w) of
          Inl _ \<Rightarrow> (err WorldRevisionOverflow, w)
        | Inr new_revision \<Rightarrow>
            (case preflight w patch new_revision of
               Inl e \<Rightarrow> (Inl e, w)
             | Inr plan \<Rightarrow> apply_plan w patch frame micros new_revision plan)))"

definition apply_patch ::
    "authoritative_world \<Rightarrow> scene_patch \<Rightarrow> frame_id \<Rightarrow> u64 \<times> u64
       \<Rightarrow> apply_receipt world_result \<times> authoritative_world" where
  "apply_patch w patch frame micros =
     (case patch_validate patch (wc_runtime_limits (w_config w)) of
        Inl e \<Rightarrow> (err (InvalidPatch e), w)
      | Inr _ \<Rightarrow>
          (case bm_get (w_idempotency_records w) (patch_idempotency_key patch) of
             Some recorded \<Rightarrow>
               (if ra_transaction_id recorded \<noteq> patch_transaction_id patch
                then (err (IdempotencyKeyConflict (patch_idempotency_key patch)
                       (ra_transaction_id recorded) (patch_transaction_id patch)), w)
                else (Inr ((ra_receipt recorded)\<lparr> receipt_status := IdempotentReplay \<rparr>), w))
           | None \<Rightarrow> apply_new w patch frame micros))"

section \<open>Render extraction\<close>

definition bundle_render_components :: "component_bundle \<Rightarrow> render_components" where
  "bundle_render_components b =
     \<lparr> rc_primitive = b_primitive b, rc_material = b_material b, rc_camera = b_camera b,
       rc_light = b_light b, rc_asset_mesh = b_asset_mesh b \<rparr>"

definition stored_render_components :: "authoritative_world \<Rightarrow> entity \<Rightarrow> render_components" where
  "stored_render_components w e =
     (case storage_row (w_storage w) e of
        None \<Rightarrow> bundle_render_components empty_bundle
      | Some b \<Rightarrow> bundle_render_components b)"

definition render_entity_of ::
    "authoritative_world \<Rightarrow> stable_entity_id \<Rightarrow> world_extraction_error + render_entity option" where
  "render_entity_of w i =
     (case bm_get (w_stable_index w) i of
        None \<Rightarrow> Inr None
      | Some e \<Rightarrow>
          (case bm_get (w_world_transforms w) i of
             None \<Rightarrow> Inl (ExtractionInvariantViolation (WorldInvariantError WorldTransformMissing (Some i)))
           | Some t \<Rightarrow>
               (if render_components_empty (stored_render_components w e) then Inr None
                else bind_res
                  (map_err InvalidRenderData
                    (render_entity_new i (wt_matrix t) (wt_generation t) (stored_render_components w e)))
                  (\<lambda>r. Inr (Some r)))))"

definition render_change_of ::
    "authoritative_world \<Rightarrow> stable_entity_id \<Rightarrow> world_extraction_error + render_change" where
  "render_change_of w i =
     bind_res (render_entity_of w i) (\<lambda>r.
       Inr (case r of Some e \<Rightarrow> Upsert e | None \<Rightarrow> Remove i))"

fun collect_changes ::
    "authoritative_world \<Rightarrow> stable_entity_id list \<Rightarrow> world_extraction_error + render_change list" where
  "collect_changes w [] = Inr []"
| "collect_changes w (i # rest) =
     bind_res (render_change_of w i) (\<lambda>c. bind_res (collect_changes w rest) (\<lambda>cs. Inr (c # cs)))"

definition finish_extraction ::
    "authoritative_world \<Rightarrow> u64 \<Rightarrow> authoritative_world" where
  "finish_extraction w generation =
     w\<lparr> w_pending_render_changes := bs_empty, w_last_extracted_revision := w_revision w,
        w_render_extraction_generation := generation \<rparr>"

definition build_extraction :: "authoritative_world \<Rightarrow> u64 \<Rightarrow> world_extraction_error + render_extraction" where
  "build_extraction w generation =
     bind_res (collect_changes w (bm_keys (w_pending_render_changes w))) (\<lambda>changes.
       map_err InvalidRenderData
         (render_extraction_new generation (w_last_extracted_revision w) (w_revision w) changes))"

definition take_render_extraction ::
    "authoritative_world \<Rightarrow> (world_extraction_error + render_extraction) \<times> authoritative_world" where
  "take_render_extraction w =
     (case validate_invariants w of
        Inl e \<Rightarrow> (Inl (ExtractionInvariantViolation e), w)
      | Inr _ \<Rightarrow>
          (case checked_add (w_render_extraction_generation w) 1 of
             None \<Rightarrow> (Inl GenerationOverflow, w)
           | Some generation \<Rightarrow>
               (case build_extraction w generation of
                  Inl e \<Rightarrow> (Inl e, w)
                | Inr extraction \<Rightarrow> (Inr extraction, finish_extraction w generation))))"

end
