(* ===== verification/World_Refinement.thy ===== *)
theory World_Refinement
  imports World
begin

text \<open>
  The abstract scene and the refinement of the world to it. A scene is a map from stable
  identities to components together with a parent map; an operation is a partial function
  on scenes. The invariant \<open>world_ok\<close> ties the storage, the index, the hierarchy and the
  derived transforms of a world to its scene. Preflight is shown to compute, without
  touching the world, what the operations do to the scene; the commit is shown to bring
  the world there without a panic.
\<close>

section \<open>The abstract scene\<close>

type_synonym scene =
  "(stable_entity_id \<rightharpoonup> component_bundle) \<times> (stable_entity_id \<rightharpoonup> stable_entity_id)"

fun scene_step :: "nat \<Rightarrow> scene_operation \<Rightarrow> scene \<Rightarrow> scene option" where
  "scene_step capacity (Create c) (ents, par) =
     (if create_entity_id c \<in> dom ents \<or> capacity \<le> card (dom ents) then None
      else Some (ents(create_entity_id c \<mapsto> build_bundle c), par))"
| "scene_step capacity (Delete d) (ents, par) =
     (if delete_entity_id d \<notin> dom ents then None
      else Some (ents(delete_entity_id d := None), par(delete_entity_id d := None)))"
| "scene_step capacity (SetComponent s) (ents, par) =
     (case ents (set_entity_id s) of
        None \<Rightarrow> None
      | Some b \<Rightarrow> Some (ents(set_entity_id s \<mapsto> bundle_put (set_component s) b), par))"
| "scene_step capacity (RemoveComponent r) (ents, par) =
     (case ents (remove_entity_id r) of
        None \<Rightarrow> None
      | Some b \<Rightarrow>
          (if bundle_get b (remove_component r) = None then None
           else Some (ents(remove_entity_id r \<mapsto> bundle_take (remove_component r) b), par)))"
| "scene_step capacity (Reparent r) (ents, par) =
     (if reparent_entity_id r \<notin> dom ents \<or>
         (case reparent_parent_id r of None \<Rightarrow> False | Some p \<Rightarrow> p \<notin> dom ents) then None
      else Some (ents, par(reparent_entity_id r := reparent_parent_id r)))"

fun scene_steps :: "nat \<Rightarrow> scene_operation list \<Rightarrow> scene \<Rightarrow> scene option" where
  "scene_steps capacity [] sc = Some sc"
| "scene_steps capacity (op # ops) sc =
     (case scene_step capacity op sc of None \<Rightarrow> None | Some sc' \<Rightarrow> scene_steps capacity ops sc')"

lemma scene_steps_snoc:
  "scene_steps capacity (ops @ [op]) sc =
     (case scene_steps capacity ops sc of None \<Rightarrow> None | Some sc' \<Rightarrow> scene_step capacity op sc')"
  by (induction ops arbitrary: sc) (auto split: option.splits)

definition scene_entities :: "authoritative_world \<Rightarrow> stable_entity_id \<rightharpoonup> component_bundle" where
  "scene_entities w = index_view (storage_row (w_storage w)) (bm_get (w_stable_index w))"

definition scene_of :: "authoritative_world \<Rightarrow> scene" where
  "scene_of w = (scene_entities w, bm_get (w_parents w))"

definition local_of :: "(stable_entity_id \<rightharpoonup> component_bundle) \<Rightarrow> stable_entity_id \<Rightarrow> local_transform option" where
  "local_of ents i = (case ents i of None \<Rightarrow> None | Some b \<Rightarrow> b_local_transform b)"

section \<open>The invariant of a world\<close>

definition index_part_ok :: "authoritative_world \<Rightarrow> bool" where
  "index_part_ok w \<longleftrightarrow>
     storage_ok (w_storage w) \<and>
     index_ok (storage_row (w_storage w)) b_stable_id (bm_get (w_stable_index w)) \<and>
     card (dom (bm_get (w_stable_index w))) \<le> unat (wc_max_entities (w_config w))"

definition hierarchy_part_ok :: "authoritative_world \<Rightarrow> bool" where
  "hierarchy_part_ok w \<longleftrightarrow>
     hierarchy_ok (dom (bm_get (w_stable_index w))) (bm_get (w_parents w))
       (unat (wc_max_hierarchy_depth (w_config w))) \<and>
     w_children w = rebuild_children (w_parents w)"

definition transform_part_ok :: "authoritative_world \<Rightarrow> bool" where
  "transform_part_ok w \<longleftrightarrow>
     dom (bm_get (w_world_transforms w)) = dom (bm_get (w_stable_index w)) \<and>
     (\<forall>i t. bm_get (w_world_transforms w) i = Some t \<longrightarrow>
        world_matrix (bm_get (w_parents w)) (local_of (scene_entities w)) i (wt_matrix t) \<and>
        wt_generation t \<le> w_transform_generation w)"

definition record_part_ok :: "authoritative_world \<Rightarrow> bool" where
  "record_part_ok w \<longleftrightarrow>
     bm_len (w_idempotency_records w) \<le> unat (wc_max_idempotency_records (w_config w)) \<and>
     (\<forall>k r. bm_get (w_idempotency_records w) k = Some r \<longrightarrow>
        receipt_idempotency_key (ra_receipt r) = k \<and>
        receipt_transaction_id (ra_receipt r) = ra_transaction_id r \<and>
        receipt_status (ra_receipt r) = Applied \<and>
        receipt_new_revision (ra_receipt r) \<le> w_revision w)"

definition extraction_part_ok :: "authoritative_world \<Rightarrow> bool" where
  "extraction_part_ok w \<longleftrightarrow>
     bm_len (w_pending_render_changes w) \<le> unat (wc_max_pending_render_changes (w_config w)) \<and>
     w_last_extracted_revision w \<le> w_revision w"

definition world_ok :: "authoritative_world \<Rightarrow> bool" where
  "world_ok w \<longleftrightarrow>
     index_part_ok w \<and> hierarchy_part_ok w \<and> transform_part_ok w \<and> record_part_ok w \<and>
     extraction_part_ok w"

lemma world_new_ok_parts: "world_ok (world_new config)"
proof -
  have "rebuild_children bm_empty = bm_empty"
    by (simp add: rebuild_children_def)
  then show ?thesis
    by (auto simp: world_ok_def world_new_def index_part_ok_def hierarchy_part_ok_def
        transform_part_ok_def record_part_ok_def extraction_part_ok_def storage_ok_new index_ok_def
        hierarchy_ok_def)
qed

lemma dom_scene_entities: "index_part_ok w \<Longrightarrow> dom (scene_entities w) = dom (bm_get (w_stable_index w))"
  unfolding scene_entities_def index_part_ok_def
  using dom_index_view [of "storage_row (w_storage w)" b_stable_id "bm_get (w_stable_index w)"] by simp

lemma scene_entities_row:
  assumes "index_part_ok w" "bm_get (w_stable_index w) i = Some e"
  obtains b where "storage_row (w_storage w) e = Some b" "b_stable_id b = Some i"
    "scene_entities w i = Some b"
proof -
  from assms obtain b where b: "storage_row (w_storage w) e = Some b" "b_stable_id b = Some i"
    using index_ok_row [of "storage_row (w_storage w)" b_stable_id "bm_get (w_stable_index w)" i e]
    by (auto simp: index_part_ok_def)
  with assms(2) show ?thesis by (intro that [of b]) (simp_all add: scene_entities_def index_view_def)
qed

section \<open>Component masks\<close>

lemma mask_bit_disjoint: "mask_bit j AND mask_bit k = (if j = k then mask_bit k else 0)"
  by (cases j; cases k) simp_all

lemma mask_bit_nonzero: "mask_bit k \<noteq> 0"
  by (cases k) simp_all

lemma mask_contains_empty [simp]: "\<not> mask_contains EMPTY_MASK k"
  by (simp add: mask_contains_def)

lemma mask_contains_insert [simp]:
  "mask_contains (mask_insert j m) k \<longleftrightarrow> k = j \<or> mask_contains m k"
proof -
  have "(mask_bits m OR mask_bit j) AND mask_bit k =
      (mask_bits m AND mask_bit k) OR (mask_bit j AND mask_bit k)"
    by (simp add: bit.conj_disj_distrib2)
  then show ?thesis
    using mask_bit_nonzero [of k]
    by (auto simp: mask_contains_def mask_insert_def mask_bit_disjoint)
qed

lemma mask_contains_remove [simp]:
  "mask_contains (mask_remove j m) k \<longleftrightarrow> k \<noteq> j \<and> mask_contains m k"
  by (cases j; cases k)
    (simp_all add: mask_contains_def mask_remove_def and.assoc)

lemma mask_contains_add_if [simp]:
  "mask_contains (mask_add_if st e j m) k \<longleftrightarrow> mask_contains m k \<or> (k = j \<and> storage_get st e j \<noteq> None)"
  by (auto simp: mask_add_if_def)

lemma component_mask_of_contains:
  assumes "storage_row (w_storage w) e = Some b"
  shows "mask_contains (component_mask_of w e) k \<longleftrightarrow> bundle_get b k \<noteq> None"
  using assms
  by (cases k) (simp_all add: component_mask_of_def component_kinds_def storage_get_def)

lemma mask_contains_fold:
  "mask_contains (foldl (\<lambda>m v. mask_insert (component_kind_of v) m) m0 vs) k \<longleftrightarrow>
     mask_contains m0 k \<or> k \<in> component_kind_of ` set vs"
  by (induction vs arbitrary: m0) auto

lemma mask_from_values_contains:
  "mask_contains (mask_from_values vs) k \<longleftrightarrow> k \<in> component_kind_of ` set vs"
  by (simp add: mask_from_values_def mask_contains_fold)

section \<open>Bundles of created entities\<close>

lemma bundle_get_fold_put:
  "bundle_get (fold bundle_put vs b) k \<noteq> None \<longleftrightarrow> bundle_get b k \<noteq> None \<or> k \<in> component_kind_of ` set vs"
  by (induction vs arbitrary: b) (auto split: if_splits)

lemma bundle_get_fold_other:
  "k \<notin> component_kind_of ` set vs \<Longrightarrow> bundle_get (fold bundle_put vs b) k = bundle_get b k"
  by (induction vs arbitrary: b) auto

lemma bundle_get_fold_distinct:
  "distinct (map component_kind_of vs) \<Longrightarrow> v \<in> set vs \<Longrightarrow>
     bundle_get (fold bundle_put vs b) (component_kind_of v) = Some v"
proof (induction vs arbitrary: b)
  case (Cons x xs)
  then show ?case by (cases "v = x") (auto simp: bundle_get_fold_other image_iff)
qed simp

lemma b_stable_id_fold [simp]: "b_stable_id (fold bundle_put vs b) = b_stable_id b"
  by (induction vs arbitrary: b) auto

lemma build_bundle_id [simp]: "b_stable_id (build_bundle c) = Some (create_entity_id c)"
  by (simp add: build_bundle_def)

lemma build_bundle_has:
  "bundle_get (build_bundle c) k \<noteq> None \<longleftrightarrow> k \<in> component_kind_of ` set (create_components c)"
  by (simp only: build_bundle_def bundle_get_fold_put) simp

lemma find_local_transform_Some: "find_local_transform vs = Some t \<Longrightarrow> LocalTransform t \<in> set vs"
  by (induction vs rule: find_local_transform.induct) auto

lemma find_local_transform_None:
  "find_local_transform vs = None \<longleftrightarrow> LocalTransformKind \<notin> component_kind_of ` set vs"
  by (induction vs rule: find_local_transform.induct) auto

lemma build_bundle_local:
  assumes "distinct (map component_kind_of (create_components c))"
  shows "b_local_transform (build_bundle c) = find_local_transform (create_components c)"
proof (cases "find_local_transform (create_components c)")
  case None
  then have "bundle_get (build_bundle c) LocalTransformKind = None"
    using build_bundle_has [of c LocalTransformKind] by (auto simp: find_local_transform_None)
  with None show ?thesis by simp
next
  case (Some t)
  from bundle_get_fold_distinct [OF assms find_local_transform_Some [OF Some]]
  have "bundle_get (build_bundle c) LocalTransformKind = Some (LocalTransform t)"
    by (simp add: build_bundle_def)
  with Some show ?thesis by auto
qed

lemma create_components_validate_distinct:
  "create_components_validate cs kinds = Inr () \<Longrightarrow>
     distinct (map component_kind_of cs) \<and> component_kind_of ` set cs \<inter> bs_set kinds = {}"
proof (induction cs kinds rule: create_components_validate.induct)
  case (2 c cs kinds)
  then have "component_validate c = Inr ()" "component_kind_of c \<notin> bs_set kinds"
      "create_components_validate cs (bs_insert (component_kind_of c) kinds) = Inr ()"
    by (auto simp: res_simps bs_set_def split: if_splits)
  with "2.IH" show ?case by (auto simp: bs_set_def)
qed simp

text \<open>What removing or setting a component does to the local transform and the render part.\<close>

lemma bundle_put_local:
  "b_local_transform (bundle_put v b) = (case v of LocalTransform t \<Rightarrow> Some t | _ \<Rightarrow> b_local_transform b)"
  by (cases v) auto

lemma bundle_take_local:
  "b_local_transform (bundle_take k b) = (if k = LocalTransformKind then None else b_local_transform b)"
  by (cases k) auto

lemma bundle_put_render:
  "component_kind_of v = NameKind \<Longrightarrow> bundle_render_components (bundle_put v b) = bundle_render_components b"
  by (cases v) (auto simp: bundle_render_components_def)

lemma bundle_take_render:
  "bundle_render_components (bundle_take NameKind b) = bundle_render_components b"
  by (simp add: bundle_render_components_def)

section \<open>What preflight knows\<close>

definition overlay_inv ::
    "authoritative_world \<Rightarrow> (stable_entity_id, entity_state) btree_map
       \<Rightarrow> (stable_entity_id \<rightharpoonup> component_bundle) \<Rightarrow> bool" where
  "overlay_inv w overlay ents \<longleftrightarrow>
     (\<forall>i. \<exists>es. overlay_state w overlay i = Inr es \<and> (es_exists es \<longleftrightarrow> i \<in> dom ents) \<and>
        (\<forall>b k. ents i = Some b \<longrightarrow> (mask_contains (es_components es) k \<longleftrightarrow> bundle_get b k \<noteq> None)))"

definition dirty_inv ::
    "authoritative_world \<Rightarrow> stable_entity_id btree_set \<Rightarrow> scene \<Rightarrow> bool" where
  "dirty_inv w dirty sc \<longleftrightarrow>
     bs_set dirty \<subseteq> dom (fst sc) \<and>
     (\<forall>i\<in>dom (fst sc). i \<notin> bs_set dirty \<longrightarrow>
        i \<in> dom (scene_entities w) \<and> snd sc i = bm_get (w_parents w) i \<and>
        local_of (fst sc) i = local_of (scene_entities w) i)"

definition render_inv ::
    "authoritative_world \<Rightarrow> stable_entity_id btree_set \<Rightarrow> (stable_entity_id \<rightharpoonup> component_bundle) \<Rightarrow> bool" where
  "render_inv w changed ents \<longleftrightarrow>
     (\<forall>i. i \<notin> bs_set changed \<longrightarrow>
        map_option bundle_render_components (ents i) =
        map_option bundle_render_components (scene_entities w i))"

definition hierarchy_inv :: "authoritative_world \<Rightarrow> preflight_state \<Rightarrow> scene \<Rightarrow> bool" where
  "hierarchy_inv w st sc \<longleftrightarrow>
     bm_get (cow_get (ps_parents st)) = snd sc \<and>
     (\<forall>p. ps_parents st = Borrowed p \<longrightarrow> p = w_parents w) \<and>
     (\<not> ps_hierarchy_changed st \<longrightarrow>
        dom (fst sc) = dom (scene_entities w) \<and> snd sc = bm_get (w_parents w))"

definition preflight_inv :: "authoritative_world \<Rightarrow> preflight_state \<Rightarrow> scene \<Rightarrow> bool" where
  "preflight_inv w st sc \<longleftrightarrow>
     overlay_inv w (ps_overlay st) (fst sc) \<and>
     (\<forall>i\<in>dom (fst sc). effective_local_transform w (ps_local_overrides st) i = local_of (fst sc) i) \<and>
     finite (dom (fst sc)) \<and> unat (ps_live_entities st) = card (dom (fst sc)) \<and>
     card (dom (fst sc)) \<le> unat (wc_max_entities (w_config w)) \<and>
     dirty_inv w (ps_dirty_roots st) sc \<and> render_inv w (ps_render_changed_ids st) (fst sc) \<and>
     hierarchy_inv w st sc"

lemma stored_entity_state_ok:
  assumes "index_part_ok w"
  shows "\<exists>es. stored_entity_state w i = Inr es \<and> (es_exists es \<longleftrightarrow> i \<in> dom (scene_entities w)) \<and>
    (\<forall>b k. scene_entities w i = Some b \<longrightarrow> (mask_contains (es_components es) k \<longleftrightarrow> bundle_get b k \<noteq> None))"
proof (cases "bm_get (w_stable_index w) i")
  case None
  then have "scene_entities w i = None" by (simp add: scene_entities_def index_view_def)
  with None show ?thesis by (auto simp: stored_entity_state_def MISSING_def)
next
  case (Some e)
  obtain b where b: "storage_row (w_storage w) e = Some b" "b_stable_id b = Some i"
    "scene_entities w i = Some b" by (rule scene_entities_row [OF assms Some])
  then have "stored_entity_state w i = Inr \<lparr> es_exists = True, es_components = component_mask_of w e \<rparr>"
    using Some by (simp add: stored_entity_state_def storage_contains_def stored_id_matches_def)
  with b show ?thesis by (simp add: component_mask_of_contains dom_def)
qed

lemma stored_local_transform_ok:
  assumes "index_part_ok w"
  shows "stored_local_transform w i = local_of (scene_entities w) i"
proof (cases "bm_get (w_stable_index w) i")
  case None
  then show ?thesis
    by (simp add: stored_local_transform_def local_of_def scene_entities_def index_view_def)
next
  case (Some e)
  obtain b where "storage_row (w_storage w) e = Some b" "scene_entities w i = Some b"
    by (rule scene_entities_row [OF assms Some])
  with Some show ?thesis by (simp add: stored_local_transform_def local_of_def)
qed

lemma overlay_inv_insert:
  assumes "overlay_inv w overlay ents"
    and "es_exists es \<longleftrightarrow> e \<noteq> None"
    and "\<And>b k. e = Some b \<Longrightarrow> mask_contains (es_components es) k \<longleftrightarrow> bundle_get b k \<noteq> None"
  shows "overlay_inv w (bm_insert i es overlay) (ents(i := e))"
  unfolding overlay_inv_def
proof (intro allI)
  fix j
  show "\<exists>es'. overlay_state w (bm_insert i es overlay) j = Inr es' \<and>
      (es_exists es' \<longleftrightarrow> j \<in> dom (ents(i := e))) \<and>
      (\<forall>b k. (ents(i := e)) j = Some b \<longrightarrow> (mask_contains (es_components es') k \<longleftrightarrow> bundle_get b k \<noteq> None))"
  proof (cases "j = i")
    case True
    then show ?thesis using assms(2,3) by (auto simp: overlay_state_def)
  next
    case False
    then have "overlay_state w (bm_insert i es overlay) j = overlay_state w overlay j"
      by (simp add: overlay_state_def)
    with assms(1) False show ?thesis by (auto simp: overlay_inv_def)
  qed
qed

lemma overlay_inv_get:
  assumes "overlay_inv w overlay ents"
  obtains es where "overlay_state w overlay i = Inr es" "es_exists es \<longleftrightarrow> i \<in> dom ents"
    "\<forall>b k. ents i = Some b \<longrightarrow> (mask_contains (es_components es) k \<longleftrightarrow> bundle_get b k \<noteq> None)"
  using assms unfolding overlay_inv_def by blast

section \<open>Preflight refines the scene\<close>

abbreviation world_capacity :: "authoritative_world \<Rightarrow> nat" where
  "world_capacity w \<equiv> unat (wc_max_entities (w_config w))"

text \<open>
  A preflight step succeeds exactly where the step of the scene is defined, and then knows
  the new scene; otherwise it returns an error, never a panic.
\<close>

definition step_refines ::
    "authoritative_world \<Rightarrow> scene \<Rightarrow> scene_operation \<Rightarrow> preflight_state world_result \<Rightarrow> bool" where
  "step_refines w sc op r \<longleftrightarrow>
     (case r of
        Inr st' \<Rightarrow> \<exists>sc'. scene_step (world_capacity w) op sc = Some sc' \<and> preflight_inv w st' sc'
      | Inl e \<Rightarrow> scene_step (world_capacity w) op sc = None \<and> (\<exists>x. e = Err x))"

lemma step_refines_Inr:
  "scene_step (world_capacity w) op sc = Some sc' \<Longrightarrow> preflight_inv w st' sc' \<Longrightarrow> step_refines w sc op (Inr st')"
  by (simp add: step_refines_def)

lemma step_refines_err:
  "scene_step (world_capacity w) op sc = None \<Longrightarrow> step_refines w sc op (err e)"
  by (simp add: step_refines_def)

lemma local_of_upd:
  "local_of (ents(i := e)) j = (if j = i then (case e of None \<Rightarrow> None | Some b \<Rightarrow> b_local_transform b) else local_of ents j)"
  by (simp add: local_of_def)

lemma dirty_inv_insert:
  assumes "dirty_inv w d (ents, par)"
  shows "dirty_inv w (bs_insert i d) (ents(i \<mapsto> b), par(i := p))"
  using assms by (auto simp: dirty_inv_def local_of_upd)

lemma dirty_inv_keep:
  assumes "dirty_inv w d (ents, par)" "i \<in> dom ents" "b_local_transform b = local_of ents i"
  shows "dirty_inv w d (ents(i \<mapsto> b), par)"
  using assms by (auto simp: dirty_inv_def local_of_upd)

lemma dirty_inv_delete:
  assumes "dirty_inv w d (ents, par)"
  shows "dirty_inv w (bs_remove i d) (ents(i := None), par(i := None))"
  using assms by (auto simp: dirty_inv_def local_of_upd)

lemma render_inv_insert: "render_inv w d ents \<Longrightarrow> render_inv w (bs_insert i d) (ents(i := e))"
  by (simp add: render_inv_def)

lemma render_inv_keep:
  "render_inv w d ents \<Longrightarrow> ents i = Some b \<Longrightarrow>
     bundle_render_components c = bundle_render_components b \<Longrightarrow> render_inv w d (ents(i \<mapsto> c))"
  by (fastforce simp: render_inv_def)

lemma lift_res_simps [simp]: "lift_res (Inr x) = Inr x" "lift_res (Inl e) = err e"
  by (simp_all add: lift_res_def)

lemma preflight_invI:
  assumes "overlay_inv w (ps_overlay st) ents"
    and "\<And>i. i \<in> dom ents \<Longrightarrow> effective_local_transform w (ps_local_overrides st) i = local_of ents i"
    and "finite (dom ents)" "unat (ps_live_entities st) = card (dom ents)"
    and "card (dom ents) \<le> world_capacity w"
    and "dirty_inv w (ps_dirty_roots st) (ents, par)"
    and "render_inv w (ps_render_changed_ids st) ents"
    and "hierarchy_inv w st (ents, par)"
  shows "preflight_inv w st (ents, par)"
  using assms by (simp add: preflight_inv_def)

lemma preflight_invD:
  assumes "preflight_inv w st (ents, par)"
  shows "overlay_inv w (ps_overlay st) ents"
    and "i \<in> dom ents \<Longrightarrow> effective_local_transform w (ps_local_overrides st) i = local_of ents i"
    and "finite (dom ents)" "unat (ps_live_entities st) = card (dom ents)"
    and "card (dom ents) \<le> world_capacity w"
    and "dirty_inv w (ps_dirty_roots st) (ents, par)"
    and "render_inv w (ps_render_changed_ids st) ents"
    and "hierarchy_inv w st (ents, par)"
  using assms by (simp_all add: preflight_inv_def)

lemma effective_local_insert:
  "effective_local_transform w (bm_insert i t overrides) j =
     (if j = i then t else effective_local_transform w overrides j)"
  by (simp add: effective_local_transform_def)

lemma effective_local_remove:
  "j \<noteq> i \<Longrightarrow> effective_local_transform w (bm_remove i overrides) j = effective_local_transform w overrides j"
  by (simp add: effective_local_transform_def)

lemma preflight_inv_create:
  assumes inv: "preflight_inv w st (ents, par)" and new: "i \<notin> dom ents"
    and i: "i = create_entity_id c" and dist: "distinct (map component_kind_of (create_components c))"
    and live: "unat live = Suc (card (dom ents))" "live \<le> wc_max_entities (w_config w)"
  shows "preflight_inv w (create_state c live st) (ents(i \<mapsto> build_bundle c), par)"
proof (rule preflight_invI)
  note parts = preflight_invD [OF inv]
  show "overlay_inv w (ps_overlay (create_state c live st)) (ents(i \<mapsto> build_bundle c))"
    unfolding create_state_def i
    by simp (rule overlay_inv_insert [OF parts(1)], simp_all add: mask_from_values_contains build_bundle_has [symmetric])
  show "effective_local_transform w (ps_local_overrides (create_state c live st)) j =
      local_of (ents(i \<mapsto> build_bundle c)) j" if "j \<in> dom (ents(i \<mapsto> build_bundle c))" for j
    using parts(2) [of j] that
    by (auto simp: create_state_def effective_local_insert local_of_upd i build_bundle_local [OF dist])
  show "dirty_inv w (ps_dirty_roots (create_state c live st)) (ents(i \<mapsto> build_bundle c), par)"
    using dirty_inv_insert [OF parts(6), of i "build_bundle c" "par i"]
    by (simp add: create_state_def i)
  show "card (dom (ents(i \<mapsto> build_bundle c))) \<le> world_capacity w"
    using live new parts(3) by (simp add: word_le_nat_alt)
  show "render_inv w (ps_render_changed_ids (create_state c live st)) (ents(i \<mapsto> build_bundle c))"
    using parts(7) by (simp add: create_state_def i render_inv_insert)
  show "hierarchy_inv w (create_state c live st) (ents(i \<mapsto> build_bundle c), par)"
    using parts(8) by (simp add: create_state_def hierarchy_inv_def)
qed (use preflight_invD(3) [OF inv] live new in \<open>simp_all add: create_state_def\<close>)

lemma capped_increment:
  fixes n cap :: u32
  obtains (full) "unat cap \<le> unat n"
      "checked_add n 1 = None \<or> (\<exists>m. checked_add n 1 = Some m \<and> cap < m)"
    | (room) m where "unat n < unat cap" "checked_add n 1 = Some m" "m \<le> cap" "unat m = Suc (unat n)"
proof (cases "unat n < unat cap")
  case True
  then have fits: "unat n + unat (1 :: u32) < 2 ^ LENGTH(32)"
    using unat_bound [of cap] unat_1 [where 'a = 32] by linarith
  show ?thesis
    by (rule room [of "n + 1"])
      (use True fits unat_add_no_overflow [OF fits] in \<open>simp_all only: checked_add_def word_le_unat, simp_all\<close>)
next
  case False
  show ?thesis
  proof (rule full)
    show "checked_add n 1 = None \<or> (\<exists>m. checked_add n 1 = Some m \<and> cap < m)"
    proof (cases "checked_add n 1")
      case (Some m)
      from False have "cap < m" using checked_add_unat [OF Some] by (simp add: word_less_unat)
      with Some show ?thesis by simp
    qed simp
  qed (use False in simp)
qed

lemma preflight_create_refines:
  assumes inv: "preflight_inv w st (ents, par)" and valid: "operation_validate (Create c) = Inr ()"
  shows "step_refines w (ents, par) (Create c) (preflight_create w st c ix)"
proof -
  let ?i = "create_entity_id c" and ?max = "wc_max_entities (w_config w)"
  obtain es where es: "overlay_state w (ps_overlay st) ?i = Inr es" "es_exists es \<longleftrightarrow> ?i \<in> dom ents"
    by (rule overlay_inv_get [OF preflight_invD(1) [OF inv], of ?i])
  have live: "unat (ps_live_entities st) = card (dom ents)" by (rule preflight_invD [OF inv])
  have dist: "distinct (map component_kind_of (create_components c))"
    using valid create_components_validate_distinct [of "create_components c" bs_empty] by simp
  show ?thesis
  proof (cases "?i \<in> dom ents")
    case True
    with es show ?thesis by (simp add: preflight_create_def step_refines_err del: domIff)
  next
    case new: False
    show ?thesis
    proof (rule capped_increment [of ?max "ps_live_entities st"])
      assume "unat ?max \<le> unat (ps_live_entities st)"
        and "checked_add (ps_live_entities st) 1 = None \<or>
          (\<exists>m. checked_add (ps_live_entities st) 1 = Some m \<and> ?max < m)"
      with new es live show ?thesis by (auto simp: preflight_create_def intro!: step_refines_err)
    next
      fix m
      assume "unat (ps_live_entities st) < unat ?max" "checked_add (ps_live_entities st) 1 = Some m"
        and m: "m \<le> ?max" "unat m = Suc (unat (ps_live_entities st))"
      moreover have "preflight_inv w (create_state c m st) (ents(?i \<mapsto> build_bundle c), par)"
        using preflight_inv_create [OF inv new refl dist] m live by simp
      ultimately show ?thesis using new es live
        by (simp add: preflight_create_def step_refines_def)
    qed
  qed
qed

lemma preflight_inv_delete:
  assumes inv: "preflight_inv w st (ents, par)" and i: "i \<in> dom ents"
    and live: "Suc (unat live) = card (dom ents)"
  shows "preflight_inv w (delete_state i live st) (ents(i := None), par(i := None))"
proof (rule preflight_invI)
  note parts = preflight_invD [OF inv]
  show "overlay_inv w (ps_overlay (delete_state i live st)) (ents(i := None))"
    unfolding delete_state_def
    by simp (rule overlay_inv_insert [OF parts(1)], simp_all add: MISSING_def)
  show "effective_local_transform w (ps_local_overrides (delete_state i live st)) j =
      local_of (ents(i := None)) j" if "j \<in> dom (ents(i := None))" for j
    using parts(2) [of j] that
    by (simp add: delete_state_def effective_local_remove local_of_upd)
  show "dirty_inv w (ps_dirty_roots (delete_state i live st)) (ents(i := None), par(i := None))"
    using dirty_inv_delete [OF parts(6)] by (simp add: delete_state_def)
  show "finite (dom (ents(i := None)))" using parts(3) by simp
  show "unat (ps_live_entities (delete_state i live st)) = card (dom (ents(i := None)))"
    using i live parts(3) by (simp add: delete_state_def)
  show "card (dom (ents(i := None))) \<le> world_capacity w"
    using i parts(3,5) by (simp add: card_Diff_singleton)
  show "render_inv w (ps_render_changed_ids (delete_state i live st)) (ents(i := None))"
    using parts(7) by (simp add: delete_state_def render_inv_insert)
  show "hierarchy_inv w (delete_state i live st) (ents(i := None), par(i := None))"
  proof (cases "i \<in> dom par")
    case True
    then show ?thesis using parts(8) by (simp add: delete_state_def hierarchy_inv_def)
  next
    case False
    then have "par(i := None) = par" by (intro fun_upd_idem) (simp add: domIff)
    then show ?thesis using parts(8) False by (simp add: delete_state_def hierarchy_inv_def)
  qed
qed

lemma preflight_delete_refines:
  assumes inv: "preflight_inv w st (ents, par)"
  shows "step_refines w (ents, par) (Delete d) (preflight_delete w st d ix)"
proof -
  let ?i = "delete_entity_id d" and ?n = "ps_live_entities st"
  obtain es where es: "overlay_state w (ps_overlay st) ?i = Inr es" "es_exists es \<longleftrightarrow> ?i \<in> dom ents"
    by (rule overlay_inv_get [OF preflight_invD(1) [OF inv], of ?i])
  show ?thesis
  proof (cases "?i \<in> dom ents")
    case False
    with es show ?thesis by (simp add: preflight_delete_def step_refines_err)
  next
    case True
    have "card (dom ents) \<noteq> 0" using True preflight_invD(3) [OF inv] by auto
    then have pos: "0 < unat ?n" using preflight_invD(4) [OF inv] by linarith
    then have one: "1 \<le> ?n" by (simp add: word_le_unat)
    then have "Suc (unat (?n - 1)) = card (dom ents)"
      using preflight_invD(4) [OF inv] pos unat_sub [OF one] by simp
    from preflight_inv_delete [OF inv True this] True es one show ?thesis
      by (simp add: preflight_delete_def checked_sub_def step_refines_def)
  qed
qed

text \<open>
  Setting and removing a component change one entity: the four parts of the invariant that
  see components are re-established from what the update says of the overlay, the
  effective transform, the dirty roots and the changed ids.
\<close>

lemma preflight_inv_update:
  assumes inv: "preflight_inv w st (ents, par)" and i: "ents i = Some b"
    and ov: "ps_overlay st' = bm_insert i es (ps_overlay st)" "es_exists es"
      "\<And>k. mask_contains (es_components es) k \<longleftrightarrow> bundle_get b' k \<noteq> None"
    and same: "ps_parents st' = ps_parents st" "ps_hierarchy_changed st' = ps_hierarchy_changed st"
      "ps_live_entities st' = ps_live_entities st"
    and loc: "\<And>j. effective_local_transform w (ps_local_overrides st') j =
        (if j = i then b_local_transform b' else effective_local_transform w (ps_local_overrides st) j)"
    and dirty: "ps_dirty_roots st' = bs_insert i (ps_dirty_roots st) \<or>
      ps_dirty_roots st' = ps_dirty_roots st \<and> b_local_transform b' = local_of ents i"
    and changed: "ps_render_changed_ids st' = bs_insert i (ps_render_changed_ids st) \<or>
      ps_render_changed_ids st' = ps_render_changed_ids st \<and>
        bundle_render_components b' = bundle_render_components b"
  shows "preflight_inv w st' (ents(i \<mapsto> b'), par)"
proof -
  note parts = preflight_invD [OF inv]
  have dom: "dom (ents(i \<mapsto> b')) = dom ents" and i_dom: "i \<in> dom ents" using i by auto
  have "dirty_inv w (ps_dirty_roots st') (ents(i \<mapsto> b'), par)"
    using dirty dirty_inv_insert [OF parts(6), of i b' "par i"] dirty_inv_keep [OF parts(6) i_dom, of b']
    by (auto simp only: fun_upd_triv)
  moreover have "render_inv w (ps_render_changed_ids st') (ents(i \<mapsto> b'))"
    using changed render_inv_insert [OF parts(7), of i "Some b'"] render_inv_keep [OF parts(7) i, of b']
    by auto
  moreover have "overlay_inv w (ps_overlay st') (ents(i \<mapsto> b'))"
    unfolding ov(1) by (rule overlay_inv_insert [OF parts(1)]) (use ov(2,3) in simp_all)
  moreover have "effective_local_transform w (ps_local_overrides st') j = local_of (ents(i \<mapsto> b')) j"
    if "j \<in> dom ents" for j
    using that parts(2) [of j] by (simp add: loc local_of_upd)
  moreover have "hierarchy_inv w st' (ents(i \<mapsto> b'), par)"
    using parts(8) unfolding hierarchy_inv_def fst_conv snd_conv dom same .
  ultimately show ?thesis
    using parts(3-5) by (intro preflight_invI) (simp_all only: dom same)
qed

lemma preflight_set_refines:
  assumes inv: "preflight_inv w st (ents, par)"
  shows "step_refines w (ents, par) (SetComponent s) (preflight_set w st s ix)"
proof -
  let ?i = "set_entity_id s" and ?v = "set_component s"
  obtain es where es: "overlay_state w (ps_overlay st) ?i = Inr es" "es_exists es \<longleftrightarrow> ?i \<in> dom ents"
      "\<forall>b k. ents ?i = Some b \<longrightarrow> (mask_contains (es_components es) k \<longleftrightarrow> bundle_get b k \<noteq> None)"
    by (rule overlay_inv_get [OF preflight_invD(1) [OF inv], of ?i])
  show ?thesis
  proof (cases "ents ?i")
    case None
    with es(1,2) show ?thesis by (simp add: preflight_set_def step_refines_err domIff)
  next
    case (Some b)
    let ?st = "set_overlay ?i
      (es\<lparr> es_components := mask_insert (component_kind_of ?v) (es_components es) \<rparr>)
      (note_render_change ?i (component_kind_of ?v) (note_local_transform w ?i ?v st))"
    have eff: "effective_local_transform w (ps_local_overrides st) ?i = b_local_transform b"
      using preflight_invD(2) [OF inv, of ?i] Some by (simp add: local_of_def dom_def)
    have "preflight_inv w ?st (ents(?i \<mapsto> bundle_put ?v b), par)"
    proof (rule preflight_inv_update [OF inv Some])
      show "ps_overlay ?st = bm_insert ?i
          (es\<lparr> es_components := mask_insert (component_kind_of ?v) (es_components es) \<rparr>) (ps_overlay st)"
        by (simp add: set_overlay_def note_render_change_def note_local_transform_def split: component_value.split)
      show "effective_local_transform w (ps_local_overrides ?st) j =
          (if j = ?i then b_local_transform (bundle_put ?v b)
           else effective_local_transform w (ps_local_overrides st) j)" for j
        using eff
        by (simp add: set_overlay_def note_render_change_def note_local_transform_def bundle_put_local
            effective_local_insert split: component_value.split)
      show "ps_dirty_roots ?st = bs_insert ?i (ps_dirty_roots st) \<or>
          ps_dirty_roots ?st = ps_dirty_roots st \<and> b_local_transform (bundle_put ?v b) = local_of ents ?i"
        using eff Some
        by (simp add: set_overlay_def note_render_change_def note_local_transform_def bundle_put_local
            local_of_def split: component_value.split)
      show "ps_render_changed_ids ?st = bs_insert ?i (ps_render_changed_ids st) \<or>
          ps_render_changed_ids ?st = ps_render_changed_ids st \<and>
            bundle_render_components (bundle_put ?v b) = bundle_render_components b"
        using bundle_put_render [of ?v b]
        by (simp add: set_overlay_def note_render_change_def note_local_transform_def split: component_value.split)
    qed (use es Some in \<open>simp_all add: set_overlay_def note_render_change_def note_local_transform_def
          dom_def split: component_value.split\<close>)
    with es(1,2) Some show ?thesis by (simp add: preflight_set_def step_refines_def dom_def)
  qed
qed

lemma preflight_remove_refines:
  assumes inv: "preflight_inv w st (ents, par)"
  shows "step_refines w (ents, par) (RemoveComponent r) (preflight_remove w st r ix)"
proof -
  let ?i = "remove_entity_id r" and ?k = "remove_component r"
  obtain es where es: "overlay_state w (ps_overlay st) ?i = Inr es" "es_exists es \<longleftrightarrow> ?i \<in> dom ents"
      "\<forall>b k. ents ?i = Some b \<longrightarrow> (mask_contains (es_components es) k \<longleftrightarrow> bundle_get b k \<noteq> None)"
    by (rule overlay_inv_get [OF preflight_invD(1) [OF inv], of ?i])
  consider "ents ?i = None" | b where "ents ?i = Some b" "bundle_get b ?k = None"
    | (present) b where "ents ?i = Some b" "bundle_get b ?k \<noteq> None" by blast
  then show ?thesis
  proof cases
    case present
    let ?st = "set_overlay ?i (es\<lparr> es_components := mask_remove ?k (es_components es) \<rparr>)
      (note_render_change ?i ?k (note_transform_removed ?i ?k st))"
    have eff: "effective_local_transform w (ps_local_overrides st) ?i = b_local_transform b"
      using preflight_invD(2) [OF inv, of ?i] present(1) by (simp add: local_of_def dom_def)
    have "preflight_inv w ?st (ents(?i \<mapsto> bundle_take ?k b), par)"
    proof (rule preflight_inv_update [OF inv present(1)])
      show "ps_overlay ?st =
          bm_insert ?i (es\<lparr> es_components := mask_remove ?k (es_components es) \<rparr>) (ps_overlay st)"
        by (simp add: set_overlay_def note_render_change_def note_transform_removed_def)
      show "effective_local_transform w (ps_local_overrides ?st) j =
          (if j = ?i then b_local_transform (bundle_take ?k b)
           else effective_local_transform w (ps_local_overrides st) j)" for j
        using eff
        by (simp add: set_overlay_def note_render_change_def note_transform_removed_def bundle_take_local
            effective_local_insert)
      show "ps_render_changed_ids ?st = bs_insert ?i (ps_render_changed_ids st) \<or>
          ps_render_changed_ids ?st = ps_render_changed_ids st \<and>
            bundle_render_components (bundle_take ?k b) = bundle_render_components b"
        using bundle_take_render [of b]
        by (simp add: set_overlay_def note_render_change_def note_transform_removed_def)
    qed (use es present in \<open>simp_all add: set_overlay_def note_render_change_def
          note_transform_removed_def bundle_take_local local_of_def dom_def\<close>)
    with es present show ?thesis by (simp add: preflight_remove_def step_refines_def dom_def)
  qed (use es in \<open>simp_all add: preflight_remove_def step_refines_err domIff\<close>)
qed

lemma preflight_inv_reparent:
  assumes inv: "preflight_inv w st (ents, par)" and i: "i \<in> dom ents"
  shows "preflight_inv w (reparent_state i p st) (ents, par(i := p))"
proof -
  note parts = preflight_invD [OF inv]
  have par: "bm_get (cow_get (ps_parents st)) = par" using parts(8) by (simp add: hierarchy_inv_def)
  obtain b where "ents i = Some b" using i by blast
  then have b: "ents(i \<mapsto> b) = ents" by (simp add: fun_upd_idem)
  show ?thesis
  proof (cases "par i = p")
    case True
    then show ?thesis using inv par by (auto simp: reparent_state_def fun_upd_idem)
  next
    case False
    have "dirty_inv w (bs_insert i (ps_dirty_roots st)) (ents, par(i := p))"
      using dirty_inv_insert [OF parts(6), of i b p] b by simp
    moreover have "bm_get (case p of None \<Rightarrow> bm_remove i (cow_get (ps_parents st))
        | Some q \<Rightarrow> bm_insert i q (cow_get (ps_parents st))) = par(i := p)"
      using par by (simp split: option.split)
    ultimately show ?thesis
      using False par parts(1-5,7)
      by (intro preflight_invI) (simp_all add: reparent_state_def hierarchy_inv_def)
  qed
qed

lemma preflight_reparent_refines:
  assumes inv: "preflight_inv w st (ents, par)"
  shows "step_refines w (ents, par) (Reparent r) (preflight_reparent w st r ix)"
proof -
  let ?i = "reparent_entity_id r"
  obtain es where es: "overlay_state w (ps_overlay st) ?i = Inr es" "es_exists es \<longleftrightarrow> ?i \<in> dom ents"
    by (rule overlay_inv_get [OF preflight_invD(1) [OF inv], of ?i])
  show ?thesis
  proof (cases "reparent_parent_id r")
    case None
    show ?thesis
    proof (cases "?i \<in> dom ents")
      case True
      from es True None preflight_inv_reparent [OF inv True, of None] show ?thesis
        by (simp add: preflight_reparent_def step_refines_def)
    qed (use es None in \<open>simp add: preflight_reparent_def step_refines_err\<close>)
  next
    case (Some p)
    obtain ps where ps: "overlay_state w (ps_overlay st) p = Inr ps" "es_exists ps \<longleftrightarrow> p \<in> dom ents"
      by (rule overlay_inv_get [OF preflight_invD(1) [OF inv], of p])
    show ?thesis
    proof (cases "?i \<in> dom ents")
      case True
      from es ps True Some preflight_inv_reparent [OF inv True, of "Some p"] show ?thesis
        by (simp add: preflight_reparent_def step_refines_def)
    qed (use es Some in \<open>simp add: preflight_reparent_def step_refines_err\<close>)
  qed
qed

text \<open>The operations of a patch, in order.\<close>

lemma preflight_operation_refines:
  assumes "preflight_inv w st sc" "operation_validate op = Inr ()"
  shows "step_refines w sc op (preflight_operation w st op ix)"
  using assms
  by (cases sc; cases op)
    (simp_all only: preflight_operation.simps preflight_create_refines preflight_delete_refines
      preflight_set_refines preflight_remove_refines preflight_reparent_refines)

lemma preflight_inv_push: "preflight_inv w (push_operation op st) sc \<longleftrightarrow> preflight_inv w st sc"
  by (simp add: preflight_inv_def push_operation_def hierarchy_inv_def)

lemma preflight_operation_operations:
  "preflight_operation w st op ix = Inr st' \<Longrightarrow> ps_operations st' = ps_operations st"
  by (cases op)
    (auto simp: preflight_create_def preflight_delete_def preflight_set_def preflight_remove_def
      preflight_reparent_def res_simps create_state_def delete_state_def set_overlay_def
      note_render_change_def note_local_transform_def note_transform_removed_def reparent_state_def
      split: if_splits option.splits component_value.splits)

lemma preflight_operations_refines:
  assumes "preflight_inv w st sc" "\<And>op. op \<in> set ops \<Longrightarrow> operation_validate op = Inr ()"
    and "position + length ops \<le> 2 ^ 32"
  shows "case preflight_operations w position ops st of
      Inr st' \<Rightarrow> \<exists>sc'. scene_steps (world_capacity w) ops sc = Some sc' \<and> preflight_inv w st' sc' \<and>
        ps_operations st' = ps_operations st @ ops
    | Inl e \<Rightarrow> scene_steps (world_capacity w) ops sc = None \<and> (\<exists>x. e = Err x)"
  using assms
proof (induction ops arbitrary: position st sc)
  case (Cons op ops)
  have "position < 2 ^ LENGTH(32)" using Cons.prems(3) by simp
  then obtain ix :: u32 where ix: "word_of_len position = Some ix" by (simp add: word_of_len_def)
  have step: "step_refines w sc op (preflight_operation w st op ix)"
    using Cons.prems by (simp add: preflight_operation_refines)
  show ?case
  proof (cases "preflight_operation w st op ix")
    case (Inl e)
    with step ix show ?thesis by (simp add: step_refines_def)
  next
    case (Inr st')
    with step obtain sc' where sc': "scene_step (world_capacity w) op sc = Some sc'"
        "preflight_inv w (push_operation op st') sc'"
      by (auto simp: step_refines_def preflight_inv_push)
    have ops': "ps_operations (push_operation op st') = ps_operations st @ [op]"
      using preflight_operation_operations [OF Inr] by (simp add: push_operation_def)
    from Cons.IH [OF sc'(2), of "Suc position"] Cons.prems(2,3)
    show ?thesis using Inr ix sc'(1) ops'
      by (cases "preflight_operations w (Suc position) ops (push_operation op st')") simp_all
  qed
qed simp

lemma patch_operations_validate_all:
  "patch_operations_validate limits ops c t = Inr r \<Longrightarrow> op \<in> set ops \<Longrightarrow> operation_validate op = Inr ()"
  by (induction limits ops c t rule: patch_operations_validate.induct)
    (auto simp: res_simps split: if_splits)

lemma patch_validate_operations:
  assumes "patch_validate p limits = Inr ()"
  shows "op \<in> set (patch_operations p) \<Longrightarrow> operation_validate op = Inr ()"
    and "patch_operations p \<noteq> []"
    and "max_operations limits < - 1 \<Longrightarrow> length (patch_operations p) \<le> unat (max_operations limits)"
proof -
  let ?n = "len_or_max (length (patch_operations p)) :: u32"
  from assms obtain r where r:
      "patch_operations_validate limits (patch_operations p) 0 (len_or_max (delivery_text_bytes (patch_delivery p))) = Inr r"
    and n: "?n \<noteq> 0" "?n \<le> max_operations limits"
    by (auto simp: patch_validate_def res_simps patch_validate_operation_count_def split: if_splits)
  show "op \<in> set (patch_operations p) \<Longrightarrow> operation_validate op = Inr ()"
    by (rule patch_operations_validate_all [OF r])
  show "patch_operations p \<noteq> []" using n(1) by (auto simp: len_or_max_def)
  assume "max_operations limits < - 1"
  then have "unat (max_operations limits) < 2 ^ 32 - 1" by (simp add: word_less_unat unat_max_word)
  with n(2) show "length (patch_operations p) \<le> unat (max_operations limits)"
    by (simp add: word_le_unat unat_len_or_max min_def split: if_splits)
qed

section \<open>The hierarchy of the new scene\<close>

lemma overlaid_live_ids_set:
  assumes ov: "overlay_inv w overlay ents" and ix: "index_part_ok w"
  shows "bs_set (overlaid_live_ids w overlay) = dom ents"
proof -
  have fold: "bs_set (fold apply_overlay xs live) =
      {i. case map_of xs i of Some es \<Rightarrow> es_exists es | None \<Rightarrow> i \<in> bs_set live}"
    if "distinct (map fst xs)" for xs live
    using that
  proof (induction xs arbitrary: live)
    case (Cons x xs)
    then have "map_of xs (fst x) = None" by (simp add: map_of_eq_None_iff)
    with Cons show ?case by (auto simp: apply_overlay_def split: option.splits if_splits)
  qed auto
  have live: "bs_set (live_ids w) = dom (scene_entities w)"
    using ix by (simp add: live_ids_def dom_scene_entities)
  have "i \<in> dom ents \<longleftrightarrow> (case bm_get overlay i of Some es \<Rightarrow> es_exists es | None \<Rightarrow> i \<in> dom (scene_entities w))"
    for i
  proof -
    obtain es where es: "overlay_state w overlay i = Inr es" "es_exists es \<longleftrightarrow> i \<in> dom ents"
      by (rule overlay_inv_get [OF ov, of i])
    obtain es' where es': "stored_entity_state w i = Inr es'" "es_exists es' \<longleftrightarrow> i \<in> dom (scene_entities w)"
      using stored_entity_state_ok [OF ix, of i] by blast
    show ?thesis
      by (cases "bm_get overlay i") (use es es' in \<open>simp_all only: overlay_state_def option.case sum.inject\<close>)
  qed
  moreover have "distinct (map fst (bm_entries overlay))"
    by (rule ascending_distinct [OF ascending_bm_entries])
  ultimately show ?thesis
    unfolding overlaid_live_ids_def fold [OF \<open>distinct _\<close>] map_of_bm_entries live by blast
qed

lemma plan_children_ok:
  assumes w: "world_ok w" and inv: "preflight_inv w st (ents, par)"
  shows "case plan_children w st of
      Inr rebuilt \<Rightarrow> hierarchy_ok (dom ents) par (unat (wc_max_hierarchy_depth (w_config w))) \<and>
        or_children w rebuilt = rebuild_children (cow_get (ps_parents st)) \<and>
        (rebuilt = None \<longrightarrow> cow_get (ps_parents st) = w_parents w)
    | Inl e \<Rightarrow> \<not> hierarchy_ok (dom ents) par (unat (wc_max_hierarchy_depth (w_config w)))"
proof -
  note parts = preflight_invD [OF inv]
  have par: "bm_get (cow_get (ps_parents st)) = par" using parts(8) by (simp add: hierarchy_inv_def)
  have ix: "index_part_ok w" and hier: "hierarchy_part_ok w" using w by (simp_all add: world_ok_def)
  show ?thesis
  proof (cases "ps_hierarchy_changed st")
    case True
    have live: "bs_set (overlaid_live_ids w (ps_overlay st)) = dom ents"
      by (rule overlaid_live_ids_set [OF parts(1) ix])
    have iff: "(\<exists>d. hierarchy_depths (overlaid_live_ids w (ps_overlay st)) (cow_get (ps_parents st))
        (wc_max_hierarchy_depth (w_config w)) = Inr d) \<longleftrightarrow>
        hierarchy_ok (dom ents) par (unat (wc_max_hierarchy_depth (w_config w)))"
      using hierarchy_depths_Inr_iff [of "overlaid_live_ids w (ps_overlay st)" "cow_get (ps_parents st)"]
      by (simp only: live par)
    show ?thesis
      by (cases "hierarchy_depths (overlaid_live_ids w (ps_overlay st)) (cow_get (ps_parents st))
          (wc_max_hierarchy_depth (w_config w))")
        (use True iff in \<open>simp_all add: plan_children_def or_children_def\<close>)
  next
    case False
    then have same: "dom ents = dom (bm_get (w_stable_index w))" "par = bm_get (w_parents w)"
      using parts(8) dom_scene_entities [OF ix] by (simp_all add: hierarchy_inv_def)
    then have "cow_get (ps_parents st) = w_parents w" using par by (simp add: bm_eq_iff)
    with False hier show ?thesis
      by (simp add: plan_children_def or_children_def same hierarchy_part_ok_def)
  qed
qed

end
