(* ===== verification/World_Plan.thy ===== *)
theory World_Plan
  imports World_Refinement
begin

text \<open>
  The transform plan and the commit plan. The incremental update of the world transforms is
  shown to agree with full recomputation: every entity whose matrix can change is
  recomputed, after its parent, and every other matrix stays what a recomputation would
  give. A plan is found exactly when the operations are defined on the scene, the hierarchy
  they leave is a forest within the depth limit, every matrix is finite, and the counters
  have room.
\<close>

section \<open>Incremental transforms\<close>

lemma world_matrix_root_iff:
  "par x = None \<Longrightarrow> world_matrix par loc x m \<longleftrightarrow> (\<exists>t. from_local (loc x) 0 = Some t \<and> m = wt_matrix t)"
  by (rule iffI, erule world_matrix.cases, simp_all, elim exE conjE, simp add: world_matrix.matrix_root)

lemma world_matrix_child_iff:
  "par x = Some p \<Longrightarrow> world_matrix par loc x m \<longleftrightarrow>
     (\<exists>n t u. world_matrix par loc p n \<and> from_local (loc x) 0 = Some t \<and>
        all_finite (compose_entries n (wt_matrix t)) 0 = Some u \<and> m = wt_matrix u)"
  by (rule iffI, erule world_matrix.cases, simp, force, elim exE conjE, simp add: world_matrix.matrix_child)

lemma from_local_None: "from_local l g = None \<longleftrightarrow> from_local l h = None"
  using from_local_generation [of l g _ h] from_local_generation [of l h _ g]
  by (cases "from_local l g"; cases "from_local l h") auto

definition transforms_good ::
    "(stable_entity_id \<rightharpoonup> stable_entity_id) \<Rightarrow> (stable_entity_id \<Rightarrow> local_transform option) \<Rightarrow> u64
       \<Rightarrow> (stable_entity_id \<rightharpoonup> world_transform) \<Rightarrow> bool" where
  "transforms_good par loc g transforms \<longleftrightarrow>
     (\<forall>i t. transforms i = Some t \<longrightarrow> world_matrix par loc i (wt_matrix t) \<and> wt_generation t = g)"

abbreviation known_transform ::
    "authoritative_world \<Rightarrow> transform_map \<Rightarrow> stable_entity_id \<Rightarrow> world_transform option" where
  "known_transform w updates p \<equiv>
     (case bm_get updates p of Some t \<Rightarrow> Some t | None \<Rightarrow> bm_get (w_world_transforms w) p)"

lemma update_transform_result:
  assumes par: "bm_get parents = par" and loc: "effective_local_transform w overrides i = loc i"
    and parent: "\<forall>p. par i = Some p \<longrightarrow>
      (\<exists>t. known_transform w updates p = Some t \<and> world_matrix par loc p (wt_matrix t))"
  shows "case update_transform w parents overrides g i updates of
      Inr u \<Rightarrow> \<exists>t. u = bm_insert i t updates \<and> world_matrix par loc i (wt_matrix t) \<and> wt_generation t = g
    | Inl e \<Rightarrow> \<forall>m. \<not> world_matrix par loc i m"
proof (cases "from_local (loc i) g")
  case None
  then have "from_local (loc i) 0 = None" using from_local_None by blast
  then have "\<not> world_matrix par loc i m" for m
    by (cases "par i") (simp_all add: world_matrix_root_iff world_matrix_child_iff)
  with None show ?thesis by (simp add: update_transform_def loc)
next
  case (Some t)
  then have t0: "from_local (loc i) 0 = Some (t\<lparr>wt_generation := 0\<rparr>)" by (rule from_local_generation)
  have tg: "wt_generation t = g" by (rule from_local_ok(2) [OF Some])
  show ?thesis
  proof (cases "par i")
    case None
    with Some t0 tg show ?thesis
      by (auto simp: update_transform_def compose_world_transform_def loc par world_matrix_root_iff)
  next
    case (Some p)
    with parent obtain pt where pt: "known_transform w updates p = Some pt" "world_matrix par loc p (wt_matrix pt)"
      by blast
    have uniq: "world_matrix par loc p n \<longleftrightarrow> n = wt_matrix pt" for n
      using pt(2) world_matrix_unique [of par loc p n "wt_matrix pt"] by auto
    have iff: "world_matrix par loc i m \<longleftrightarrow>
        (\<exists>u. all_finite (compose_entries (wt_matrix pt) (wt_matrix t)) 0 = Some u \<and> m = wt_matrix u)" for m
      unfolding world_matrix_child_iff [of par, OF Some] t0 by (simp add: uniq)
    have "update_transform w parents overrides g i updates =
        bind_res (ok_or (TransformOverflow i) (compose pt t g)) (\<lambda>t'. Inr (bm_insert i t' updates))"
      using \<open>from_local (loc i) g = Some t\<close> Some pt(1)
      by (simp add: update_transform_def compose_world_transform_def loc par)
    then show ?thesis
      by (cases "list_all f64_is_finite (compose_entries (wt_matrix pt) (wt_matrix t))")
        (auto simp: compose_def all_finite_def iff)
  qed
qed

lemma transform_fold_result:
  assumes par: "bm_get parents = par" and loc: "\<forall>i\<in>set zs. effective_local_transform w overrides i = loc i"
    and prior: "dom (bm_get updates) = set ys" "transforms_good par loc g (bm_get updates)"
    and first: "\<forall>ys' x zs' p. ys @ zs = ys' @ x # zs' \<and> par x = Some p \<and> p \<in> set (ys @ zs) \<longrightarrow> p \<in> set ys'"
    and outer: "\<forall>x p. x \<in> set zs \<and> par x = Some p \<and> p \<notin> set (ys @ zs) \<longrightarrow>
      (\<exists>t. bm_get (w_world_transforms w) p = Some t \<and> world_matrix par loc p (wt_matrix t))"
  shows "case fold_res (update_transform w parents overrides g) zs updates of
      Inr u \<Rightarrow> dom (bm_get u) = set (ys @ zs) \<and> transforms_good par loc g (bm_get u)
    | Inl e \<Rightarrow> \<exists>x\<in>set zs. \<forall>m. \<not> world_matrix par loc x m"
  using loc prior first outer
proof (induction zs arbitrary: ys updates)
  case Nil
  from Nil.prems(2,3) show ?case by simp
next
  case (Cons x zs)
  have parent: "\<forall>p. par x = Some p \<longrightarrow>
      (\<exists>t. known_transform w updates p = Some t \<and> world_matrix par loc p (wt_matrix t))"
  proof (intro allI impI)
    fix p assume p: "par x = Some p"
    show "\<exists>t. known_transform w updates p = Some t \<and> world_matrix par loc p (wt_matrix t)"
    proof (cases "p \<in> set ys")
      case True
      then obtain t where "bm_get updates p = Some t" using Cons.prems(2) by blast
      with Cons.prems(3) show ?thesis by (auto simp: transforms_good_def)
    next
      case False
      then have "bm_get updates p = None" using Cons.prems(2) by blast
      moreover have "p \<notin> set (ys @ x # zs)" using Cons.prems(4) p False by blast
      then have "\<exists>t. bm_get (w_world_transforms w) p = Some t \<and> world_matrix par loc p (wt_matrix t)"
        using Cons.prems(5) p by auto
      ultimately show ?thesis by simp
    qed
  qed
  have "effective_local_transform w overrides x = loc x" using Cons.prems(1) by simp
  note res = update_transform_result [OF par this parent, of g]
  show ?case
  proof (cases "update_transform w parents overrides g x updates")
    case (Inl e)
    with res show ?thesis by auto
  next
    case (Inr u)
    with res obtain t where t: "u = bm_insert x t updates" "world_matrix par loc x (wt_matrix t)" "wt_generation t = g"
      by auto
    have eq: "(ys @ [x]) @ zs = ys @ x # zs" by simp
    have "case fold_res (update_transform w parents overrides g) zs u of
        Inr v \<Rightarrow> dom (bm_get v) = set ((ys @ [x]) @ zs) \<and> transforms_good par loc g (bm_get v)
      | Inl e \<Rightarrow> \<exists>x\<in>set zs. \<forall>m. \<not> world_matrix par loc x m"
    proof (rule Cons.IH)
      show "dom (bm_get u) = set (ys @ [x])" using t(1) Cons.prems(2) by simp
      show "transforms_good par loc g (bm_get u)" using t Cons.prems(3) by (simp add: transforms_good_def)
      show "\<forall>i\<in>set zs. effective_local_transform w overrides i = loc i" using Cons.prems(1) by simp
    qed (use Cons.prems(4,5) in \<open>unfold eq, simp_all only: list.set insert_iff, blast\<close>)
    then show ?thesis
      using Inr unfolding eq
      by (cases "fold_res (update_transform w parents overrides g) zs u") simp_all
  qed
qed

text \<open>
  Outside the descendants of the dirty roots nothing an entity's matrix depends on has
  changed, so the stored matrix is what a recomputation in the new scene would give.
\<close>

definition below_dirty ::
    "(stable_entity_id \<rightharpoonup> stable_entity_id) \<Rightarrow> stable_entity_id btree_set \<Rightarrow> stable_entity_id set" where
  "below_dirty par dirty = {x. \<exists>d\<in>bs_set dirty. (x, d) \<in> (parent_rel par)\<^sup>*}"

lemma below_dirty_parent: "par x = Some p \<Longrightarrow> p \<in> below_dirty par dirty \<Longrightarrow> x \<in> below_dirty par dirty"
proof -
  assume "par x = Some p" "p \<in> below_dirty par dirty"
  then have "(x, p) \<in> parent_rel par" "p \<in> below_dirty par dirty" by simp_all
  then show ?thesis unfolding below_dirty_def by (blast intro: converse_rtrancl_into_rtrancl)
qed

lemma dirty_in_below: "bs_set dirty \<subseteq> below_dirty par dirty"
  unfolding below_dirty_def by blast

lemma below_dirty_live:
  assumes "bs_set dirty \<subseteq> live" "\<forall>c p. par c = Some p \<longrightarrow> c \<in> live \<and> p \<in> live"
  shows "below_dirty par dirty \<subseteq> live"
proof
  fix x assume "x \<in> below_dirty par dirty"
  then obtain d where d: "d \<in> live" "(x, d) \<in> (parent_rel par)\<^sup>*" using assms(1) by (auto simp: below_dirty_def)
  from d(2) show "x \<in> live" by (cases rule: converse_rtranclE) (use d(1) assms(2) in auto)
qed

lemma untouched_transform:
  assumes w: "world_ok w" and dirty: "dirty_inv w dirty (ents, par)"
    and closed: "\<forall>c p. par c = Some p \<longrightarrow> c \<in> dom ents \<and> p \<in> dom ents"
    and x: "x \<in> dom ents" "x \<notin> below_dirty par dirty"
  shows "\<exists>t. bm_get (w_world_transforms w) x = Some t \<and> world_matrix par (local_of ents) x (wt_matrix t) \<and>
    wt_generation t \<le> w_transform_generation w"
proof -
  have ix: "index_part_ok w" and tr: "transform_part_ok w" using w by (simp_all add: world_ok_def)
  let ?P = "\<lambda>y. y \<in> dom ents \<and> y \<notin> below_dirty par dirty"
  have clean: "y \<notin> bs_set dirty" if "?P y" for y using that dirty_in_below [of dirty par] by blast
  have keep: "y \<in> dom (scene_entities w) \<and> par y = bm_get (w_parents w) y \<and>
      local_of ents y = local_of (scene_entities w) y" if "?P y" for y
    using dirty that clean [OF that] by (simp add: dirty_inv_def)
  have "x \<in> dom (bm_get (w_world_transforms w))"
    using keep [of x] x tr dom_scene_entities [OF ix] by (simp add: transform_part_ok_def)
  then obtain t where t: "bm_get (w_world_transforms w) x = Some t" by blast
  then have m: "world_matrix (bm_get (w_parents w)) (local_of (scene_entities w)) x (wt_matrix t)"
      and g: "wt_generation t \<le> w_transform_generation w"
    using tr by (simp_all add: transform_part_ok_def)
  from m have "world_matrix par (local_of ents) x (wt_matrix t)"
  proof (rule world_matrix_cong [where P = ?P])
    show "?P x" using x by blast
    show "par y = bm_get (w_parents w) y \<and> local_of ents y = local_of (scene_entities w) y" if "?P y" for y
      using keep [OF that] by blast
    show "?P p" if "?P y" "bm_get (w_parents w) y = Some p" for y p
    proof -
      have "par y = Some p" using that(2) keep [OF that(1)] by simp
      then show ?thesis using closed that(1) below_dirty_parent by blast
    qed
  qed
  with t g show ?thesis by blast
qed

section \<open>The plan of the transforms\<close>

definition scene_transforms_ok :: "scene \<Rightarrow> bool" where
  "scene_transforms_ok sc \<longleftrightarrow> (\<forall>i\<in>dom (fst sc). \<exists>m. world_matrix (snd sc) (local_of (fst sc)) i m)"

lemma affected_after_preflight:
  assumes w: "world_ok w" and inv: "preflight_inv w st (ents, par)"
    and hier: "hierarchy_ok (dom ents) par d"
  obtains xs where
    "affected_entities (cow_get (ps_parents st)) (rebuild_children (cow_get (ps_parents st))) (ps_dirty_roots st) = Some xs"
    "set xs = below_dirty par (ps_dirty_roots st)" "set xs \<subseteq> dom ents"
    "\<forall>ys x zs p. xs = ys @ x # zs \<and> par x = Some p \<and> p \<in> set xs \<longrightarrow> p \<in> set ys"
proof -
  have par: "bm_get (cow_get (ps_parents st)) = par"
    using preflight_invD(8) [OF inv] by (simp add: hierarchy_inv_def)
  have dirty: "bs_set (ps_dirty_roots st) \<subseteq> dom ents"
    using preflight_invD(6) [OF inv] by (simp add: dirty_inv_def)
  have deep: "\<exists>n. depth_of (bm_get (cow_get (ps_parents st))) x n" if "x \<in> bs_set (ps_dirty_roots st)" for x
    unfolding par using that dirty hier unfolding hierarchy_ok_def by blast
  show thesis
  proof (rule affected_entities_correct [OF child_set_rebuild deep])
    fix xs
    assume xs: "affected_entities (cow_get (ps_parents st))
        (rebuild_children (cow_get (ps_parents st))) (ps_dirty_roots st) = Some xs"
      "set xs = {x. \<exists>d\<in>bs_set (ps_dirty_roots st). (x, d) \<in> (parent_rel (bm_get (cow_get (ps_parents st))))\<^sup>*}"
      and first: "\<And>ys x zs p. xs = ys @ x # zs \<Longrightarrow> bm_get (cow_get (ps_parents st)) x = Some p \<Longrightarrow>
        p \<in> set xs \<Longrightarrow> p \<in> set ys"
    have set_xs: "set xs = below_dirty par (ps_dirty_roots st)"
      using xs(2) unfolding par below_dirty_def .
    have live: "set xs \<subseteq> dom ents"
      unfolding set_xs using dirty hier by (intro below_dirty_live) (simp_all add: hierarchy_ok_def)
    have "\<forall>ys x zs p. xs = ys @ x # zs \<and> par x = Some p \<and> p \<in> set xs \<longrightarrow> p \<in> set ys"
      by (intro allI impI, elim conjE) (rule first, simp_all only: par)
    from that [OF xs(1) set_xs live this] show thesis .
  qed
qed

lemma transform_plan_result:
  assumes w: "world_ok w" and inv: "preflight_inv w st (ents, par)"
    and hier: "hierarchy_ok (dom ents) par d"
    and xs: "set xs = below_dirty par (ps_dirty_roots st)" "set xs \<subseteq> dom ents"
      "\<forall>ys x zs p. xs = ys @ x # zs \<and> par x = Some p \<and> p \<in> set xs \<longrightarrow> p \<in> set ys"
  shows "case transform_plan w (cow_get (ps_parents st)) (ps_local_overrides st) xs of
      Inr (updates, g) \<Rightarrow> dom (bm_get updates) = set xs \<and>
        transforms_good par (local_of ents) g (bm_get updates) \<and> w_transform_generation w \<le> g \<and>
        unat g \<le> Suc (unat (w_transform_generation w))
    | Inl e \<Rightarrow> (e = TransformGenerationOverflow \<and> w_transform_generation w = - 1) \<or>
        \<not> scene_transforms_ok (ents, par)"
proof -
  have par: "bm_get (cow_get (ps_parents st)) = par"
    using preflight_invD(8) [OF inv] by (simp add: hierarchy_inv_def)
  have closed: "\<forall>c p. par c = Some p \<longrightarrow> c \<in> dom ents \<and> p \<in> dom ents"
    using hier by (simp add: hierarchy_ok_def)
  have loc: "\<forall>i\<in>set xs. effective_local_transform w (ps_local_overrides st) i = local_of ents i"
    using xs(2) preflight_invD(2) [OF inv] by blast
  have outer: "\<forall>x p. x \<in> set xs \<and> par x = Some p \<and> p \<notin> set ([] @ xs) \<longrightarrow>
      (\<exists>t. bm_get (w_world_transforms w) p = Some t \<and> world_matrix par (local_of ents) p (wt_matrix t))"
  proof (intro allI impI, elim conjE)
    fix x p assume p: "par x = Some p" "p \<notin> set ([] @ xs)"
    then have "p \<in> dom ents" "p \<notin> below_dirty par (ps_dirty_roots st)" using closed xs(1) by simp_all
    then show "\<exists>t. bm_get (w_world_transforms w) p = Some t \<and> world_matrix par (local_of ents) p (wt_matrix t)"
      using untouched_transform [OF w preflight_invD(6) [OF inv] closed, of p] by blast
  qed
  have first: "\<forall>ys x zs p. [] @ xs = ys @ x # zs \<and> par x = Some p \<and> p \<in> set ([] @ xs) \<longrightarrow> p \<in> set ys"
    using xs(3) unfolding append_Nil .
  have fold: "case fold_res (update_transform w (cow_get (ps_parents st)) (ps_local_overrides st) g) xs bm_empty of
      Inr u \<Rightarrow> dom (bm_get u) = set ([] @ xs) \<and> transforms_good par (local_of ents) g (bm_get u)
    | Inl e \<Rightarrow> \<exists>x\<in>set xs. \<forall>m. \<not> world_matrix par (local_of ents) x m" for g
    by (rule transform_fold_result [OF par loc _ _ first outer]) (simp_all add: transforms_good_def)
  have bad: "(\<exists>x\<in>set xs. \<forall>m. \<not> world_matrix par (local_of ents) x m) \<Longrightarrow> \<not> scene_transforms_ok (ents, par)"
    using xs(2) unfolding scene_transforms_ok_def fst_conv snd_conv by blast
  consider (none) "xs = []" | (over) "xs \<noteq> []" "checked_add (w_transform_generation w) 1 = None"
    | (some) g where "xs \<noteq> []" "checked_add (w_transform_generation w) 1 = Some g" by blast
  then show ?thesis
  proof cases
    case none
    then show ?thesis by (simp add: transform_plan_def transforms_good_def)
  next
    case over
    then have "unat (w_transform_generation w) + 1 \<ge> 2 ^ 64" by (simp add: checked_add_def split: if_splits)
    then have "unat (w_transform_generation w) = unat (- 1 :: u64)"
      using unat_bound [of "w_transform_generation w"] by (simp add: unat_max_word)
    then have "w_transform_generation w = - 1" by (simp only: unat_inj_iff)
    with over show ?thesis by (simp add: transform_plan_def)
  next
    case some
    have "w_transform_generation w \<le> g" "unat g \<le> Suc (unat (w_transform_generation w))"
      using checked_add_unat [OF some(2)] by (simp_all add: word_le_unat)
    with some fold [of g] bad show ?thesis
      by (cases "fold_res (update_transform w (cow_get (ps_parents st)) (ps_local_overrides st) g) xs bm_empty")
        (simp_all add: transform_plan_def)
  qed
qed

section \<open>The commit plan\<close>

definition plan_parents :: "authoritative_world \<Rightarrow> commit_plan \<Rightarrow> parent_map" where
  "plan_parents w plan = (case cp_parents plan of Some parents \<Rightarrow> parents | None \<Rightarrow> w_parents w)"

definition plan_transforms_ok :: "authoritative_world \<Rightarrow> scene \<Rightarrow> commit_plan \<Rightarrow> bool" where
  "plan_transforms_ok w sc plan \<longleftrightarrow>
     (\<forall>i\<in>dom (fst sc). \<exists>t. known_transform w (cp_transform_updates plan) i = Some t \<and>
        world_matrix (snd sc) (local_of (fst sc)) i (wt_matrix t) \<and>
        wt_generation t \<le> cp_transform_generation plan) \<and>
     dom (bm_get (cp_transform_updates plan)) \<subseteq> dom (fst sc) \<and>
     unat (cp_transform_generation plan) \<le> Suc (unat (w_transform_generation w))"

definition plan_ok ::
    "authoritative_world \<Rightarrow> scene \<Rightarrow> scene_operation list \<Rightarrow> scene_revision \<Rightarrow> commit_plan \<Rightarrow> bool" where
  "plan_ok w sc ops revision plan \<longleftrightarrow>
     cp_previous_revision plan = w_revision w \<and> cp_new_revision plan = revision \<and> cp_operations plan = ops \<and>
     bm_get (plan_parents w plan) = snd sc \<and>
     or_children w (cp_children plan) = rebuild_children (plan_parents w plan) \<and>
     plan_transforms_ok w sc plan \<and>
     render_inv w (cp_render_changed_ids plan) (fst sc) \<and>
     dom (bm_get (cp_transform_updates plan)) \<subseteq> bs_set (cp_render_changed_ids plan) \<and>
     pending_count w (cp_render_changed_ids plan) \<le> unat (wc_max_pending_render_changes (w_config w))"

abbreviation scene_hierarchy_ok :: "authoritative_world \<Rightarrow> scene \<Rightarrow> bool" where
  "scene_hierarchy_ok w sc \<equiv>
     hierarchy_ok (dom (fst sc)) (snd sc) (unat (wc_max_hierarchy_depth (w_config w)))"

text \<open>The errors that say that a counter or a bounded buffer of the world is exhausted.\<close>

fun out_of_room :: "world_apply_error \<Rightarrow> bool" where
  "out_of_room TransformGenerationOverflow = True"
| "out_of_room (RenderExtractionCapacityExceeded _) = True"
| "out_of_room RenderExtractionGenerationOverflow = True"
| "out_of_room (IdempotencyCapacityExceeded _) = True"
| "out_of_room WorldRevisionOverflow = True"
| "out_of_room _ = False"

text \<open>
  Room for a plan: the generation counter can advance, and the pending changes, the ids the
  operations changed and the live entities together fit the bound on pending changes.
\<close>

definition plan_room :: "authoritative_world \<Rightarrow> preflight_state \<Rightarrow> scene \<Rightarrow> bool" where
  "plan_room w st sc \<longleftrightarrow>
     w_transform_generation w \<noteq> - 1 \<and>
     card (bs_set (w_pending_render_changes w) \<union> (bs_set (ps_render_changed_ids st) \<union> dom (fst sc)))
       \<le> unat (wc_max_pending_render_changes (w_config w))"

lemma pending_count_room:
  assumes room: "plan_room w st sc" and sub: "dom (bm_get updates) \<subseteq> dom (fst sc)" "finite (dom (fst sc))"
  shows "pending_count w (render_changes st updates) \<le> unat (wc_max_pending_render_changes (w_config w))"
proof -
  let ?p = "bs_set (w_pending_render_changes w)" and ?c = "bs_set (ps_render_changed_ids st)"
  have "pending_count w (render_changes st updates) = card (?p \<union> (?c \<union> dom (bm_get updates)))"
    by (simp add: pending_count_def render_changes_def bs_len_card set_bs_keys del: set_bm_keys)
      (simp add: bs_set_def)
  also have "\<dots> \<le> card (?p \<union> (?c \<union> dom (fst sc)))" using sub by (intro card_mono) auto
  finally show ?thesis using room by (simp add: plan_room_def)
qed

lemma plan_transforms_known:
  assumes w: "world_ok w" and inv: "preflight_inv w st (ents, par)"
    and hier: "hierarchy_ok (dom ents) par d"
    and upd: "dom (bm_get updates) = below_dirty par (ps_dirty_roots st)"
      "transforms_good par (local_of ents) g (bm_get updates)" "w_transform_generation w \<le> g"
    and i: "i \<in> dom ents"
  shows "\<exists>t. known_transform w updates i = Some t \<and> world_matrix par (local_of ents) i (wt_matrix t) \<and>
    wt_generation t \<le> g"
proof (cases "bm_get updates i")
  case (Some t)
  with upd(2) show ?thesis by (simp add: transforms_good_def)
next
  case None
  have closed: "\<forall>c p. par c = Some p \<longrightarrow> c \<in> dom ents \<and> p \<in> dom ents"
    using hier by (simp add: hierarchy_ok_def)
  have "i \<notin> below_dirty par (ps_dirty_roots st)" using None upd(1) by blast
  from untouched_transform [OF w preflight_invD(6) [OF inv] closed i this]
  obtain t where t: "bm_get (w_world_transforms w) i = Some t" "world_matrix par (local_of ents) i (wt_matrix t)"
    "wt_generation t \<le> w_transform_generation w" by blast
  then have "wt_generation t \<le> g" using upd(3) by (rule_tac order_trans)
  with None t show ?thesis by simp
qed

lemma render_inv_mono: "render_inv w d ents \<Longrightarrow> bs_set d \<subseteq> bs_set e \<Longrightarrow> render_inv w e ents"
  unfolding render_inv_def by blast

lemma build_plan_ok:
  assumes inv: "preflight_inv w st (ents, par)"
    and kids: "or_children w rebuilt = rebuild_children (cow_get (ps_parents st))"
    and known: "plan_transforms_ok w (ents, par) plan" and up: "updates = (cp_transform_updates plan, cp_transform_generation plan)"
    and plan: "build_plan w st revision rebuilt updates = Inr plan"
  shows "plan_ok w (ents, par) (ps_operations st) revision plan"
proof -
  note parts = preflight_invD [OF inv]
  have parents: "plan_parents w plan = cow_get (ps_parents st)"
    using plan parts(8)
    by (cases "ps_parents st")
      (auto simp: build_plan_def plan_parents_def owned_parents_def hierarchy_inv_def split: if_splits)
  have "render_inv w (cp_render_changed_ids plan) ents"
    by (rule render_inv_mono [OF parts(7)])
      (use plan in \<open>auto simp: build_plan_def render_changes_def split: if_splits\<close>)
  moreover have "bm_get (cow_get (ps_parents st)) = par" using parts(8) by (simp add: hierarchy_inv_def)
  ultimately show ?thesis
    unfolding plan_ok_def parents using known kids plan
    by (auto simp: build_plan_def render_changes_def split: if_splits)
qed

lemma complete_preflight_result:
  assumes w: "world_ok w" and inv: "preflight_inv w st (ents, par)"
  shows "case complete_preflight w st revision of
      Inr plan \<Rightarrow> scene_hierarchy_ok w (ents, par) \<and> scene_transforms_ok (ents, par) \<and>
        plan_ok w (ents, par) (ps_operations st) revision plan
    | Inl e \<Rightarrow> \<exists>x. e = Err x \<and>
        (out_of_room x \<and> \<not> plan_room w st (ents, par) \<or> \<not> scene_hierarchy_ok w (ents, par) \<or>
         \<not> scene_transforms_ok (ents, par))"
proof (cases "plan_children w st")
  case (Inl e)
  with plan_children_ok [OF w inv] show ?thesis by (simp add: complete_preflight_def)
next
  case (Inr rebuilt)
  then have hier: "scene_hierarchy_ok w (ents, par)"
    and kids: "or_children w rebuilt = rebuild_children (cow_get (ps_parents st))"
    using plan_children_ok [OF w inv] by simp_all
  obtain xs where xs: "affected_entities (cow_get (ps_parents st))
        (rebuild_children (cow_get (ps_parents st))) (ps_dirty_roots st) = Some xs"
      "set xs = below_dirty par (ps_dirty_roots st)" "set xs \<subseteq> dom ents"
      "\<forall>ys x zs p. xs = ys @ x # zs \<and> par x = Some p \<and> p \<in> set xs \<longrightarrow> p \<in> set ys"
    by (rule affected_after_preflight [OF w inv hier [unfolded fst_conv snd_conv]])
  note plan = transform_plan_result [OF w inv hier [unfolded fst_conv snd_conv] xs(2-4)]
  show ?thesis
  proof (cases "transform_plan w (cow_get (ps_parents st)) (ps_local_overrides st) xs")
    case (Inl e)
    with plan have "out_of_room e \<and> \<not> plan_room w st (ents, par) \<or> \<not> scene_transforms_ok (ents, par)"
      by (auto simp: plan_room_def)
    with Inl Inr xs(1) kids show ?thesis
      by (simp add: complete_preflight_def plan_transform_updates_def)
  next
    case (Inr updates)
    obtain up g where up: "updates = (up, g)" by (cases updates)
    have upd: "dom (bm_get up) = below_dirty par (ps_dirty_roots st)"
        "transforms_good par (local_of ents) g (bm_get up)" "w_transform_generation w \<le> g"
      and gen: "unat g \<le> Suc (unat (w_transform_generation w))"
      using plan Inr xs(2) unfolding up by simp_all
    note known = plan_transforms_known [OF w inv hier [unfolded fst_conv snd_conv] upd]
    have ok: "scene_transforms_ok (ents, par)"
      using known unfolding scene_transforms_ok_def fst_conv snd_conv by blast
    have result: "complete_preflight w st revision = lift_res (build_plan w st revision rebuilt updates)"
      using Inr xs(1) kids \<open>plan_children w st = Inr rebuilt\<close>
      by (simp add: complete_preflight_def plan_transform_updates_def)
    show ?thesis
    proof (cases "build_plan w st revision rebuilt updates")
      case (Inl e)
      then have "out_of_room e" "\<not> plan_room w st (ents, par)"
        using pending_count_room [of w st "(ents, par)" up] upd(1) xs(2,3) preflight_invD(3) [OF inv]
        by (auto simp: build_plan_def up split: if_splits)
      with Inl result show ?thesis by simp
    next
      case (Inr p)
      then have p: "cp_transform_updates p = up" "cp_transform_generation p = g"
        by (auto simp: build_plan_def up split: if_splits)
      have "plan_transforms_ok w (ents, par) p"
        unfolding plan_transforms_ok_def fst_conv snd_conv p upd(1) using known xs(2,3) gen by blast
      from build_plan_ok [OF inv kids this _ Inr] p up hier ok Inr result
      show ?thesis by simp
    qed
  qed
qed

definition scene_accepts :: "authoritative_world \<Rightarrow> scene_operation list \<Rightarrow> scene \<Rightarrow> bool" where
  "scene_accepts w ops sc \<longleftrightarrow>
     scene_steps (world_capacity w) ops (scene_of w) = Some sc \<and> scene_hierarchy_ok w sc \<and>
     scene_transforms_ok sc"

lemma preflight_start_inv:
  assumes w: "world_ok w" and live: "word_of_len (bm_len (w_stable_index w)) = Some live"
  shows "preflight_inv w (preflight_start w live) (scene_of w)"
proof -
  have ix: "index_part_ok w" using w by (simp add: world_ok_def)
  have dom: "dom (scene_entities w) = dom (bm_get (w_stable_index w))" by (rule dom_scene_entities [OF ix])
  have "unat live = card (dom (scene_entities w))"
    using live unfolding dom bm_len_card [symmetric]
    by (auto simp: word_of_len_def unat_of_nat_small split: if_splits)
  moreover have "overlay_inv w bm_empty (scene_entities w)"
    unfolding overlay_inv_def overlay_state_def using stored_entity_state_ok [OF ix] by simp
  moreover have "effective_local_transform w bm_empty i = local_of (scene_entities w) i" for i
    using stored_local_transform_ok [OF ix] by (simp add: effective_local_transform_def)
  moreover have "finite (dom (scene_entities w))" "card (dom (scene_entities w)) \<le> world_capacity w"
    using ix unfolding dom by (simp_all add: index_part_ok_def)
  ultimately show ?thesis
    unfolding scene_of_def
    by (intro preflight_invI)
      (simp_all add: preflight_start_def dirty_inv_def render_inv_def hierarchy_inv_def)
qed

text \<open>How many ids and entities the operations of a patch can touch.\<close>

fun operation_target :: "scene_operation \<Rightarrow> stable_entity_id" where
  "operation_target (Create c) = create_entity_id c"
| "operation_target (Delete d) = delete_entity_id d"
| "operation_target (SetComponent s) = set_entity_id s"
| "operation_target (RemoveComponent r) = remove_entity_id r"
| "operation_target (Reparent r) = reparent_entity_id r"

lemma preflight_operation_changed:
  "preflight_operation w st op ix = Inr st' \<Longrightarrow>
     bs_set (ps_render_changed_ids st') \<subseteq> insert (operation_target op) (bs_set (ps_render_changed_ids st))"
  by (cases op)
    (auto simp: preflight_create_def preflight_delete_def preflight_set_def preflight_remove_def
      preflight_reparent_def res_simps create_state_def delete_state_def set_overlay_def
      note_render_change_def note_local_transform_def note_transform_removed_def reparent_state_def
      split: if_splits option.splits component_value.splits)

lemma preflight_operations_changed:
  "preflight_operations w position ops st = Inr st' \<Longrightarrow>
     bs_set (ps_render_changed_ids st') \<subseteq> bs_set (ps_render_changed_ids st) \<union> operation_target ` set ops"
proof (induction ops arbitrary: position st)
  case (Cons op ops)
  from Cons.prems obtain ix st1 where st1: "preflight_operation w st op ix = Inr st1"
      "preflight_operations w (Suc position) ops (push_operation op st1) = Inr st'"
    by (auto simp: res_simps split: option.splits)
  from preflight_operation_changed [OF st1(1)] Cons.IH [OF st1(2)] show ?case
    by (auto simp: push_operation_def)
qed simp

lemma scene_step_dom:
  "scene_step capacity op sc = Some sc' \<Longrightarrow> dom (fst sc') \<subseteq> insert (operation_target op) (dom (fst sc))"
  by (cases sc; cases op) (auto split: if_splits option.splits)

lemma scene_steps_dom:
  "scene_steps capacity ops sc = Some sc' \<Longrightarrow> dom (fst sc') \<subseteq> dom (fst sc) \<union> operation_target ` set ops"
proof (induction ops arbitrary: sc)
  case (Cons op ops)
  then obtain sc1 where sc1: "scene_step capacity op sc = Some sc1" "scene_steps capacity ops sc1 = Some sc'"
    by (auto split: option.splits)
  from scene_step_dom [OF sc1(1)] Cons.IH [OF sc1(2)] show ?case
    unfolding list.set image_insert by blast
qed simp

definition operations_room :: "authoritative_world \<Rightarrow> scene_operation list \<Rightarrow> bool" where
  "operations_room w ops \<longleftrightarrow>
     w_transform_generation w \<noteq> - 1 \<and>
     card (bs_set (w_pending_render_changes w) \<union> (operation_target ` set ops \<union> dom (bm_get (w_stable_index w))))
       \<le> unat (wc_max_pending_render_changes (w_config w))"

lemma operations_room_plan:
  assumes "operations_room w ops" "world_ok w"
    and "preflight_operations w position ops (preflight_start w live) = Inr st"
    and "scene_steps (world_capacity w) ops (scene_of w) = Some sc"
  shows "plan_room w st sc"
proof -
  have dom: "dom (scene_entities w) = dom (bm_get (w_stable_index w))"
    using assms(2) by (intro dom_scene_entities) (simp add: world_ok_def)
  have "bs_set (ps_render_changed_ids st) \<subseteq> operation_target ` set ops"
    using preflight_operations_changed [OF assms(3)] by (simp add: preflight_start_def)
  moreover have "dom (fst sc) \<subseteq> dom (bm_get (w_stable_index w)) \<union> operation_target ` set ops"
    using scene_steps_dom [OF assms(4)] by (simp add: scene_of_def dom)
  moreover have "finite (dom (bm_get (w_stable_index w)))" by (simp flip: set_bm_keys)
  ultimately have "card (bs_set (w_pending_render_changes w) \<union> (bs_set (ps_render_changed_ids st) \<union> dom (fst sc))) \<le>
      card (bs_set (w_pending_render_changes w) \<union> (operation_target ` set ops \<union> dom (bm_get (w_stable_index w))))"
    by (intro card_mono) auto
  with assms(1) show ?thesis by (simp add: plan_room_def operations_room_def)
qed

lemma preflight_result:
  assumes w: "world_ok w" and valid: "\<And>op. op \<in> set (patch_operations patch) \<Longrightarrow> operation_validate op = Inr ()"
    and len: "length (patch_operations patch) \<le> 2 ^ 32"
  shows "case preflight w patch revision of
      Inr plan \<Rightarrow> \<exists>sc. scene_accepts w (patch_operations patch) sc \<and>
        plan_ok w sc (patch_operations patch) revision plan
    | Inl e \<Rightarrow> \<exists>x. e = Err x \<and>
        (out_of_room x \<and> \<not> operations_room w (patch_operations patch) \<or>
         (\<forall>sc. \<not> scene_accepts w (patch_operations patch) sc))"
proof -
  let ?ops = "patch_operations patch"
  have "bm_len (w_stable_index w) < 2 ^ LENGTH(32)"
    using w unat_bound [of "wc_max_entities (w_config w)"]
    by (simp add: world_ok_def index_part_ok_def bm_len_card)
  then obtain live :: u32 where live: "word_of_len (bm_len (w_stable_index w)) = Some live"
    by (simp add: word_of_len_def)
  note ops = preflight_operations_refines [OF preflight_start_inv [OF w live] valid, of ?ops 0]
  show ?thesis
  proof (cases "preflight_operations w 0 ?ops (preflight_start w live)")
    case (Inl e)
    with ops len live show ?thesis by (auto simp: preflight_def scene_accepts_def)
  next
    case (Inr st)
    with ops len obtain sc where sc: "scene_steps (world_capacity w) ?ops (scene_of w) = Some sc"
        "preflight_inv w st sc" "ps_operations st = ?ops"
      by (auto simp: preflight_start_def)
    have room: "operations_room w ?ops \<Longrightarrow> plan_room w st sc"
      by (rule operations_room_plan [OF _ w Inr sc(1)])
    obtain ents par where e: "sc = (ents, par)" by (cases sc)
    have "preflight w patch revision = complete_preflight w st revision"
      using Inr live by (simp add: preflight_def)
    with complete_preflight_result [OF w sc(2) [unfolded e], of revision] sc(1,3) room show ?thesis
      by (cases "complete_preflight w st revision") (auto simp: scene_accepts_def e)
  qed
qed

end
