(* ===== verification/World_Apply.thy ===== *)
theory World_Apply
  imports World_Plan
begin

text \<open>
  The commit and the public operations of the world. The commit of a plan follows the steps
  of the scene without a panic, so applying a patch either rejects it and leaves the world
  as it was, or brings the world to the scene the operations describe; the invariant holds
  after every operation. The render extraction always succeeds and reports, in order of
  identity, everything that changed.
\<close>

section \<open>The commit follows the scene\<close>

definition same_but_storage :: "authoritative_world \<Rightarrow> authoritative_world \<Rightarrow> bool" where
  "same_but_storage w w' \<longleftrightarrow>
     w' = w\<lparr> w_storage := w_storage w', w_stable_index := w_stable_index w' \<rparr>"

lemma same_but_storage_refl [simp]: "same_but_storage w w"
  by (simp add: same_but_storage_def)

lemma same_but_storage_trans: "same_but_storage u v \<Longrightarrow> same_but_storage v w \<Longrightarrow> same_but_storage u w"
  unfolding same_but_storage_def by (cases u; cases v; cases w) simp

lemma same_but_storage_fields:
  assumes "same_but_storage w w'"
  shows "w_parents w' = w_parents w" "w_children w' = w_children w"
    "w_world_transforms w' = w_world_transforms w" "w_config w' = w_config w"
    "w_transform_generation w' = w_transform_generation w" "w_revision w' = w_revision w"
    "w_pending_render_changes w' = w_pending_render_changes w"
    "w_last_extracted_revision w' = w_last_extracted_revision w"
    "w_render_extraction_generation w' = w_render_extraction_generation w"
    "w_idempotency_records w' = w_idempotency_records w"
  using assms unfolding same_but_storage_def by (cases w; cases w'; simp)+

definition commit_follows ::
    "authoritative_world \<Rightarrow> (stable_entity_id \<rightharpoonup> component_bundle) \<Rightarrow> authoritative_world option \<Rightarrow> bool" where
  "commit_follows w ents r \<longleftrightarrow>
     (\<exists>w'. r = Some w' \<and> same_but_storage w w' \<and> index_part_ok w' \<and> scene_entities w' = ents)"

lemma index_part_okD:
  assumes "index_part_ok w"
  shows "storage_ok (w_storage w)"
    "index_ok (storage_row (w_storage w)) b_stable_id (bm_get (w_stable_index w))"
    "card (dom (bm_get (w_stable_index w))) \<le> world_capacity w"
  using assms by (simp_all add: index_part_ok_def)

lemma commit_create_follows:
  assumes ok: "index_part_ok w" and new: "create_entity_id c \<notin> dom (scene_entities w)"
    and room: "card (dom (scene_entities w)) < world_capacity w"
  shows "commit_follows w ((scene_entities w)(create_entity_id c \<mapsto> build_bundle c)) (commit_create w c)"
proof -
  let ?i = "create_entity_id c" and ?idx = "bm_get (w_stable_index w)"
  have dom: "dom (scene_entities w) = dom ?idx" by (rule dom_scene_entities [OF ok])
  have free: "?idx ?i = None" using new unfolding dom by (simp add: domIff)
  have "card (dom ?idx) < 2 ^ 32 - 1"
    using room unat_bound [of "wc_max_entities (w_config w)"] unfolding dom by simp
  then obtain h s where s: "storage_spawn (w_storage w) (build_bundle c) = Some (h, s)" "storage_ok s"
      "index_ok (storage_row s) b_stable_id (?idx(?i \<mapsto> h))"
      "index_view (storage_row s) (?idx(?i \<mapsto> h)) = (scene_entities w)(?i \<mapsto> build_bundle c)"
    using hecs.spawn_indexed [OF index_part_okD(1,2) [OF ok], of ?i "build_bundle c"] free
    unfolding scene_entities_def by auto
  have "card (dom (?idx(?i \<mapsto> h))) \<le> world_capacity w"
    using room free unfolding dom by (simp add: domIff)
  with s free show ?thesis
    by (simp add: commit_follows_def commit_create_def same_but_storage_def index_part_ok_def
        scene_entities_def)
qed

lemma commit_delete_follows:
  assumes ok: "index_part_ok w" and old: "delete_entity_id d \<in> dom (scene_entities w)"
  shows "commit_follows w ((scene_entities w)(delete_entity_id d := None)) (commit_delete w d)"
proof -
  let ?i = "delete_entity_id d" and ?idx = "bm_get (w_stable_index w)"
  obtain h where h: "?idx ?i = Some h" using old dom_scene_entities [OF ok] by blast
  from hecs.despawn_indexed [OF index_part_okD(1,2) [OF ok] h] obtain s where
      s: "storage_despawn (w_storage w) h = Some s" "storage_ok s"
      "index_ok (storage_row s) b_stable_id (?idx(?i := None))"
      "index_view (storage_row s) (?idx(?i := None)) = (scene_entities w)(?i := None)"
    unfolding scene_entities_def by auto
  have "card (dom (?idx(?i := None))) \<le> card (dom ?idx)" by (intro card_mono) auto
  then have "card (dom (?idx(?i := None))) \<le> world_capacity w"
    using index_part_okD(3) [OF ok] by (rule order_trans)
  with s h show ?thesis
    by (simp add: commit_follows_def commit_delete_def same_but_storage_def index_part_ok_def
        scene_entities_def)
qed

lemma commit_set_follows:
  assumes ok: "index_part_ok w" and b: "scene_entities w (set_entity_id s) = Some b"
  shows "commit_follows w ((scene_entities w)(set_entity_id s \<mapsto> bundle_put (set_component s) b)) (commit_set w s)"
proof -
  let ?i = "set_entity_id s" and ?idx = "bm_get (w_stable_index w)"
  obtain h where h: "?idx ?i = Some h" using b dom_scene_entities [OF ok] by blast
  from hecs.insert_indexed [OF index_part_okD(1,2) [OF ok] h, of "set_component s"] b obtain s' where
      s': "storage_insert_one (w_storage w) h (set_component s) = Some s'" "storage_ok s'"
      "index_ok (storage_row s') b_stable_id ?idx"
      "index_view (storage_row s') ?idx = (scene_entities w)(?i \<mapsto> bundle_put (set_component s) b)"
    unfolding scene_entities_def by auto
  with h index_part_okD(3) [OF ok] show ?thesis
    by (simp add: commit_follows_def commit_set_def same_but_storage_def index_part_ok_def
        scene_entities_def)
qed

lemma commit_remove_follows:
  assumes ok: "index_part_ok w" and b: "scene_entities w (remove_entity_id r) = Some b"
    and k: "bundle_get b (remove_component r) \<noteq> None"
  shows "commit_follows w ((scene_entities w)(remove_entity_id r \<mapsto> bundle_take (remove_component r) b)) (commit_remove w r)"
proof -
  let ?i = "remove_entity_id r" and ?idx = "bm_get (w_stable_index w)"
  obtain h where h: "?idx ?i = Some h" using b dom_scene_entities [OF ok] by blast
  from hecs.remove_indexed [OF index_part_okD(1,2) [OF ok] h b [unfolded scene_entities_def] k] obtain s' where
      s': "storage_remove_one (w_storage w) h (remove_component r) = Some s'" "storage_ok s'"
      "index_ok (storage_row s') b_stable_id ?idx"
      "index_view (storage_row s') ?idx = (scene_entities w)(?i \<mapsto> bundle_take (remove_component r) b)"
    unfolding scene_entities_def by auto
  with h index_part_okD(3) [OF ok] show ?thesis
    by (simp add: commit_follows_def commit_remove_def same_but_storage_def index_part_ok_def
        scene_entities_def)
qed

lemma commit_operation_follows:
  assumes ok: "index_part_ok w" and step: "scene_step (world_capacity w) op (scene_entities w, par) = Some (ents, par')"
  shows "commit_follows w ents (commit_operation w op)"
  using step
  by (cases op)
    (auto simp: commit_follows_def [of w _ "Some w"] ok not_le simp del: domIff not_None_eq
      intro!: commit_create_follows [OF ok] commit_delete_follows [OF ok] commit_set_follows [OF ok]
        commit_remove_follows [OF ok]
      split: if_splits option.splits)

lemma commit_operations_follows:
  assumes "index_part_ok w" "scene_steps (world_capacity w) ops (scene_entities w, par) = Some (ents, par')"
  shows "commit_follows w ents (commit_operations w ops)"
  using assms
proof (induction ops arbitrary: w par)
  case Nil
  then show ?case by (simp add: commit_follows_def)
next
  case (Cons op ops)
  from Cons.prems(2) obtain ents1 par1 where
      step: "scene_step (world_capacity w) op (scene_entities w, par) = Some (ents1, par1)"
    and rest: "scene_steps (world_capacity w) ops (ents1, par1) = Some (ents, par')"
    by (auto split: option.splits)
  obtain w1 where w1: "commit_operation w op = Some w1" "same_but_storage w w1" "index_part_ok w1"
      "scene_entities w1 = ents1"
    using commit_operation_follows [OF Cons.prems(1) step] by (auto simp: commit_follows_def)
  have "world_capacity w1 = world_capacity w" using same_but_storage_fields(4) [OF w1(2)] by simp
  with Cons.IH [OF w1(3), of par1] rest w1(4) have "commit_follows w1 ents (commit_operations w1 ops)" by simp
  with w1 show ?case by (auto simp: commit_follows_def intro: same_but_storage_trans)
qed

text \<open>The world after a commit, as far as its client can tell.\<close>

definition committed ::
    "authoritative_world \<Rightarrow> scene \<Rightarrow> commit_plan \<Rightarrow> authoritative_world \<Rightarrow> bool" where
  "committed w sc plan w' \<longleftrightarrow>
     scene_of w' = sc \<and> index_part_ok w' \<and> hierarchy_part_ok w' \<and> transform_part_ok w' \<and>
     w_config w' = w_config w \<and> w_revision w' = cp_new_revision plan \<and>
     bs_set (w_pending_render_changes w') =
       bs_set (w_pending_render_changes w) \<union> bs_set (cp_render_changed_ids plan) \<and>
     (\<forall>i. bm_get (w_world_transforms w') i =
        (if i \<in> dom (fst sc) then known_transform w (cp_transform_updates plan) i else None)) \<and>
     w_last_extracted_revision w' = w_last_extracted_revision w \<and>
     w_render_extraction_generation w' = w_render_extraction_generation w \<and>
     w_idempotency_records w' = w_idempotency_records w \<and>
     w_transform_generation w' = cp_transform_generation plan"

lemma commit_derived_transforms:
  assumes "dom (bm_get (cp_transform_updates plan)) \<subseteq> dom (bm_get (w_stable_index v))"
    and "w_world_transforms v = w_world_transforms w"
  shows "bm_get (w_world_transforms (commit_derived plan v)) i =
    (if i \<in> dom (bm_get (w_stable_index v)) then known_transform w (cp_transform_updates plan) i else None)"
proof (cases "bm_get (cp_transform_updates plan) i")
  case None
  then show ?thesis
    using assms(2) by (simp add: commit_derived_def bm_get_extend_entries map_add_def)
next
  case (Some t)
  then have "i \<in> dom (bm_get (w_stable_index v))" using assms(1) by blast
  with Some show ?thesis by (simp add: commit_derived_def bm_get_extend_entries map_add_def)
qed

lemma commit_derived_committed:
  assumes plan: "plan_ok w (ents, par) ops revision plan" and hier: "scene_hierarchy_ok w (ents, par)"
    and v: "same_but_storage w v" "index_part_ok v" "scene_entities v = ents"
  shows "committed w (ents, par) plan (commit_derived plan v)"
proof -
  let ?w = "commit_derived plan v"
  note same = same_but_storage_fields [OF v(1)]
  have dom: "dom (bm_get (w_stable_index v)) = dom ents" using dom_scene_entities [OF v(2)] v(3) by simp
  have pl: "bm_get (plan_parents w plan) = par" "or_children w (cp_children plan) = rebuild_children (plan_parents w plan)"
      "plan_transforms_ok w (ents, par) plan"
    using plan by (simp_all add: plan_ok_def)
  have parents: "w_parents ?w = plan_parents w plan" "w_children ?w = or_children w (cp_children plan)"
    by (simp_all add: commit_derived_def plan_parents_def or_children_def same split: option.split)
  have index: "w_stable_index ?w = w_stable_index v" "w_storage ?w = w_storage v" "w_config ?w = w_config w"
    by (simp_all add: commit_derived_def same)
  have ents: "scene_entities ?w = ents" using v(3) by (simp add: scene_entities_def index)
  have tr: "bm_get (w_world_transforms ?w) i =
      (if i \<in> dom ents then known_transform w (cp_transform_updates plan) i else None)" for i
    using commit_derived_transforms [of plan v w i] pl(3) same(3) by (simp add: dom plan_transforms_ok_def)
  have gen: "w_transform_generation ?w = cp_transform_generation plan" by (simp add: commit_derived_def)
  have "transform_part_ok ?w"
    unfolding transform_part_ok_def index dom ents gen parents pl(1)
  proof (intro conjI allI impI)
    show "dom (bm_get (w_world_transforms ?w)) = dom ents"
      using pl(3) tr by (fastforce simp: plan_transforms_ok_def dom_def split: if_splits)
    fix i t assume "bm_get (w_world_transforms ?w) i = Some t"
    then have "i \<in> dom ents" "known_transform w (cp_transform_updates plan) i = Some t"
      using tr [of i] by (simp_all split: if_splits)
    with pl(3) show "world_matrix par (local_of ents) i (wt_matrix t)"
      "wt_generation t \<le> cp_transform_generation plan"
      unfolding plan_transforms_ok_def fst_conv snd_conv by force+
  qed
  moreover have "index_part_ok ?w" using v(2) same(4) by (simp add: index_part_ok_def index)
  moreover have "hierarchy_part_ok ?w"
    using hier pl(1,2) by (simp add: hierarchy_part_ok_def index parents dom)
  moreover have "scene_of ?w = (ents, par)" by (simp add: scene_of_def ents parents pl)
  ultimately show ?thesis
    using tr by (simp add: committed_def index commit_derived_def [of plan v] same set_bs_keys del: set_bm_keys)
qed

lemma commit_ok:
  assumes w: "world_ok w" and acc: "scene_accepts w ops sc" and plan: "plan_ok w sc ops revision plan"
  shows "\<exists>w'. commit w plan = Some w' \<and> committed w sc plan w'"
proof -
  obtain ents par where e: "sc = (ents, par)" by (cases sc)
  have "scene_steps (world_capacity w) ops (scene_entities w, bm_get (w_parents w)) = Some (ents, par)"
    and hier: "scene_hierarchy_ok w (ents, par)"
    using acc by (simp_all add: scene_accepts_def scene_of_def e)
  moreover have "index_part_ok w" using w by (simp add: world_ok_def)
  ultimately have "commit_follows w ents (commit_operations w ops)"
    using commit_operations_follows by blast
  moreover have "cp_operations plan = ops" using plan by (simp add: plan_ok_def)
  ultimately obtain v where "commit w plan = Some (commit_derived plan v)" "same_but_storage w v"
      "index_part_ok v" "scene_entities v = ents"
    by (auto simp: commit_def commit_follows_def)
  with commit_derived_committed [OF plan [unfolded e] hier] show ?thesis unfolding e by blast
qed

section \<open>What a renderer may see\<close>

definition render_view :: "authoritative_world \<Rightarrow> stable_entity_id \<rightharpoonup> render_entity" where
  "render_view w i =
     (case (scene_entities w i, bm_get (w_world_transforms w) i) of
        (Some b, Some t) \<Rightarrow>
          (if render_components_empty (bundle_render_components b) then None
           else Some \<lparr> re_entity_id = i, re_world_transform = wt_matrix t,
                       re_world_transform_generation = wt_generation t,
                       re_components = bundle_render_components b \<rparr>)
      | _ \<Rightarrow> None)"

lemma render_view_id: "render_view w i = Some r \<Longrightarrow> re_entity_id r = i"
  by (auto simp: render_view_def split: option.splits if_splits)

lemma render_entity_of_view:
  assumes "world_ok w"
  shows "render_entity_of w i = Inr (render_view w i)"
proof (cases "bm_get (w_stable_index w) i")
  case None
  then have "scene_entities w i = None" by (simp add: scene_entities_def index_view_def)
  with None show ?thesis by (simp add: render_entity_of_def render_view_def)
next
  case (Some e)
  have ix: "index_part_ok w" and tr: "transform_part_ok w" using assms by (simp_all add: world_ok_def)
  obtain b where b: "storage_row (w_storage w) e = Some b" "scene_entities w i = Some b"
    by (rule scene_entities_row [OF ix Some])
  obtain t where t: "bm_get (w_world_transforms w) i = Some t"
    using Some tr unfolding transform_part_ok_def by blast
  then have "matrix_ok (wt_matrix t)"
    using tr unfolding transform_part_ok_def by (blast intro: world_matrix_ok)
  with Some b t show ?thesis
    by (simp add: render_entity_of_def render_view_def stored_render_components_def
        render_entity_new_def matrix_ok_def)
qed

lemma committed_view:
  assumes com: "committed w sc plan w'" and plan: "plan_ok w sc ops revision plan"
    and i: "i \<notin> bs_set (cp_render_changed_ids plan)"
  shows "render_view w' i = render_view w i"
proof -
  have ents: "scene_entities w' = fst sc" using com by (auto simp: committed_def scene_of_def)
  have same: "map_option bundle_render_components (fst sc i) =
      map_option bundle_render_components (scene_entities w i)"
    using plan i by (simp add: plan_ok_def render_inv_def)
  have "bm_get (cp_transform_updates plan) i = None" using plan i by (auto simp: plan_ok_def)
  then have tr: "bm_get (w_world_transforms w') i =
      (if i \<in> dom (fst sc) then bm_get (w_world_transforms w) i else None)"
    using com by (simp add: committed_def)
  show ?thesis
    by (cases "fst sc i"; cases "scene_entities w i")
      (use same tr in \<open>simp_all add: render_view_def ents domI split: option.split\<close>)
qed

section \<open>Applying a patch\<close>

definition patch_acceptable :: "authoritative_world \<Rightarrow> scene_patch \<Rightarrow> bool" where
  "patch_acceptable w patch \<longleftrightarrow>
     patch_validate patch (wc_runtime_limits (w_config w)) = Inr () \<and>
     (case bm_get (w_idempotency_records w) (patch_idempotency_key patch) of
        Some recorded \<Rightarrow> ra_transaction_id recorded = patch_transaction_id patch
      | None \<Rightarrow>
          (patch_conflict_policy patch = RequireExactBase \<longrightarrow> patch_base_revision patch = w_revision w) \<and>
          (\<exists>sc. scene_accepts w (patch_operations patch) sc))"

definition patch_room :: "authoritative_world \<Rightarrow> scene_patch \<Rightarrow> bool" where
  "patch_room w patch \<longleftrightarrow>
     w_render_extraction_generation w \<noteq> - 1 \<and> is_ok (checked_next (w_revision w)) \<and>
     bm_len (w_idempotency_records w) < unat (wc_max_idempotency_records (w_config w)) \<and>
     operations_room w (patch_operations patch)"

definition patch_applied ::
    "authoritative_world \<Rightarrow> scene_patch \<Rightarrow> apply_receipt \<Rightarrow> authoritative_world \<Rightarrow> bool" where
  "patch_applied w patch receipt w' \<longleftrightarrow>
     scene_accepts w (patch_operations patch) (scene_of w') \<and> world_ok w' \<and>
     checked_next (w_revision w) = Inr (w_revision w') \<and> w_config w' = w_config w \<and>
     receipt_previous_revision receipt = w_revision w \<and>
     receipt_new_revision receipt = w_revision w' \<and>
     receipt_status receipt = Applied \<and>
     receipt_transaction_id receipt = patch_transaction_id patch \<and>
     receipt_idempotency_key receipt = patch_idempotency_key patch \<and>
     unat (receipt_operation_count receipt) = length (patch_operations patch) \<and>
     bm_get (w_idempotency_records w') =
       (bm_get (w_idempotency_records w))(patch_idempotency_key patch \<mapsto>
         \<lparr> ra_transaction_id = patch_transaction_id patch, ra_receipt = receipt \<rparr>) \<and>
     w_last_extracted_revision w' = w_last_extracted_revision w \<and>
     w_render_extraction_generation w' = w_render_extraction_generation w \<and>
     unat (w_transform_generation w') \<le> Suc (unat (w_transform_generation w)) \<and>
     bs_set (w_pending_render_changes w) \<subseteq> bs_set (w_pending_render_changes w') \<and>
     (\<forall>i. i \<notin> bs_set (w_pending_render_changes w') \<longrightarrow> render_view w' i = render_view w i)"

lemma checked_next_less: "checked_next r = Inr s \<Longrightarrow> r < s"
  using checked_next_unat [of r s] by (simp add: less_scene_revision_def word_less_unat)

lemma record_apply_parts [simp]:
  "index_part_ok (record_apply patch r v) = index_part_ok v"
  "hierarchy_part_ok (record_apply patch r v) = hierarchy_part_ok v"
  "transform_part_ok (record_apply patch r v) = transform_part_ok v"
  by (simp_all add: index_part_ok_def hierarchy_part_ok_def transform_part_ok_def record_apply_def
      scene_entities_def)

lemma record_part_ok_record:
  assumes ok: "record_part_ok w" and same: "w_config v = w_config w" "w_idempotency_records v = w_idempotency_records w"
    and room: "bm_len (w_idempotency_records w) < unat (wc_max_idempotency_records (w_config w))"
    and le: "w_revision w \<le> w_revision v"
    and r: "receipt_idempotency_key r = patch_idempotency_key patch"
      "receipt_transaction_id r = patch_transaction_id patch" "receipt_status r = Applied"
      "receipt_new_revision r = w_revision v"
  shows "record_part_ok (record_apply patch r v)"
proof -
  have "bm_len (w_idempotency_records (record_apply patch r v)) \<le> Suc (bm_len (w_idempotency_records w))"
    using same by (simp add: bm_len_card record_apply_def card_insert_if)
  moreover have "x \<le> w_revision v" if "x \<le> w_revision w" for x
    using that le by (rule order_trans)
  ultimately show ?thesis
    using ok room r by (auto simp: record_part_ok_def record_apply_def same)
qed

lemma apply_plan_applied:
  assumes w: "world_ok w" and acc: "scene_accepts w (patch_operations patch) sc"
    and plan: "plan_ok w sc (patch_operations patch) revision plan"
    and nxt: "checked_next (w_revision w) = Inr revision"
    and ops: "patch_operations patch \<noteq> []" "length (patch_operations patch) < 2 ^ 32"
    and room: "bm_len (w_idempotency_records w) < unat (wc_max_idempotency_records (w_config w))"
  shows "\<exists>r w'. apply_plan w patch frame micros revision plan = (Inr r, w') \<and> patch_applied w patch r w'"
proof -
  obtain v where v: "commit w plan = Some v" "committed w sc plan v"
    using commit_ok [OF w acc plan] by blast
  have pl: "cp_operations plan = patch_operations patch" "cp_new_revision plan = revision"
      "cp_previous_revision plan = w_revision w"
    using plan by (simp_all add: plan_ok_def)
  define n where "n = (of_nat (length (patch_operations patch)) :: u32)"
  have un: "unat n = length (patch_operations patch)"
    unfolding n_def by (rule unat_of_nat_small) (use ops(2) in simp)
  then have n: "word_of_len (length (cp_operations plan)) = Some n" "n \<noteq> 0"
    using ops by (auto simp: pl word_of_len_def n_def)
  define r where "r = applied_receipt patch frame micros (w_revision w) revision n"
  have res: "apply_plan w patch frame micros revision plan = (Inr r, record_apply patch r v)"
    using n v(1) by (simp add: apply_plan_def pl r_def)
  let ?w = "record_apply patch r v"
  have scene: "scene_of ?w = sc" "render_view ?w = render_view v"
    using v(2) by (simp_all add: committed_def scene_of_def scene_entities_def record_apply_def render_view_def fun_eq_iff)
  note com = v(2) [unfolded committed_def]
  have less: "w_revision w < revision" by (rule checked_next_less [OF nxt])
  have pend: "bs_set (w_pending_render_changes ?w) =
      bs_set (w_pending_render_changes w) \<union> bs_set (cp_render_changed_ids plan)"
    using com by (simp add: record_apply_def)
  have "pending_count w (cp_render_changed_ids plan) = bm_len (w_pending_render_changes ?w)"
    unfolding bs_len_card pend by (simp add: pending_count_def bs_len_card set_bs_keys del: set_bm_keys)
  then have "extraction_part_ok ?w"
    using plan com w less
    by (auto simp: extraction_part_ok_def plan_ok_def world_ok_def record_apply_def)
  moreover have "record_part_ok ?w"
    by (rule record_part_ok_record [of w])
      (use com w less room in \<open>simp_all add: world_ok_def r_def applied_receipt_def pl\<close>)
  moreover have "index_part_ok ?w" "hierarchy_part_ok ?w" "transform_part_ok ?w"
    using com by simp_all
  ultimately have "world_ok ?w" by (simp add: world_ok_def)
  moreover have "render_view ?w i = render_view w i" if "i \<notin> bs_set (w_pending_render_changes ?w)" for i
    using committed_view [OF v(2) plan, of i] that pend scene(2) by simp
  moreover have "w_revision ?w = revision" "w_config ?w = w_config w"
      "w_last_extracted_revision ?w = w_last_extracted_revision w"
      "w_render_extraction_generation ?w = w_render_extraction_generation w"
      "w_transform_generation ?w = cp_transform_generation plan"
      "bm_get (w_idempotency_records ?w) = (bm_get (w_idempotency_records w))(patch_idempotency_key patch \<mapsto>
         \<lparr> ra_transaction_id = patch_transaction_id patch, ra_receipt = r \<rparr>)"
    using com by (simp_all add: record_apply_def pl)
  moreover have "receipt_previous_revision r = w_revision w" "receipt_new_revision r = revision"
      "receipt_status r = Applied" "receipt_transaction_id r = patch_transaction_id patch"
      "receipt_idempotency_key r = patch_idempotency_key patch" "receipt_operation_count r = n"
    by (simp_all add: r_def applied_receipt_def)
  moreover have "unat (cp_transform_generation plan) \<le> Suc (unat (w_transform_generation w))"
    using plan by (simp add: plan_ok_def plan_transforms_ok_def)
  ultimately have "patch_applied w patch r ?w"
    using acc nxt un pend unfolding patch_applied_def scene by simp
  with res show ?thesis by blast
qed

text \<open>
  Every outcome of a call: an error that leaves the world alone and says that some resource is
  exhausted or that the patch is not acceptable, the recorded receipt of an earlier call, or
  an applied patch.
\<close>

definition apply_outcome ::
    "authoritative_world \<Rightarrow> scene_patch \<Rightarrow> apply_receipt world_result \<times> authoritative_world \<Rightarrow> bool" where
  "apply_outcome w patch res \<longleftrightarrow>
     (case fst res of
        Inl e \<Rightarrow> snd res = w \<and> (\<exists>x. e = Err x \<and> (out_of_room x \<and> \<not> patch_room w patch \<or> \<not> patch_acceptable w patch))
      | Inr r \<Rightarrow> patch_acceptable w patch \<and>
          (case bm_get (w_idempotency_records w) (patch_idempotency_key patch) of
             Some recorded \<Rightarrow> snd res = w \<and> r = (ra_receipt recorded)\<lparr> receipt_status := IdempotentReplay \<rparr>
           | None \<Rightarrow> patch_applied w patch r (snd res)))"

abbreviation operation_limit_ok :: "authoritative_world \<Rightarrow> bool" where
  "operation_limit_ok w \<equiv> max_operations (wc_runtime_limits (w_config w)) < - 1"

lemma apply_new_outcome:
  assumes w: "world_ok w" and lim: "operation_limit_ok w"
    and valid: "patch_validate patch (wc_runtime_limits (w_config w)) = Inr ()"
    and fresh: "bm_get (w_idempotency_records w) (patch_idempotency_key patch) = None"
  shows "apply_outcome w patch (apply_new w patch frame micros)"
proof -
  let ?ops = "patch_operations patch"
  consider (rejected) e where "apply_new w patch frame micros = (err e, w)"
      "out_of_room e \<and> \<not> patch_room w patch \<or> patch_conflict_policy patch = RequireExactBase \<and> patch_base_revision patch \<noteq> w_revision w"
    | (plan) revision where "checked_next (w_revision w) = Inr revision"
      "bm_len (w_idempotency_records w) < unat (wc_max_idempotency_records (w_config w))"
      "patch_conflict_policy patch = RequireExactBase \<longrightarrow> patch_base_revision patch = w_revision w"
      "apply_new w patch frame micros = (case preflight w patch revision of
         Inl e \<Rightarrow> (Inl e, w) | Inr plan \<Rightarrow> apply_plan w patch frame micros revision plan)"
    by (cases "checked_next (w_revision w)")
      (fastforce simp: apply_new_def patch_room_def not_le split: if_splits)+
  then show ?thesis
  proof cases
    case rejected
    then show ?thesis by (auto simp: apply_outcome_def patch_acceptable_def fresh)
  next
    case plan
    have len: "length ?ops < 2 ^ 32"
      using patch_validate_operations(3) [OF valid lim] unat_bound [of "max_operations (wc_runtime_limits (w_config w))"]
      by simp
    have pre: "case preflight w patch revision of
        Inr plan \<Rightarrow> \<exists>sc. scene_accepts w ?ops sc \<and> plan_ok w sc ?ops revision plan
      | Inl e \<Rightarrow> \<exists>x. e = Err x \<and>
          (out_of_room x \<and> \<not> operations_room w ?ops \<or> (\<forall>sc. \<not> scene_accepts w ?ops sc))"
      by (rule preflight_result [OF w patch_validate_operations(1) [OF valid]]) (use len in simp_all)
    show ?thesis
    proof (cases "preflight w patch revision")
      case (Inl e)
      with pre plan(4) show ?thesis
        by (auto simp: apply_outcome_def patch_acceptable_def patch_room_def fresh)
    next
      case (Inr pl)
      with pre obtain sc where sc: "scene_accepts w ?ops sc" "plan_ok w sc ?ops revision pl" by auto
      from apply_plan_applied [OF w sc plan(1) patch_validate_operations(2) [OF valid] len plan(2)]
      obtain r w' where "apply_plan w patch frame micros revision pl = (Inr r, w')" "patch_applied w patch r w'"
        by blast
      with Inr plan(3,4) sc(1) valid show ?thesis
        by (cases sc) (auto simp: apply_outcome_def patch_acceptable_def fresh)
    qed
  qed
qed

lemma apply_patch_outcome:
  assumes w: "world_ok w" and lim: "operation_limit_ok w"
  shows "apply_outcome w patch (apply_patch w patch frame micros)"
proof (cases "patch_validate patch (wc_runtime_limits (w_config w))")
  case (Inl e)
  then show ?thesis by (simp add: apply_patch_def apply_outcome_def patch_acceptable_def)
next
  case (Inr u)
  show ?thesis
  proof (cases "bm_get (w_idempotency_records w) (patch_idempotency_key patch)")
    case None
    with Inr show ?thesis using apply_new_outcome [OF w lim _ None] by (simp add: apply_patch_def)
  next
    case (Some recorded)
    with Inr show ?thesis by (simp add: apply_patch_def apply_outcome_def patch_acceptable_def)
  qed
qed

section \<open>The invariant check and the render extraction\<close>

lemma check_index_ok:
  "(\<And>i e. (i, e) \<in> set xs \<Longrightarrow> storage_contains (w_storage w) e \<and> stored_id_matches (w_storage w) e i \<and>
     i \<in> dom (bm_get (w_world_transforms w))) \<Longrightarrow> check_index w xs = Inr ()"
  by (induction xs rule: check_index.induct) auto

lemma check_transforms_ok:
  "(\<And>i. i \<in> set xs \<Longrightarrow> i \<in> dom (bm_get (w_stable_index w))) \<Longrightarrow> check_transforms w xs = Inr ()"
  by (induction xs) auto

lemma check_parents_ok:
  "(\<And>c p. (c, p) \<in> set xs \<Longrightarrow> c \<in> dom (bm_get (w_stable_index w)) \<and> p \<in> dom (bm_get (w_stable_index w)) \<and>
     (\<exists>s. bm_get (w_children w) p = Some s \<and> c \<in> bs_set s)) \<Longrightarrow> check_parents w xs = Inr ()"
proof (induction xs)
  case (Cons x xs)
  obtain c p where x: "x = (c, p)" by (cases x)
  from Cons.prems [of c p] have "c \<in> dom (bm_get (w_stable_index w))" "p \<in> dom (bm_get (w_stable_index w))"
    and "\<exists>s. bm_get (w_children w) p = Some s \<and> c \<in> bs_set s" by (simp_all add: x)
  moreover from this(3) have "case bm_get (w_children w) p of None \<Rightarrow> False | Some s \<Rightarrow> bs_mem s c"
    by (auto simp: bs_set_def)
  moreover have "check_parents w xs = Inr ()" by (rule Cons.IH) (rule Cons.prems, simp)
  ultimately show ?case by (simp add: x)
qed simp

lemma child_listed:
  assumes "w_children w = rebuild_children (w_parents w)" "bm_get (w_parents w) c = Some p"
  shows "\<exists>s. bm_get (w_children w) p = Some s \<and> c \<in> bs_set s"
proof -
  have "c \<in> child_set (w_children w) p" using assms by (simp add: child_set_rebuild children_of_def)
  then show ?thesis
    by (cases "bm_get (w_children w) p") (simp_all add: child_set_None child_set_get)
qed

lemma validate_invariants_ok:
  assumes w: "world_ok w"
  shows "validate_invariants w = Inr ()"
proof -
  have ix: "index_part_ok w" and hier: "hierarchy_part_ok w" and tr: "transform_part_ok w"
    using w by (simp_all add: world_ok_def)
  have count: "unat (st_len (w_storage w)) = bm_len (w_stable_index w)"
    using hecs.index_count [OF index_part_okD(1,2) [OF ix]] by (simp add: bm_len_card)
  have "check_index w (bm_entries (w_stable_index w)) = Inr ()"
  proof (rule check_index_ok)
    fix i e assume "(i, e) \<in> set (bm_entries (w_stable_index w))"
    then have i: "bm_get (w_stable_index w) i = Some e" by (simp add: set_bm_entries)
    obtain b where "storage_row (w_storage w) e = Some b" "b_stable_id b = Some i"
      by (rule scene_entities_row [OF ix i])
    with i tr show "storage_contains (w_storage w) e \<and> stored_id_matches (w_storage w) e i \<and>
        i \<in> dom (bm_get (w_world_transforms w))"
      by (simp add: storage_contains_def stored_id_matches_def transform_part_ok_def domI)
  qed
  moreover have "check_transforms w (bm_keys (w_world_transforms w)) = Inr ()"
    by (rule check_transforms_ok) (use tr in \<open>simp add: transform_part_ok_def\<close>)
  moreover have "check_parents w (bm_entries (w_parents w)) = Inr ()"
  proof (rule check_parents_ok)
    fix c p assume "(c, p) \<in> set (bm_entries (w_parents w))"
    then have p: "bm_get (w_parents w) c = Some p" by (simp add: set_bm_entries)
    then have "c \<in> dom (bm_get (w_stable_index w)) \<and> p \<in> dom (bm_get (w_stable_index w))"
      using hier unfolding hierarchy_part_ok_def hierarchy_ok_def by blast
    moreover have "\<exists>s. bm_get (w_children w) p = Some s \<and> c \<in> bs_set s"
      using hier p by (intro child_listed) (simp_all add: hierarchy_part_ok_def)
    ultimately show "c \<in> dom (bm_get (w_stable_index w)) \<and> p \<in> dom (bm_get (w_stable_index w)) \<and>
        (\<exists>s. bm_get (w_children w) p = Some s \<and> c \<in> bs_set s)" by blast
  qed
  moreover have "sum_list (map bm_len (bm_values (w_children w))) = bm_len (w_parents w)"
    using hier by (simp add: hierarchy_part_ok_def rebuild_children_count)
  moreover have "is_ok (hierarchy_depths (live_ids w) (w_parents w) (wc_max_hierarchy_depth (w_config w)))"
    using hier hierarchy_depths_Inr_iff [of "live_ids w" "w_parents w"]
    by (simp add: is_ok_iff hierarchy_part_ok_def live_ids_def)
  ultimately show ?thesis using count by (simp add: validate_invariants_def)
qed

definition change_of_view :: "authoritative_world \<Rightarrow> stable_entity_id \<Rightarrow> render_change" where
  "change_of_view w i = (case render_view w i of Some r \<Rightarrow> Upsert r | None \<Rightarrow> Remove i)"

lemma change_of_view_id [simp]: "render_change_entity_id (change_of_view w i) = i"
  by (auto simp: change_of_view_def render_view_id split: option.split)

lemma collect_changes_view:
  assumes "world_ok w"
  shows "collect_changes w is = Inr (map (change_of_view w) is)"
  by (induction "is")
    (simp_all add: render_change_of_def render_entity_of_view [OF assms] change_of_view_def)

lemma take_render_extraction_ok:
  assumes w: "world_ok w"
  shows "take_render_extraction w =
    (case checked_add (w_render_extraction_generation w) 1 of
       None \<Rightarrow> (Inl GenerationOverflow, w)
     | Some g \<Rightarrow>
         (Inr \<lparr> rx_generation = g, rx_base_revision = w_last_extracted_revision w,
                rx_scene_revision = w_revision w,
                rx_changes = map (change_of_view w) (bm_keys (w_pending_render_changes w)) \<rparr>,
          finish_extraction w g))"
proof -
  have "w_last_extracted_revision w \<le> w_revision w" using w by (simp add: world_ok_def extraction_part_ok_def)
  moreover have "map (render_change_entity_id \<circ> change_of_view w) (bm_keys (w_pending_render_changes w)) =
      bm_keys (w_pending_render_changes w)"
    by (simp add: comp_def)
  ultimately have "render_extraction_new g (w_last_extracted_revision w) (w_revision w)
      (map (change_of_view w) (bm_keys (w_pending_render_changes w))) =
    Inr \<lparr> rx_generation = g, rx_base_revision = w_last_extracted_revision w, rx_scene_revision = w_revision w,
          rx_changes = map (change_of_view w) (bm_keys (w_pending_render_changes w)) \<rparr>" for g
    by (intro render_extraction_new_ok) (simp_all add: sorted_bm_keys)
  then show ?thesis
    by (simp add: take_render_extraction_def validate_invariants_ok [OF w] build_extraction_def
        collect_changes_view [OF w] split: option.split)
qed

lemma finish_extraction_ok: "world_ok w \<Longrightarrow> world_ok (finish_extraction w g)"
  by (simp add: world_ok_def index_part_ok_def hierarchy_part_ok_def transform_part_ok_def
      record_part_ok_def extraction_part_ok_def finish_extraction_def scene_entities_def)

end
