(* ===== verification/World_Properties.thy ===== *)
theory World_Properties
  imports World_Apply
begin

text \<open>
  Runs of a world and what holds along them. A run starts with an empty world and an empty
  renderer; its steps apply a patch, whatever the outcome, or hand an extraction to the
  renderer, which folds the changes into its own copy of the scene.
\<close>

section \<open>Runs\<close>

type_synonym render_mirror = "stable_entity_id \<rightharpoonup> render_entity"

fun mirror_change :: "render_change \<Rightarrow> render_mirror \<Rightarrow> render_mirror" where
  "mirror_change (Upsert r) m = m(re_entity_id r \<mapsto> r)"
| "mirror_change (Remove i) m = m(i := None)"

definition mirror_changes :: "render_change list \<Rightarrow> render_mirror \<Rightarrow> render_mirror" where
  "mirror_changes cs m = fold mirror_change cs m"

inductive world_step ::
    "authoritative_world \<times> render_mirror \<Rightarrow> authoritative_world \<times> render_mirror \<Rightarrow> bool" where
  apply_step: "world_step (w, m) (snd (apply_patch w patch frame micros), m)"
| extract_step: "take_render_extraction w = (Inr x, w') \<Longrightarrow>
    world_step (w, m) (w', mirror_changes (rx_changes x) m)"

inductive_cases world_stepE: "world_step s s'"

abbreviation world_run ::
    "world_config \<Rightarrow> authoritative_world \<times> render_mirror \<Rightarrow> bool" where
  "world_run config \<equiv> world_step\<^sup>*\<^sup>* (world_new config, Map.empty)"

definition run_inv :: "world_config \<Rightarrow> authoritative_world \<times> render_mirror \<Rightarrow> bool" where
  "run_inv config s \<longleftrightarrow>
     world_ok (fst s) \<and> w_config (fst s) = config \<and>
     (\<forall>i. i \<notin> bs_set (w_pending_render_changes (fst s)) \<longrightarrow> snd s i = render_view (fst s) i)"

lemma mirror_changes_view:
  "mirror_changes (map (change_of_view w) is) m =
     (\<lambda>i. if i \<in> set is then render_view w i else m i)"
proof (induction "is" arbitrary: m)
  case (Cons j js)
  have "mirror_change (change_of_view w j) m = m(j := render_view w j)"
    by (auto simp: change_of_view_def render_view_id split: option.split)
  with Cons show ?case by (auto simp: mirror_changes_def)
qed (simp add: mirror_changes_def)

lemma render_view_finish [simp]: "render_view (finish_extraction w g) = render_view w"
  by (simp add: render_view_def finish_extraction_def scene_entities_def fun_eq_iff)

lemma apply_patch_run_inv:
  assumes inv: "run_inv config (w, m)" and lim: "max_operations (wc_runtime_limits config) < - 1"
  shows "run_inv config (snd (apply_patch w patch frame micros), m)"
proof -
  have w: "world_ok w" "operation_limit_ok w" using inv lim by (simp_all add: run_inv_def)
  obtain r w' where rw: "apply_patch w patch frame micros = (r, w')" by (cases "apply_patch w patch frame micros")
  have "apply_outcome w patch (r, w')" using apply_patch_outcome [OF w] rw by metis
  then consider "w' = w" | x where "patch_applied w patch x w'"
    by (auto simp: apply_outcome_def split: sum.splits option.splits)
  then show ?thesis
    unfolding rw using inv by cases (auto simp: run_inv_def patch_applied_def)
qed

lemma extract_run_inv:
  assumes inv: "run_inv config (w, m)" and x: "take_render_extraction w = (Inr x, w')"
  shows "run_inv config (w', mirror_changes (rx_changes x) m)"
    and "mirror_changes (rx_changes x) m = render_view w"
    and "w' = finish_extraction w (rx_generation x)"
proof -
  have w: "world_ok w" using inv by (simp add: run_inv_def)
  from x obtain g where g: "w' = finish_extraction w g" "rx_generation x = g"
      "rx_changes x = map (change_of_view w) (bm_keys (w_pending_render_changes w))"
    by (auto simp: take_render_extraction_ok [OF w] split: option.splits)
  then show "w' = finish_extraction w (rx_generation x)" by simp
  show view: "mirror_changes (rx_changes x) m = render_view w"
    unfolding g(3) mirror_changes_view using inv
    by (auto simp: run_inv_def fun_eq_iff bs_set_def)
  have "w_config w' = config" using inv by (simp add: g run_inv_def finish_extraction_def)
  then show "run_inv config (w', mirror_changes (rx_changes x) m)"
    unfolding view using finish_extraction_ok [OF w] by (simp add: run_inv_def g)
qed

lemma world_run_inv:
  assumes "world_run config s" "max_operations (wc_runtime_limits config) < - 1"
  shows "run_inv config s"
  using assms(1)
proof (induction rule: rtranclp_induct)
  case base
  show ?case
    by (simp add: run_inv_def world_new_ok_parts)
      (simp add: world_new_def render_view_def scene_entities_def index_view_def)
next
  case (step s t)
  from step.hyps(2) step.IH show ?case
    by (cases rule: world_step.cases) (simp_all add: apply_patch_run_inv [OF _ assms(2)] extract_run_inv(1))
qed

section \<open>An example\<close>

text \<open>A patch that creates a named entity and a child of it.\<close>

definition example_patch :: scene_patch where
  "example_patch =
     \<lparr> patch_schema_version = V1, patch_transaction_id = TransactionId 1,
       patch_idempotency_key = IdempotencyKey 2, patch_base_revision = INITIAL,
       patch_conflict_policy = RequireExactBase, patch_delivery = MustApply,
       patch_declared_budget = patch_budget_default,
       patch_operations =
         [Create \<lparr> create_entity_id = StableEntityId 1,
                   create_components = [Name \<lparr> name_value = SceneText [65] \<rparr>] \<rparr>,
          Create \<lparr> create_entity_id = StableEntityId 2, create_components = [] \<rparr>,
          Reparent \<lparr> reparent_entity_id = StableEntityId 2,
                     reparent_parent_id = Some (StableEntityId 1) \<rparr>] \<rparr>"

abbreviation example_start :: authoritative_world where
  "example_start \<equiv> world_new world_config_default"

abbreviation example_result :: "apply_receipt world_result \<times> authoritative_world" where
  "example_result \<equiv> apply_patch example_start example_patch (FrameId 1) (0, 0)"

lemma example_validates: "patch_validate example_patch runtime_limits_default = Inr ()"
  by (simp add: patch_validate_def example_patch_def validate_schema_def
      patch_validate_operation_count_def patch_validate_counts_def runtime_limits_default_def
      patch_budget_default_def len_or_max_def saturating_add_def patch_logical_size_bytes_def len_bytes_def)

lemma example_limit: "max_operations (wc_runtime_limits world_config_default) < - 1"
  by (simp add: world_config_default_def runtime_limits_default_def)

lemma scene_of_new [simp]: "scene_of (world_new config) = (Map.empty, Map.empty)"
  by (simp add: scene_of_def scene_entities_def world_new_def index_view_def fun_eq_iff)

lemma world_new_fields [simp]:
  "w_config (world_new config) = config" "w_revision (world_new config) = INITIAL"
  by (simp_all add: world_new_def)

lemma example_capacity: "unat (wc_max_entities world_config_default) = 65536"
  by (simp add: world_config_default_def)

lemma example_scene:
  "scene_steps (world_capacity example_start) (patch_operations example_patch) (scene_of example_start) =
     Some ([StableEntityId 1 \<mapsto> build_bundle \<lparr> create_entity_id = StableEntityId 1,
                                       create_components = [Name \<lparr> name_value = SceneText [65] \<rparr>] \<rparr>,
            StableEntityId 2 \<mapsto> build_bundle \<lparr> create_entity_id = StableEntityId 2, create_components = [] \<rparr>],
           [StableEntityId 2 \<mapsto> StableEntityId 1])"
  by (simp add: example_patch_def world_config_default_def)

lemma example_accepts: "\<exists>sc. scene_accepts example_start (patch_operations example_patch) sc"
proof -
  let ?par = "[StableEntityId 2 \<mapsto> StableEntityId 1]"
  have d1: "depth_of ?par (StableEntityId 1) 0" by (rule depth_root) simp
  have d2: "depth_of ?par (StableEntityId 2) (Suc 0)" by (rule depth_child [OF _ d1]) simp
  have m1: "world_matrix ?par loc (StableEntityId 1) IDENTITY_MATRIX" if "loc (StableEntityId 1) = None" for loc
    using matrix_root [of ?par "StableEntityId 1" loc "identity 0"] that
    by (simp add: from_local_def identity_def)
  have m2: "world_matrix ?par loc (StableEntityId 2) IDENTITY_MATRIX"
    if "loc (StableEntityId 1) = None" "loc (StableEntityId 2) = None" for loc
    using matrix_child [of ?par "StableEntityId 2" "StableEntityId 1" loc IDENTITY_MATRIX "identity 0" "identity 0"]
      m1 [of loc, OF that(1)] that(2) compose_identity [of 0 0 0]
    by (simp add: from_local_def identity_def compose_def)
  define ents where "ents =
    [StableEntityId 1 \<mapsto> build_bundle \<lparr> create_entity_id = StableEntityId 1,
                                create_components = [Name \<lparr> name_value = SceneText [65] \<rparr>] \<rparr>,
     StableEntityId 2 \<mapsto> build_bundle \<lparr> create_entity_id = StableEntityId 2, create_components = [] \<rparr>]"
  have dom: "dom ents = {StableEntityId 1, StableEntityId 2}" by (auto simp: ents_def)
  have loc: "local_of ents (StableEntityId 1) = None" "local_of ents (StableEntityId 2) = None"
    by (simp_all add: ents_def local_of_def build_bundle_def empty_bundle_def)
  have "hierarchy_ok (dom ents) ?par (unat (wc_max_hierarchy_depth world_config_default))"
    unfolding hierarchy_ok_def dom using d1 d2
    by (auto simp: world_config_default_def intro: exI [of _ 0] exI [of _ "Suc 0"])
  moreover have "scene_transforms_ok (ents, ?par)"
    using m1 [of "local_of ents", OF loc(1)] m2 [of "local_of ents", OF loc]
    by (auto simp: scene_transforms_ok_def dom)
  ultimately have "scene_accepts example_start (patch_operations example_patch) (ents, ?par)"
    using example_scene [folded ents_def] unfolding scene_accepts_def world_new_fields fst_conv snd_conv by blast
  then show ?thesis by blast
qed

lemma example_acceptable: "patch_acceptable example_start example_patch"
  using example_accepts example_validates
  by (simp add: patch_acceptable_def world_new_def world_config_default_def example_patch_def)

lemma example_room: "patch_room example_start example_patch"
  by (simp add: patch_room_def operations_room_def world_new_def world_config_default_def bs_set_def
      example_patch_def checked_next_def checked_add_def card_insert_if)

lemma example_run: "world_run world_config_default (snd example_result, Map.empty)"
  by (rule r_into_rtranclp) (rule apply_step)

lemma example_applied:
  obtains r where "example_result = (Inr r, snd example_result)" "receipt_status r = Applied"
proof -
  have "apply_outcome example_start example_patch example_result"
    by (rule apply_patch_outcome) (simp_all add: world_new_ok_parts example_limit)
  moreover have "bm_get (w_idempotency_records example_start) (patch_idempotency_key example_patch) = None"
    by (simp add: world_new_def)
  ultimately obtain r where "fst example_result = Inr r" "patch_applied example_start example_patch r (snd example_result)"
    using example_acceptable example_room by (auto simp: apply_outcome_def split: sum.splits)
  then show thesis by (intro that [of r]) (simp_all add: patch_applied_def prod_eq_iff)
qed

lemma example_generation: "w_render_extraction_generation (snd example_result) = 0"
proof -
  have "apply_outcome example_start example_patch example_result"
    by (rule apply_patch_outcome) (simp_all add: world_new_ok_parts example_limit)
  then show ?thesis
    by (auto simp: apply_outcome_def patch_applied_def world_new_def split: sum.splits option.splits)
qed

lemma checked_add_one:
  fixes n :: u64
  assumes "n \<noteq> - 1"
  obtains m where "checked_add n 1 = Some m"
proof -
  have "unat n \<noteq> 2 ^ 64 - 1" using assms unat_max_word [where 'a = 64] by (auto simp flip: unat_inj_iff)
  then have "unat n + unat (1 :: u64) < 2 ^ LENGTH(64)" using unat_bound [of n] by simp
  then show thesis by (intro that [of "n + 1"]) (simp only: checked_add_def if_True)
qed

section \<open>Properties\<close>

text \<open>Receipts that are recorded once stay recorded.\<close>

lemma records_step:
  assumes "world_step (w, m) (w', m')" "run_inv config (w, m)" "max_operations (wc_runtime_limits config) < - 1"
    and "bm_get (w_idempotency_records w) k = Some r"
  shows "bm_get (w_idempotency_records w') k = Some r"
  using assms(1)
proof (cases rule: world_step.cases)
  case (apply_step patch frame micros)
  have w: "world_ok w" "operation_limit_ok w" using assms(2,3) by (simp_all add: run_inv_def)
  have "apply_outcome w patch (apply_patch w patch frame micros)" by (rule apply_patch_outcome [OF w])
  then show ?thesis
    using assms(4) apply_step
    by (auto simp: apply_outcome_def patch_applied_def split: sum.splits option.splits)
next
  case (extract_step x)
  then show ?thesis
    using extract_run_inv(3) [OF assms(2)] assms(4) by (simp add: finish_extraction_def)
qed

lemma records_persist:
  assumes run: "world_run config (w, m)" and lim: "max_operations (wc_runtime_limits config) < - 1"
    and steps: "world_step\<^sup>*\<^sup>* (w, m) (w', m')" and rec: "bm_get (w_idempotency_records w) k = Some r"
  shows "bm_get (w_idempotency_records w') k = Some r"
  using steps
proof (induction rule: rtranclp_induct2)
  case (step u n u' n')
  have "run_inv config (u, n)" by (rule world_run_inv [OF rtranclp_trans [OF run step.hyps(1)] lim])
  from records_step [OF step.hyps(2) this lim step.IH] show ?case .
qed (rule rec)

text \<open>
  C2. The invariant of the world. In every world a run can reach, whatever patches were
  submitted and whenever extractions were taken, the world's own consistency check passes:
  storage, index, hierarchy and transform cache agree.
\<close>

theorem world_run_validates:
  assumes "world_run config (w, m)" "max_operations (wc_runtime_limits config) < - 1"
  shows "validate_invariants w = Inr ()"
  using world_run_inv [OF assms] by (simp add: run_inv_def validate_invariants_ok)

theorem world_run_validates_witness: "validate_invariants (snd example_result) = Inr ()"
  using world_run_validates [OF example_run example_limit] .



text \<open>
  C1. Refinement of the abstract scene. When a patch is applied, the new world represents
  exactly the scene its operations describe, executed in order; that scene is a forest
  within the depth limit; the revision advances by one; and the receipt reports both
  revisions and the number of operations.
\<close>

theorem apply_patch_refines_scene:
  assumes "world_run config (w, m)" "max_operations (wc_runtime_limits config) < - 1"
    and "apply_patch w patch frame micros = (Inr receipt, w')" "receipt_status receipt = Applied"
  shows "scene_steps (unat (wc_max_entities config)) (patch_operations patch) (scene_of w) = Some (scene_of w') \<and>
    hierarchy_ok (dom (fst (scene_of w'))) (snd (scene_of w')) (unat (wc_max_hierarchy_depth config)) \<and>
    unat (revision_get (w_revision w')) = Suc (unat (revision_get (w_revision w))) \<and>
    receipt_previous_revision receipt = w_revision w \<and> receipt_new_revision receipt = w_revision w' \<and>
    unat (receipt_operation_count receipt) = length (patch_operations patch)"
proof -
  have w: "world_ok w" "operation_limit_ok w" and c: "w_config w = config"
    using world_run_inv [OF assms(1,2)] assms(2) by (simp_all add: run_inv_def)
  have "apply_outcome w patch (Inr receipt, w')" using apply_patch_outcome [OF w] assms(3) by metis
  then have "patch_applied w patch receipt w'"
    using assms(4) by (auto simp: apply_outcome_def split: option.splits)
  then show ?thesis
    using checked_next_unat [of "w_revision w" "w_revision w'"]
    by (simp add: patch_applied_def scene_accepts_def c)
qed

theorem apply_patch_refines_scene_witness:
  "scene_steps 65536 (patch_operations example_patch) (Map.empty, Map.empty) = Some (scene_of (snd example_result)) \<and>
   unat (revision_get (w_revision (snd example_result))) = 1"
proof -
  obtain r where "example_result = (Inr r, snd example_result)" "receipt_status r = Applied"
    by (rule example_applied)
  from apply_patch_refines_scene [OF rtranclp.rtrancl_refl example_limit this] show ?thesis
    by (simp add: example_capacity)
qed



text \<open>
  C7. Retries are idempotent. Once a patch has been applied, submitting a valid patch with the
  same idempotency key and transaction again, after any further activity of the world,
  returns the original receipt marked as a replay and changes nothing.
\<close>

theorem apply_patch_idempotent:
  assumes "world_run config (w, m)" "max_operations (wc_runtime_limits config) < - 1"
    and "apply_patch w patch frame micros = (Inr receipt, w1)" "receipt_status receipt = Applied"
    and "world_step\<^sup>*\<^sup>* (w1, m) (w2, m2)"
    and "patch_validate retry (wc_runtime_limits config) = Inr ()"
    and "patch_idempotency_key retry = patch_idempotency_key patch"
    and "patch_transaction_id retry = patch_transaction_id patch"
  shows "apply_patch w2 retry frame2 micros2 = (Inr (receipt\<lparr> receipt_status := IdempotentReplay \<rparr>), w2)"
proof -
  have w: "world_ok w" "operation_limit_ok w"
    using world_run_inv [OF assms(1,2)] assms(2) by (simp_all add: run_inv_def)
  have "apply_outcome w patch (Inr receipt, w1)" using apply_patch_outcome [OF w] assms(3) by metis
  then have "bm_get (w_idempotency_records w1) (patch_idempotency_key patch) =
      Some \<lparr> ra_transaction_id = patch_transaction_id patch, ra_receipt = receipt \<rparr>"
    using assms(4) by (auto simp: apply_outcome_def patch_applied_def split: option.splits)
  moreover have run1: "world_run config (w1, m)"
    using assms(1) apply_step [of w m patch frame micros] assms(3)
    by (metis rtranclp.rtrancl_into_rtrancl snd_conv)
  ultimately have "bm_get (w_idempotency_records w2) (patch_idempotency_key patch) =
      Some \<lparr> ra_transaction_id = patch_transaction_id patch, ra_receipt = receipt \<rparr>"
    using records_persist [OF run1 assms(2,5)] by simp
  moreover have "w_config w2 = config"
    using world_run_inv [OF rtranclp_trans [OF run1 assms(5)] assms(2)] by (simp add: run_inv_def)
  ultimately show ?thesis using assms(6-8) by (simp add: apply_patch_def)
qed

theorem apply_patch_idempotent_witness:
  "\<exists>receipt. apply_patch (snd example_result) example_patch (FrameId 5) (7, 7) =
     (Inr (receipt\<lparr> receipt_status := IdempotentReplay \<rparr>), snd example_result)"
proof -
  obtain r where r: "example_result = (Inr r, snd example_result)" "receipt_status r = Applied"
    by (rule example_applied)
  have "patch_validate example_patch (wc_runtime_limits world_config_default) = Inr ()"
    using example_validates by (simp add: world_config_default_def)
  from apply_patch_idempotent [OF rtranclp.rtrancl_refl example_limit r rtranclp.rtrancl_refl this refl refl]
  show ?thesis by blast
qed

text \<open>
  C6. The cached world transforms are what full recomputation gives. In every reachable world
  each live entity has a cached transform, and its matrix is the product of the local
  matrices along its chain of ancestors, as if computed from scratch; nothing else is
  cached.
\<close>

theorem world_transforms_recomputed:
  assumes "world_run config (w, m)" "max_operations (wc_runtime_limits config) < - 1"
  shows "case world_transform_of w i of
      Some t \<Rightarrow> world_contains w i \<and>
        world_matrix (snd (scene_of w)) (local_of (fst (scene_of w))) i (wt_matrix t)
    | None \<Rightarrow> \<not> world_contains w i"
proof -
  have tr: "transform_part_ok w" using world_run_inv [OF assms] by (simp add: run_inv_def world_ok_def)
  show ?thesis
  proof (cases "bm_get (w_world_transforms w) i")
    case None
    then have "i \<notin> dom (bm_get (w_stable_index w))" using tr unfolding transform_part_ok_def by blast
    with None show ?thesis by (simp add: world_transform_of_def world_contains_def domIff)
  next
    case (Some t)
    then have "i \<in> dom (bm_get (w_stable_index w))" using tr unfolding transform_part_ok_def by blast
    with Some tr show ?thesis
      by (simp add: world_transform_of_def world_contains_def scene_of_def transform_part_ok_def)
  qed
qed

theorem world_transforms_recomputed_witness:
  "case world_transform_of (snd example_result) (StableEntityId 2) of
      Some t \<Rightarrow> world_contains (snd example_result) (StableEntityId 2) \<and>
        world_matrix (snd (scene_of (snd example_result))) (local_of (fst (scene_of (snd example_result))))
          (StableEntityId 2) (wt_matrix t)
    | None \<Rightarrow> \<not> world_contains (snd example_result) (StableEntityId 2)"
  using world_transforms_recomputed [OF example_run example_limit] .



end
