(* ===== verification/World_Snapshot.thy ===== *)
theory World_Snapshot
  imports World_Properties
begin

text \<open>
  Snapshots and the logical hash of a world (\<open>cogniform-world/src/snapshot.rs\<close> and
  \<open>hash.rs\<close>). The digest function is an argument; what is modelled is the byte string
  that is digested. It is shown to determine the logical scene, so that two worlds with the
  same digest input represent the same scene, and a digest without collisions identifies
  scenes.
\<close>

section \<open>Snapshots\<close>

record entity_snapshot =
  snap_entity_id :: stable_entity_id
  snap_parent_id :: "stable_entity_id option"
  snap_components :: "component_value list"

record world_snapshot =
  snap_revision :: scene_revision
  snap_entities :: "entity_snapshot list"

definition snapshot_entry :: "authoritative_world \<Rightarrow> stable_entity_id \<times> entity \<Rightarrow> entity_snapshot" where
  "snapshot_entry w ie =
     \<lparr> snap_entity_id = fst ie, snap_parent_id = bm_get (w_parents w) (fst ie),
       snap_components = snapshot_components w (snd ie) \<rparr>"

definition world_snapshot_of :: "authoritative_world \<Rightarrow> world_invariant_error + world_snapshot" where
  "world_snapshot_of w =
     bind_res (validate_invariants w) (\<lambda>_.
       Inr \<lparr> snap_revision = w_revision w,
             snap_entities = map (snapshot_entry w) (bm_entries (w_stable_index w)) \<rparr>)"

section \<open>The digested bytes\<close>

definition LOGICAL_HASH_DOMAIN :: bytes where
  "LOGICAL_HASH_DOMAIN =
     map (of_nat \<circ> of_char) ''cogniform.logical-scene'' @ [0]"

definition LOGICAL_HASH_FORMAT_VERSION :: u16 where
  "LOGICAL_HASH_FORMAT_VERSION = 1"

definition update_f32s :: "f32 list \<Rightarrow> bytes" where
  "update_f32s xs = concat (map to_be_bytes xs)"

fun shape_tag :: "primitive_shape \<Rightarrow> u8" where
  "shape_tag Cuboid = 1"
| "shape_tag Plane = 2"
| "shape_tag Sphere = 3"

fun light_tag :: "light_kind \<Rightarrow> u8" where
  "light_tag Directional = 1"
| "light_tag Point = 2"

text \<open>The bytes of one component; \<open>None\<close> is the panic on a text that is too long.\<close>

fun update_component :: "component_value \<Rightarrow> bytes option" where
  "update_component (Name v) =
     (case word_of_len (len_bytes (name_value v)) of
        None \<Rightarrow> None
      | Some n \<Rightarrow> Some ([1] @ to_be_bytes (n :: u32) @ text_bytes_of (name_value v)))"
| "update_component (LocalTransform v) =
     Some ([2] @ update_f32s
       [finite_get (vec3_x (lt_translation v)), finite_get (vec3_y (lt_translation v)),
        finite_get (vec3_z (lt_translation v)), finite_get (quat_x (lt_rotation v)),
        finite_get (quat_y (lt_rotation v)), finite_get (quat_z (lt_rotation v)),
        finite_get (quat_w (lt_rotation v)), positive_get (pvec3_x (lt_scale v)),
        positive_get (pvec3_y (lt_scale v)), positive_get (pvec3_z (lt_scale v))])"
| "update_component (Primitive v) =
     Some ([3, shape_tag (prim_shape v)] @ update_f32s
       [positive_get (pvec3_x (prim_dimensions v)), positive_get (pvec3_y (prim_dimensions v)),
        positive_get (pvec3_z (prim_dimensions v))])"
| "update_component (Material v) =
     Some ([4] @ update_f32s
       [unit_get (rgba_r (mat_base_color v)), unit_get (rgba_g (mat_base_color v)),
        unit_get (rgba_b (mat_base_color v)), unit_get (rgba_a (mat_base_color v)),
        unit_get (mat_metallic v), unit_get (mat_roughness v)])"
| "update_component (Camera v) =
     Some ([5] @ update_f32s
       [positive_get (cam_vertical_fov_radians v), positive_get (cam_near v), positive_get (cam_far v)])"
| "update_component (Light v) =
     Some ([6, light_tag (light_kind v)] @ update_f32s
       [unit_get (rgb_r (light_color v)), unit_get (rgb_g (light_color v)),
        unit_get (rgb_b (light_color v)), non_negative_get (light_intensity v)])"
| "update_component (AssetMesh v) =
     Some ([7] @ hash_bytes (am_content_hash v) @ to_be_bytes (am_mesh_index v))"

fun update_components :: "component_value list \<Rightarrow> bytes option" where
  "update_components [] = Some []"
| "update_components (c # cs) =
     (case update_component c of
        None \<Rightarrow> None
      | Some bs \<Rightarrow> (case update_components cs of None \<Rightarrow> None | Some rest \<Rightarrow> Some (bs @ rest)))"

definition update_entity_id :: "stable_entity_id \<Rightarrow> bytes" where
  "update_entity_id i = to_be_bytes (entity_get i)"

definition update_parent :: "stable_entity_id option \<Rightarrow> bytes" where
  "update_parent p = (case p of Some i \<Rightarrow> [1] @ update_entity_id i | None \<Rightarrow> [0])"

definition update_entity :: "entity_snapshot \<Rightarrow> bytes option" where
  "update_entity e =
     (case word_of_len (length (snap_components e)) of
        None \<Rightarrow> None
      | Some n \<Rightarrow>
          (case update_components (snap_components e) of
             None \<Rightarrow> None
           | Some bs \<Rightarrow>
               Some (update_entity_id (snap_entity_id e) @ update_parent (snap_parent_id e) @
                     to_be_bytes (n :: u32) @ bs)))"

fun update_entities :: "entity_snapshot list \<Rightarrow> bytes option" where
  "update_entities [] = Some []"
| "update_entities (e # es) =
     (case update_entity e of
        None \<Rightarrow> None
      | Some bs \<Rightarrow> (case update_entities es of None \<Rightarrow> None | Some rest \<Rightarrow> Some (bs @ rest)))"

definition logical_preimage :: "world_snapshot \<Rightarrow> bytes option" where
  "logical_preimage s =
     (case word_of_len (length (snap_entities s)) of
        None \<Rightarrow> None
      | Some n \<Rightarrow>
          (case update_entities (snap_entities s) of
             None \<Rightarrow> None
           | Some bs \<Rightarrow>
               Some (LOGICAL_HASH_DOMAIN @ to_be_bytes LOGICAL_HASH_FORMAT_VERSION @ to_be_bytes (n :: u32) @ bs)))"

datatype logical_scene_hash = LogicalSceneHash (scene_hash_bytes: bytes)

definition snapshot_logical_hash :: "(bytes \<Rightarrow> bytes) \<Rightarrow> world_snapshot \<Rightarrow> logical_scene_hash option" where
  "snapshot_logical_hash sha s = map_option (LogicalSceneHash \<circ> sha) (logical_preimage s)"

definition world_logical_hash ::
    "(bytes \<Rightarrow> bytes) \<Rightarrow> authoritative_world \<Rightarrow> world_invariant_error fault + logical_scene_hash" where
  "world_logical_hash sha w =
     bind_res (map_err Err (world_snapshot_of w)) (\<lambda>s. ok_or Panic (snapshot_logical_hash sha s))"

section \<open>The bytes determine the scene\<close>

lemma update_f32s_inject:
  "length xs = length ys \<Longrightarrow> update_f32s xs @ p = update_f32s ys @ q \<longleftrightarrow> xs = ys \<and> p = q"
proof (induction xs ys rule: list_induct2)
  case (Cons x xs y ys)
  have inj: "to_be_bytes a = to_be_bytes b \<longleftrightarrow> a = b" for a b :: f32
    by (rule to_be_bytes_inject) simp
  from Cons show ?case by (simp add: update_f32s_def inj)
qed (simp add: update_f32s_def)

lemmas get_inject =
  finite_get_inject positive_get_inject non_negative_get_inject unit_get_inject

lemma shape_tag_inject [simp]: "shape_tag a = shape_tag b \<longleftrightarrow> a = b"
  by (cases a; cases b) simp_all

lemma light_tag_inject [simp]: "light_tag a = light_tag b \<longleftrightarrow> a = b"
  by (cases a; cases b) simp_all

text \<open>Content hashes are arrays of 32 bytes.\<close>

fun component_sized :: "component_value \<Rightarrow> bool" where
  "component_sized (AssetMesh v) = (length (hash_bytes (am_content_hash v)) = 32)"
| "component_sized _ = True"

lemma u32_append_inject: "to_be_bytes (a :: u32) @ xs = to_be_bytes b @ ys \<longleftrightarrow> a = b \<and> xs = ys"
  by (rule to_be_bytes_append_inject) simp

lemma u128_append_inject: "to_be_bytes (a :: u128) @ xs = to_be_bytes b @ ys \<longleftrightarrow> a = b \<and> xs = ys"
  by (rule to_be_bytes_append_inject) simp

lemma of_nat_u32_inject:
  assumes "m < 2 ^ 32" "n < 2 ^ 32"
  shows "(of_nat m :: u32) = of_nat n \<longleftrightarrow> m = n"
proof
  have "unat (of_nat m :: u32) = m" by (rule unat_of_nat_small) (use assms(1) in simp)
  moreover have "unat (of_nat n :: u32) = n" by (rule unat_of_nat_small) (use assms(2) in simp)
  moreover assume "(of_nat m :: u32) = of_nat n"
  ultimately show "m = n" by metis
qed simp

lemma update_name_inject:
  assumes "update_component (Name v) = Some a" "update_component (Name u) = Some b" "a @ xs = b @ ys"
  shows "v = u \<and> xs = ys"
proof -
  obtain s t where st: "name_value v = SceneText s" "name_value u = SceneText t"
    by (cases "name_value v"; cases "name_value u")
  from assms have len: "length s < 2 ^ 32" "length t < 2 ^ 32"
    and eq: "to_be_bytes (of_nat (length s) :: u32) @ s @ xs = to_be_bytes (of_nat (length t) :: u32) @ t @ ys"
    by (auto simp: st len_bytes_def word_of_len_def split: if_splits)
  from eq have "length s = length t" "s @ xs = t @ ys"
    using of_nat_u32_inject [OF len] by (simp_all only: u32_append_inject)
  then have "s = t" "xs = ys" by simp_all
  then show ?thesis using st by (cases v; cases u) simp
qed

lemma update_component_inject:
  assumes "update_component c = Some a" "update_component d = Some b" "a @ xs = b @ ys"
    and "component_sized c" "component_sized d"
  shows "c = d \<and> xs = ys"
proof (cases c)
  case (Name v)
  show ?thesis
  proof (cases d)
    case (Name u)
    with update_name_inject [of v a u b xs ys] assms(1-3) \<open>c = Name v\<close> show ?thesis by simp
  qed (use assms Name in \<open>auto split: option.splits\<close>)
next
  case (LocalTransform v)
  with assms show ?thesis
    by (cases d) (auto simp: update_f32s_inject get_inject split: option.splits
        intro!: local_transform.equality vec3.equality quaternion.equality positive_vec3.equality)
next
  case (Primitive v)
  with assms show ?thesis
    by (cases d) (auto simp: update_f32s_inject get_inject split: option.splits
        intro!: primitive_component.equality positive_vec3.equality)
next
  case (Material v)
  with assms show ?thesis
    by (cases d) (auto simp: update_f32s_inject get_inject split: option.splits
        intro!: material_component.equality color_rgba.equality)
next
  case (Camera v)
  with assms show ?thesis
    by (cases d) (auto simp: update_f32s_inject get_inject split: option.splits
        intro!: camera_component.equality)
next
  case (Light v)
  with assms show ?thesis
    by (cases d) (auto simp: update_f32s_inject get_inject split: option.splits
        intro!: light_component.equality color_rgb.equality)
next
  case (AssetMesh v)
  show ?thesis
  proof (cases d)
    case (AssetMesh u)
    with assms \<open>c = AssetMesh v\<close> have "hash_bytes (am_content_hash v) = hash_bytes (am_content_hash u)"
      "to_be_bytes (am_mesh_index v) @ xs = to_be_bytes (am_mesh_index u) @ ys" by auto
    with AssetMesh \<open>c = AssetMesh v\<close> show ?thesis
      by (auto simp: u32_append_inject intro!: asset_mesh_component.equality content_hash.expand)
  qed (use assms AssetMesh in \<open>auto split: option.splits\<close>)
qed

lemma update_components_inject:
  assumes "update_components cs = Some a" "update_components ds = Some b" "a @ xs = b @ ys"
    and "length cs = length ds" "list_all component_sized cs" "list_all component_sized ds"
  shows "cs = ds \<and> xs = ys"
  using assms(4,1-3,5,6)
proof (induction cs ds arbitrary: a b rule: list_induct2)
  case (Cons c cs d ds)
  then obtain a1 a2 b1 b2 where
      "update_component c = Some a1" "update_components cs = Some a2" "a = a1 @ a2"
      "update_component d = Some b1" "update_components ds = Some b2" "b = b1 @ b2"
    by (auto split: option.splits)
  with Cons update_component_inject [of c a1 d b1 "a2 @ xs" "b2 @ ys"] show ?case by simp
qed simp

lemma update_parent_inject:
  "update_parent p @ xs = update_parent q @ ys \<longleftrightarrow> p = q \<and> xs = ys"
proof (cases p; cases q)
  fix i j assume "p = Some i" "q = Some j"
  then show ?thesis
    by (cases i; cases j) (simp only: update_parent_def update_entity_id_def option.case
        append_Cons append_Nil list.inject append_assoc u128_append_inject stable_entity_id.sel, simp)
qed (simp_all add: update_parent_def)

definition entity_sized :: "entity_snapshot \<Rightarrow> bool" where
  "entity_sized e \<longleftrightarrow> list_all component_sized (snap_components e)"

lemma update_entity_inject:
  assumes "update_entity e = Some a" "update_entity f = Some b" "a @ xs = b @ ys"
    and "entity_sized e" "entity_sized f"
  shows "e = f \<and> xs = ys"
proof -
  from assms(1,2) obtain c d where
      c: "update_components (snap_components e) = Some c" "length (snap_components e) < 2 ^ 32"
        "a = update_entity_id (snap_entity_id e) @ update_parent (snap_parent_id e) @
          to_be_bytes (of_nat (length (snap_components e)) :: u32) @ c"
    and d: "update_components (snap_components f) = Some d" "length (snap_components f) < 2 ^ 32"
        "b = update_entity_id (snap_entity_id f) @ update_parent (snap_parent_id f) @
          to_be_bytes (of_nat (length (snap_components f)) :: u32) @ d"
    by (auto simp: update_entity_def word_of_len_def split: option.splits if_splits)
  from assms(3) have "entity_get (snap_entity_id e) = entity_get (snap_entity_id f)"
      and rest: "update_parent (snap_parent_id e) @ to_be_bytes (of_nat (length (snap_components e)) :: u32) @ c @ xs =
        update_parent (snap_parent_id f) @ to_be_bytes (of_nat (length (snap_components f)) :: u32) @ d @ ys"
    unfolding c(3) d(3) update_entity_id_def append_assoc u128_append_inject by simp_all
  then have ids: "snap_entity_id e = snap_entity_id f" "snap_parent_id e = snap_parent_id f"
      and len: "length (snap_components e) = length (snap_components f)" and tail: "c @ xs = d @ ys"
    unfolding update_parent_inject u32_append_inject of_nat_u32_inject [OF c(2) d(2)]
    by (simp_all add: stable_entity_id.expand)
  have "snap_components e = snap_components f \<and> xs = ys"
    by (rule update_components_inject [OF c(1) d(1) tail len]) (use assms(4,5) in \<open>simp_all add: entity_sized_def\<close>)
  with ids show ?thesis by (auto intro: entity_snapshot.equality)
qed

lemma update_entities_inject:
  assumes "update_entities es = Some a" "update_entities fs = Some b" "a = b"
    and "length es = length fs" "list_all entity_sized es" "list_all entity_sized fs"
  shows "es = fs"
  using assms(4,1-3,5,6)
proof (induction es fs arbitrary: a b rule: list_induct2)
  case (Cons e es f fs)
  then obtain a1 a2 b1 b2 where
      "update_entity e = Some a1" "update_entities es = Some a2" "a = a1 @ a2"
      "update_entity f = Some b1" "update_entities fs = Some b2" "b = b1 @ b2"
    by (auto split: option.splits)
  with Cons update_entity_inject [of e a1 f b1 a2 b2] show ?case by simp
qed simp

lemma logical_preimage_entities:
  assumes "logical_preimage s = Some b" "logical_preimage t = Some b"
    and "list_all entity_sized (snap_entities s)" "list_all entity_sized (snap_entities t)"
  shows "snap_entities s = snap_entities t"
proof -
  from assms(1,2) obtain c d where
      c: "update_entities (snap_entities s) = Some c" "length (snap_entities s) < 2 ^ 32"
        "b = LOGICAL_HASH_DOMAIN @ to_be_bytes LOGICAL_HASH_FORMAT_VERSION @
          to_be_bytes (of_nat (length (snap_entities s)) :: u32) @ c"
    and d: "update_entities (snap_entities t) = Some d" "length (snap_entities t) < 2 ^ 32"
        "b = LOGICAL_HASH_DOMAIN @ to_be_bytes LOGICAL_HASH_FORMAT_VERSION @
          to_be_bytes (of_nat (length (snap_entities t)) :: u32) @ d"
    by (auto simp: logical_preimage_def word_of_len_def split: option.splits if_splits)
  from c(3) d(3) have "to_be_bytes (of_nat (length (snap_entities s)) :: u32) @ c =
      to_be_bytes (of_nat (length (snap_entities t)) :: u32) @ d" by simp
  then have "length (snap_entities s) = length (snap_entities t)" "c = d"
    unfolding u32_append_inject of_nat_u32_inject [OF c(2) d(2)] by simp_all
  then show ?thesis using update_entities_inject [OF c(1) d(1)] assms(3,4) by blast
qed

section \<open>Snapshots of reachable worlds\<close>

text \<open>What a snapshot says about a scene, independently of how the scene is stored.\<close>

definition bundle_components :: "component_bundle \<Rightarrow> component_value list" where
  "bundle_components b = List.map_filter (bundle_get b) component_kinds"

definition view_of_scene :: "scene \<Rightarrow> stable_entity_id \<Rightarrow> entity_snapshot" where
  "view_of_scene sc i =
     \<lparr> snap_entity_id = i, snap_parent_id = snd sc i,
       snap_components = bundle_components (the (fst sc i)) \<rparr>"

definition scene_views :: "scene \<Rightarrow> entity_snapshot list" where
  "scene_views sc = map (view_of_scene sc) (sorted_list_of_set (dom (fst sc)))"

definition scene_sized :: "scene \<Rightarrow> bool" where
  "scene_sized sc \<longleftrightarrow> (\<forall>i b. fst sc i = Some b \<longrightarrow>
     (\<forall>n. b_name b = Some n \<longrightarrow> len_bytes (name_value n) < 2 ^ 32) \<and>
     (\<forall>a. b_asset_mesh b = Some a \<longrightarrow> length (hash_bytes (am_content_hash a)) = 32))"

lemma bundle_components_find:
  "bundle_get b k = find (\<lambda>v. component_kind_of v = k) (bundle_components b)"
  by (cases k) (simp_all add: bundle_components_def component_kinds_def map_filter_simps split: option.split)

lemma bundle_components_inject:
  assumes "b_stable_id b = b_stable_id c" "bundle_components b = bundle_components c"
  shows "b = c"
  using assms by (intro bundle_eqI) (simp_all add: bundle_components_find)

lemma world_snapshot_views:
  assumes "world_ok w"
  shows "world_snapshot_of w = Inr \<lparr> snap_revision = w_revision w, snap_entities = scene_views (scene_of w) \<rparr>"
proof -
  have ix: "index_part_ok w" using assms by (simp add: world_ok_def)
  have "snapshot_entry w (i, e) = view_of_scene (scene_of w) i" if "bm_get (w_stable_index w) i = Some e" for i e
  proof -
    obtain b where "storage_row (w_storage w) e = Some b" "b_stable_id b = Some i" "scene_entities w i = Some b"
      by (rule scene_entities_row [OF ix \<open>bm_get (w_stable_index w) i = Some e\<close>])
    then show ?thesis
      by (simp add: snapshot_entry_def view_of_scene_def scene_of_def bundle_components_def
          snapshot_components_def storage_get_def [abs_def])
  qed
  then have "map (snapshot_entry w) (bm_entries (w_stable_index w)) =
      map (view_of_scene (scene_of w)) (bm_keys (w_stable_index w))"
    by (auto simp: bm_keys_def set_bm_entries)
  then show ?thesis
    by (simp add: world_snapshot_of_def validate_invariants_ok [OF assms] scene_views_def
        bm_keys_eq_sorted scene_of_def dom_scene_entities [OF ix])
qed

lemma scene_views_inject:
  assumes w: "world_ok w" and v: "world_ok v" and eq: "scene_views (scene_of w) = scene_views (scene_of v)"
  shows "scene_of w = scene_of v"
proof -
  have ixw: "index_part_ok w" and ixv: "index_part_ok v" using w v by (simp_all add: world_ok_def)
  have fin: "finite (dom (scene_entities u))" if "index_part_ok u" for u
    using that by (simp add: dom_scene_entities flip: set_bm_keys)
  have "map snap_entity_id (scene_views sc) = sorted_list_of_set (dom (fst sc))" for sc
    by (simp add: scene_views_def comp_def view_of_scene_def)
  then have dom: "dom (scene_entities w) = dom (scene_entities v)"
    using eq fin [OF ixw] fin [OF ixv] by (metis fst_conv scene_of_def set_sorted_list_of_set)
  have views: "view_of_scene (scene_of w) i = view_of_scene (scene_of v) i" if "i \<in> dom (scene_entities v)" for i
    using eq that fin [OF ixv] by (simp add: scene_views_def scene_of_def dom)
  have ents: "scene_entities w i = scene_entities v i" for i
  proof (cases "i \<in> dom (scene_entities v)")
    case True
    then obtain e f where "bm_get (w_stable_index w) i = Some e" "bm_get (w_stable_index v) i = Some f"
      using dom dom_scene_entities [OF ixw] dom_scene_entities [OF ixv] by blast
    then obtain b c where "b_stable_id b = Some i" "scene_entities w i = Some b"
        "b_stable_id c = Some i" "scene_entities v i = Some c"
      by (metis scene_entities_row [OF ixw] scene_entities_row [OF ixv])
    with views [OF True] bundle_components_inject [of b c] show ?thesis
      by (simp add: view_of_scene_def scene_of_def)
  next
    case False
    with dom show ?thesis by (metis domIff)
  qed
  have live: "bm_get (w_parents u) i = None" if "i \<notin> dom (scene_entities u)" "world_ok u" for u i
    using that dom_scene_entities [of u]
    by (cases "bm_get (w_parents u) i") (auto simp: world_ok_def hierarchy_part_ok_def hierarchy_ok_def)
  have "bm_get (w_parents w) i = bm_get (w_parents v) i" for i
  proof (cases "i \<in> dom (scene_entities v)")
    case True
    from views [OF True] show ?thesis by (simp add: view_of_scene_def scene_of_def)
  next
    case False
    with live [OF _ w] live [OF _ v] dom show ?thesis by simp
  qed
  with ents show ?thesis by (simp add: scene_of_def fun_eq_iff)
qed

text \<open>A sized scene can be digested.\<close>

lemma update_components_total:
  assumes "\<And>n. Name n \<in> set cs \<Longrightarrow> len_bytes (name_value n) < 2 ^ 32"
  shows "\<exists>bs. update_components cs = Some bs"
  using assms
proof (induction cs)
  case (Cons c cs)
  then obtain rest where "update_components cs = Some rest" by auto
  moreover have "\<exists>bs. update_component c = Some bs"
    using Cons.prems by (cases c) (simp_all add: word_of_len_def)
  ultimately show ?case by auto
qed simp

lemma bundle_components_mem: "v \<in> set (bundle_components b) \<Longrightarrow> bundle_get b (component_kind_of v) = Some v"
  by (auto simp: bundle_components_def List.map_filter_def bundle_get_kind)

lemma length_bundle_components: "length (bundle_components b) \<le> 7"
  unfolding bundle_components_def List.map_filter_def
  by (rule order_trans [OF eq_refl [OF length_map] order_trans [OF length_filter_le]])
    (simp add: component_kinds_def)

lemma component_name_kind: "bundle_get b NameKind = Some (Name n) \<longleftrightarrow> b_name b = Some n"
  by auto

lemma view_digested:
  assumes "scene_sized sc" "i \<in> dom (fst sc)"
  shows "(\<exists>bs. update_entity (view_of_scene sc i) = Some bs) \<and> entity_sized (view_of_scene sc i)"
proof -
  from assms(2) obtain b where b: "fst sc i = Some b" by blast
  let ?cs = "bundle_components b"
  have "len_bytes (name_value n) < 2 ^ 32" if "Name n \<in> set ?cs" for n
    using bundle_components_mem [OF that] assms(1) b by (simp add: scene_sized_def)
  then obtain bs where "update_components ?cs = Some bs" using update_components_total by blast
  moreover have "length ?cs < 2 ^ 32" using length_bundle_components [of b] by simp
  moreover have "component_sized v" if "v \<in> set ?cs" for v
    using bundle_components_mem [OF that] assms(1) b by (cases v) (simp_all add: scene_sized_def)
  ultimately show ?thesis
    by (simp add: update_entity_def view_of_scene_def b word_of_len_def entity_sized_def list_all_iff)
qed

lemma update_entities_total:
  "(\<And>e. e \<in> set es \<Longrightarrow> \<exists>bs. update_entity e = Some bs) \<Longrightarrow> \<exists>bs. update_entities es = Some bs"
  by (induction es) (force split: option.splits)+

lemma world_preimage:
  assumes w: "world_ok w" and sized: "scene_sized (scene_of w)"
  obtains a where "logical_preimage \<lparr> snap_revision = r, snap_entities = scene_views (scene_of w) \<rparr> = Some a"
    "list_all entity_sized (scene_views (scene_of w))"
proof -
  have ix: "index_part_ok w" using w by (simp add: world_ok_def)
  have dom: "dom (fst (scene_of w)) = dom (bm_get (w_stable_index w))"
    by (simp add: scene_of_def dom_scene_entities [OF ix])
  have fin: "finite (dom (fst (scene_of w)))" by (simp add: dom flip: set_bm_keys)
  have "length (scene_views (scene_of w)) \<le> unat (wc_max_entities (w_config w))"
    using ix by (simp add: scene_views_def dom index_part_ok_def)
  also have "\<dots> < 2 ^ 32" using unat_bound [of "wc_max_entities (w_config w)"] by simp
  finally have len: "length (scene_views (scene_of w)) < 2 ^ 32" .
  have views: "e \<in> set (scene_views (scene_of w)) \<Longrightarrow> (\<exists>bs. update_entity e = Some bs) \<and> entity_sized e" for e
    using view_digested [OF sized] fin by (auto simp: scene_views_def)
  obtain bs where "update_entities (scene_views (scene_of w)) = Some bs"
    using update_entities_total views by blast
  with len views show thesis
    by (intro that) (simp_all add: logical_preimage_def word_of_len_def list_all_iff)
qed

lemma world_logical_hash_preimage:
  assumes w: "world_ok w" and sized: "scene_sized (scene_of w)"
  obtains a where "world_logical_hash sha w = Inr (LogicalSceneHash (sha a))"
    "logical_preimage \<lparr> snap_revision = w_revision w, snap_entities = scene_views (scene_of w) \<rparr> = Some a"
    "list_all entity_sized (scene_views (scene_of w))"
proof -
  obtain a where a: "logical_preimage \<lparr> snap_revision = w_revision w, snap_entities = scene_views (scene_of w) \<rparr> = Some a"
      "list_all entity_sized (scene_views (scene_of w))"
    by (rule world_preimage [OF w sized])
  then show thesis
    by (intro that) (simp_all add: world_logical_hash_def world_snapshot_views [OF w] snapshot_logical_hash_def)
qed

lemma example_result_scene: "scene_sized (scene_of (snd example_result))"
proof -
  have "apply_outcome example_start example_patch example_result"
    by (rule apply_patch_outcome) (simp_all add: world_new_ok_parts example_limit)
  then have "scene_accepts example_start (patch_operations example_patch) (scene_of (snd example_result)) \<or>
      snd example_result = example_start"
    by (auto simp: apply_outcome_def patch_applied_def split: sum.splits option.splits prod.splits)
  then show ?thesis
  proof
    assume "scene_accepts example_start (patch_operations example_patch) (scene_of (snd example_result))"
    then have "Some (scene_of (snd example_result)) =
        scene_steps (world_capacity example_start) (patch_operations example_patch) (scene_of example_start)"
      by (simp only: scene_accepts_def)
    from this [unfolded example_scene option.inject] show ?thesis
      by (simp only:) (auto simp: scene_sized_def build_bundle_def empty_bundle_def len_bytes_def split: if_splits)
  qed (simp add: scene_sized_def)
qed



end
