(* ===== verification/Protocol_Codec.thy ===== *)
theory Protocol_Codec
  imports Protocol_Message
begin

text \<open>
  The bounded JSON codec (\<open>cogniform-protocol/src/codec.rs\<close>). The serializer and the
  parser of the JSON library are arguments of the definitions. Modelled here are the checks
  around them: validation before and after, the size bound, and the scan that bounds the
  nesting depth before the parser sees the bytes. The scan is compared with a reference:
  the greatest depth of brackets outside string literals.
\<close>

section \<open>Encoding and decoding\<close>

definition enforce_encoded_size :: "nat \<Rightarrow> runtime_limits \<Rightarrow> codec_error + unit" where
  "enforce_encoded_size encoded_len limits =
     (if len_or_max encoded_len > max_encoded_bytes limits
      then Inl (EncodedSizeExceeded (len_or_max encoded_len) (max_encoded_bytes limits))
      else Inr ())"

text \<open>The state of the scan: depth, inside a string, after a backslash.\<close>

record nesting_state =
  ns_depth :: u16
  ns_in_string :: bool
  ns_escaped :: bool

definition scan_string :: "u8 \<Rightarrow> nesting_state \<Rightarrow> nesting_state" where
  "scan_string b s =
     (if ns_escaped s then s\<lparr> ns_escaped := False \<rparr>
      else if b = 92 then s\<lparr> ns_escaped := True \<rparr>
      else if b = 34 then s\<lparr> ns_in_string := False \<rparr>
      else s)"

definition scan_byte :: "u16 \<Rightarrow> u8 \<Rightarrow> nesting_state \<Rightarrow> codec_error + nesting_state" where
  "scan_byte limit b s =
     (if ns_in_string s then Inr (scan_string b s)
      else if b = 34 then Inr (s\<lparr> ns_in_string := True \<rparr>)
      else if b = 123 \<or> b = 91 then
        (if saturating_add (ns_depth s) 1 > limit
         then Inl (NestingLimitExceeded (saturating_add (ns_depth s) 1) limit)
         else Inr (s\<lparr> ns_depth := saturating_add (ns_depth s) 1 \<rparr>))
      else if b = 125 \<or> b = 93 then Inr (s\<lparr> ns_depth := saturating_sub (ns_depth s) 1 \<rparr>)
      else Inr s)"

definition nesting_start :: nesting_state where
  "nesting_start = \<lparr> ns_depth = 0, ns_in_string = False, ns_escaped = False \<rparr>"

definition enforce_nesting :: "bytes \<Rightarrow> runtime_limits \<Rightarrow> codec_error + unit" where
  "enforce_nesting encoded limits =
     bind_res (fold_res (scan_byte (max_json_nesting_depth limits)) encoded nesting_start) (\<lambda>_. Inr ())"

definition encode ::
    "('a \<Rightarrow> bytes option) \<Rightarrow> ('a \<Rightarrow> runtime_limits \<Rightarrow> validation_error + unit) \<Rightarrow> 'a \<Rightarrow> runtime_limits
       \<Rightarrow> codec_error + bytes" where
  "encode to_vec validate v limits =
     bind_res (map_err InvalidMessage (validate v limits)) (\<lambda>_.
     bind_res (ok_or SerializationFailed (to_vec v)) (\<lambda>encoded.
     bind_res (enforce_encoded_size (length (encoded @ [10])) limits) (\<lambda>_.
       Inr (encoded @ [10]))))"

definition decode ::
    "(bytes \<Rightarrow> (json_error_category \<times> nat \<times> nat) + 'a)
       \<Rightarrow> ('a \<Rightarrow> runtime_limits \<Rightarrow> validation_error + unit) \<Rightarrow> bytes \<Rightarrow> runtime_limits
       \<Rightarrow> codec_error + 'a" where
  "decode from_slice validate encoded limits =
     bind_res (enforce_encoded_size (length encoded) limits) (\<lambda>_.
     bind_res (enforce_nesting encoded limits) (\<lambda>_.
     bind_res (map_err (\<lambda>(category, line, column). MalformedJson category line column) (from_slice encoded)) (\<lambda>v.
     bind_res (map_err InvalidMessage (validate v limits)) (\<lambda>_.
       Inr v))))"

section \<open>The nesting scan\<close>

text \<open>
  The reference: the bytes outside string literals, and the greatest depth of brackets
  among them, a closing bracket without an opening one being ignored.
\<close>

fun outside_strings :: "bool \<Rightarrow> bool \<Rightarrow> bytes \<Rightarrow> bytes" where
  "outside_strings in_string escaped [] = []"
| "outside_strings True True (b # bs) = outside_strings True False bs"
| "outside_strings True False (b # bs) =
     (if b = 92 then outside_strings True True bs
      else outside_strings (b \<noteq> 34) False bs)"
| "outside_strings False escaped (b # bs) =
     (if b = 34 then outside_strings True escaped bs else b # outside_strings False escaped bs)"

fun bracket_depth :: "nat \<Rightarrow> bytes \<Rightarrow> nat" where
  "bracket_depth d [] = d"
| "bracket_depth d (b # bs) =
     (if b = 123 \<or> b = 91 then max d (bracket_depth (Suc d) bs)
      else if b = 125 \<or> b = 93 then max d (bracket_depth (d - 1) bs)
      else bracket_depth d bs)"

definition nesting_depth :: "bytes \<Rightarrow> nat" where
  "nesting_depth bs = bracket_depth 0 (outside_strings False False bs)"

lemma bracket_depth_ge: "d \<le> bracket_depth d bs"
  by (induction d bs rule: bracket_depth.induct) (auto simp: le_max_iff_disj)

lemma unat_saturating_sub: "unat (saturating_sub a b :: 'a::len word) = unat a - unat b"
  by (auto simp: saturating_sub_def word_le_unat unat_sub)

abbreviation state_depth :: "nesting_state \<Rightarrow> bytes \<Rightarrow> nat" where
  "state_depth s bs \<equiv>
     bracket_depth (unat (ns_depth s)) (outside_strings (ns_in_string s) (ns_escaped s) bs)"

text \<open>A byte that opens nothing leaves the scan at most as deep, and its rest decides.\<close>

lemma scan_other:
  assumes "ns_in_string s \<or> b \<noteq> 123 \<and> b \<noteq> 91"
  shows "\<exists>t. scan_byte limit b s = Inr t \<and> ns_depth t \<le> ns_depth s \<and>
    state_depth s (b # bs) = max (unat (ns_depth s)) (state_depth t bs)"
proof -
  have max: "max d (bracket_depth d cs) = bracket_depth d cs" for d cs
    using bracket_depth_ge by (rule max_absorb2)
  consider "ns_in_string s" | "\<not> ns_in_string s" "b = 34" | "\<not> ns_in_string s" "b = 125 \<or> b = 93"
    | "\<not> ns_in_string s" "b \<noteq> 34" "b \<noteq> 125" "b \<noteq> 93" "b \<noteq> 123" "b \<noteq> 91"
    using assms by blast
  then show ?thesis
  proof cases
    case 1
    then show ?thesis
      by (cases "ns_escaped s") (simp_all add: scan_byte_def scan_string_def max)
  qed (auto simp: scan_byte_def max unat_saturating_sub word_le_unat)
qed

lemma scan_correct:
  assumes "limit < - 1" "ns_depth s \<le> limit"
  shows "case fold_res (scan_byte limit) bs s of
      Inr t \<Rightarrow> state_depth s bs \<le> unat limit
    | Inl e \<Rightarrow> e = NestingLimitExceeded (limit + 1) limit \<and> unat limit < state_depth s bs"
  using assms(2)
proof (induction bs arbitrary: s)
  case Nil
  then show ?case by (simp add: word_le_unat)
next
  case (Cons b bs)
  have lim: "unat limit + 1 < 2 ^ 16" using assms(1) by (simp add: word_less_unat unat_max_word)
  have d: "unat (ns_depth s) \<le> unat limit" using Cons.prems by (simp add: word_le_unat)
  have inc: "unat (saturating_add (ns_depth s) 1) = Suc (unat (ns_depth s))"
    using lim d by (simp add: unat_saturating_add)
  show ?case
  proof (cases "\<not> ns_in_string s \<and> (b = 123 \<or> b = 91)")
    case False
    then obtain t where t: "scan_byte limit b s = Inr t" "ns_depth t \<le> ns_depth s"
      "state_depth s (b # bs) = max (unat (ns_depth s)) (state_depth t bs)"
      using scan_other by metis
    then have "ns_depth t \<le> limit" using Cons.prems by (meson order_trans)
    from Cons.IH [OF this] t d show ?thesis
      by (cases "fold_res (scan_byte limit) bs t") auto
  next
    case True
    show ?thesis
    proof (cases "ns_depth s = limit")
      case True
      with \<open>\<not> ns_in_string s \<and> (b = 123 \<or> b = 91)\<close> inc lim show ?thesis
        using bracket_depth_ge [of "Suc (unat limit)" "outside_strings False (ns_escaped s) bs"]
        by (auto simp: scan_byte_def word_less_unat saturating_add_def max_def)
    next
      case False
      define t where "t = s\<lparr> ns_depth := saturating_add (ns_depth s) 1 \<rparr>"
      have "ns_depth s < limit" using False Cons.prems by simp
      then have le: "ns_depth t \<le> limit" by (simp add: t_def word_le_unat word_less_unat inc)
      then have "scan_byte limit b s = Inr t"
        using True by (auto simp: scan_byte_def t_def)
      with Cons.IH [OF le] True d show ?thesis
        by (cases "fold_res (scan_byte limit) bs t") (auto simp: t_def inc)
    qed
  qed
qed

lemma enforce_nesting_eq:
  assumes "max_json_nesting_depth limits < - 1"
  shows "enforce_nesting encoded limits =
    (if nesting_depth encoded \<le> unat (max_json_nesting_depth limits) then Inr ()
     else Inl (NestingLimitExceeded (max_json_nesting_depth limits + 1) (max_json_nesting_depth limits)))"
proof -
  have "ns_depth nesting_start \<le> max_json_nesting_depth limits" by (simp add: nesting_start_def)
  from scan_correct [OF assms this, of encoded] show ?thesis
    by (cases "fold_res (scan_byte (max_json_nesting_depth limits)) encoded nesting_start")
      (simp_all add: enforce_nesting_def nesting_depth_def nesting_start_def)
qed

text \<open>
  C11. The nesting scan is exact. For every limit below the maximum of its type, the bytes are
  accepted exactly when the greatest bracket depth outside string literals is within the
  limit, although the scan counts in sixteen bits with saturation and never builds the
  document; a rejection names the depth just above the limit.
\<close>

theorem enforce_nesting_exact:
  assumes "max_json_nesting_depth limits < - 1"
  shows "enforce_nesting encoded limits =
    (if nesting_depth encoded \<le> unat (max_json_nesting_depth limits) then Inr ()
     else Inl (NestingLimitExceeded (max_json_nesting_depth limits + 1) (max_json_nesting_depth limits)))"
  by (rule enforce_nesting_eq [OF assms])

theorem enforce_nesting_exact_witness:
  "enforce_nesting [91, 34, 92, 34, 91, 91, 91, 34, 93] (runtime_limits_default\<lparr> max_json_nesting_depth := 2 \<rparr>) = Inr () \<and>
   enforce_nesting [91, 91, 123] (runtime_limits_default\<lparr> max_json_nesting_depth := 2 \<rparr>) =
     Inl (NestingLimitExceeded 3 2)"
  using enforce_nesting_exact [of "runtime_limits_default\<lparr> max_json_nesting_depth := 2 \<rparr>" "[91, 34, 92, 34, 91, 91, 91, 34, 93]"]
    enforce_nesting_exact [of "runtime_limits_default\<lparr> max_json_nesting_depth := 2 \<rparr>" "[91, 91, 123]"]
  by (simp add: nesting_depth_def)

section \<open>Round trip\<close>

lemma encode_Inr:
  assumes "encode to_vec validate v limits = Inr bs"
  shows "validate v limits = Inr ()" "\<exists>encoded. to_vec v = Some encoded \<and> bs = encoded @ [10]"
    "enforce_encoded_size (length bs) limits = Inr ()"
  using assms by (auto simp: encode_def res_simps)

lemma outside_strings_newline:
  "\<exists>cs. outside_strings i e (bs @ [10]) = outside_strings i e bs @ cs \<and> set cs \<subseteq> {10}"
proof (induction i e bs rule: outside_strings.induct)
  case (1 in_string escaped)
  show ?case by (cases in_string; cases escaped) auto
qed auto

lemma bracket_depth_newline: "set cs \<subseteq> {10} \<Longrightarrow> bracket_depth d (bs @ cs) = bracket_depth d bs"
proof (induction d bs rule: bracket_depth.induct)
  case (1 d)
  have "bracket_depth d cs = d" using "1.prems" by (induction cs) auto
  then show ?case by simp
qed auto

lemma nesting_depth_newline: "nesting_depth (bs @ [10]) = nesting_depth bs"
  using outside_strings_newline [of False False bs] bracket_depth_newline
  by (auto simp: nesting_depth_def)

lemma decode_encoded:
  assumes "\<And>encoded. to_vec v = Some encoded \<Longrightarrow> from_slice (encoded @ [10]) = Inr v"
    and "\<And>encoded. to_vec v = Some encoded \<Longrightarrow> nesting_depth encoded \<le> unat (max_json_nesting_depth limits)"
    and "max_json_nesting_depth limits < - 1"
    and "encode to_vec validate v limits = Inr bs"
  shows "decode from_slice validate bs limits = Inr v"
proof -
  note enc = encode_Inr [OF assms(4)]
  from enc(2) obtain encoded where e: "to_vec v = Some encoded" "bs = encoded @ [10]" by blast
  have "enforce_nesting bs limits = Inr ()"
    using assms(2) [OF e(1)] enforce_nesting_eq [OF assms(3), of bs]
    by (simp add: e(2) nesting_depth_newline)
  then show ?thesis using enc(1,3) assms(1) [OF e(1)] by (simp add: decode_def e(2))
qed


text \<open>A tiny format for the witness: the two documents \<open>[]\<close> and \<open>{}\<close>.\<close>

definition tiny_print :: "bool \<Rightarrow> bytes option" where
  "tiny_print b = Some (if b then [91, 93] else [123, 125])"

definition tiny_parse :: "bytes \<Rightarrow> (json_error_category \<times> nat \<times> nat) + bool" where
  "tiny_parse bs =
     (if bs = [91, 93, 10] then Inr True else if bs = [123, 125, 10] then Inr False else Inl (Syntax, 1, 1))"


end
