(* ===== verification/Replay_Log.thy ===== *)
theory Replay_Log
  imports World_Snapshot Protocol_Codec
begin

text \<open>
  The append-only replay log (\<open>cogniform-replay/src/log.rs\<close> and \<open>error.rs\<close>): entries
  chained by digests, their byte format, verification of a log, and loading of the longest
  valid prefix of a byte stream. The digest function and the JSON library are arguments.
\<close>

section \<open>Configuration and errors\<close>

record replay_config =
  rp_max_entries :: u32
  rp_max_entry_bytes :: u32
  rp_max_log_bytes :: u32

datatype replay_config_error = ReplayConfigError (rce_actual: u32) (rce_minimum: u32)

definition REPLAY_HEADER :: bytes where
  "REPLAY_HEADER = map (of_nat \<circ> of_char) ''CNFRPL1'' @ [10]"

definition REPLAY_HEADER_BYTES :: u32 where "REPLAY_HEADER_BYTES = 8"
definition ENTRY_HASH_DOMAIN :: bytes where
  "ENTRY_HASH_DOMAIN = map (of_nat \<circ> of_char) ''cogniform.replay-entry'' @ [0]"
definition ENTRY_FORMAT_VERSION :: u16 where "ENTRY_FORMAT_VERSION = 1"
definition FRAME_LENGTH_BYTES :: u64 where "FRAME_LENGTH_BYTES = 4"
definition FIXED_ENTRY_BODY_BYTES :: u64 where "FIXED_ENTRY_BODY_BYTES = 166"
definition ENTRY_ENVELOPE_BYTES :: u64 where
  "ENTRY_ENVELOPE_BYTES = FRAME_LENGTH_BYTES + FIXED_ENTRY_BODY_BYTES"

definition replay_config_validate :: "replay_config \<Rightarrow> replay_config_error + unit" where
  "replay_config_validate c =
     (if rp_max_log_bytes c < REPLAY_HEADER_BYTES
      then Inl (ReplayConfigError (rp_max_log_bytes c) REPLAY_HEADER_BYTES) else Inr ())"

definition replay_config_default :: replay_config where
  "replay_config_default =
     \<lparr> rp_max_entries = 4096, rp_max_entry_bytes = 1049000, rp_max_log_bytes = 67108864 \<rparr>"

datatype replay_revision_error =
  ReplayRevisionError (rre_requested: scene_revision) (rre_latest: scene_revision)

datatype replay_integrity_error_kind =
    SequenceGap | RevisionGap | PreviousEntryHashMismatch | PreviousSceneHashMismatch
  | EntryHashMismatch

datatype replay_integrity_error =
  ReplayIntegrityError (rie_entry_index: u32) (rie_kind: replay_integrity_error_kind)

datatype replay_tail_error_kind =
    InvalidConfig replay_config_error
  | InvalidHeader
  | Truncated
  | TailLogSizeExceeded
  | TailEntrySizeExceeded
  | TailEntryCapacityExceeded
  | MalformedEntry
  | TailInvalidPatch codec_error
  | NonCanonicalPatch
  | Integrity replay_integrity_error_kind

record replay_tail_error =
  rte_verified_entries :: u32
  rte_offset :: u64
  rte_kind :: replay_tail_error_kind

section \<open>Entries\<close>

datatype replay_entry_hash = ReplayEntryHash (entry_hash_bytes: bytes)

definition ENTRY_HASH_ZERO :: replay_entry_hash where
  "ENTRY_HASH_ZERO = ReplayEntryHash (replicate 32 0)"

record replay_entry =
  en_sequence :: u64
  en_patch :: scene_patch
  en_patch_bytes :: bytes
  en_estimated_visible_frame :: frame_id
  en_previous_revision :: scene_revision
  en_new_revision :: scene_revision
  en_previous_scene_hash :: logical_scene_hash
  en_new_scene_hash :: logical_scene_hash
  en_previous_entry_hash :: replay_entry_hash
  en_entry_hash :: replay_entry_hash

record replay_entry_metadata =
  md_sequence :: u64
  md_estimated_visible_frame :: frame_id
  md_previous_revision :: scene_revision
  md_new_revision :: scene_revision
  md_previous_scene_hash :: logical_scene_hash
  md_new_scene_hash :: logical_scene_hash
  md_previous_entry_hash :: replay_entry_hash

text \<open>
  The fields of fixed width, which the digest and the encoding share; \<open>None\<close> is the panic
  on a patch that is too long.
\<close>

definition update_hash_fields :: "replay_entry \<Rightarrow> bytes option" where
  "update_hash_fields e =
     (case word_of_len (length (en_patch_bytes e)) of
        None \<Rightarrow> None
      | Some n \<Rightarrow> Some
          (to_be_bytes ENTRY_FORMAT_VERSION @ to_be_bytes (en_sequence e) @
           to_be_bytes (frame_get (en_estimated_visible_frame e)) @
           to_be_bytes (revision_get (en_previous_revision e)) @
           to_be_bytes (revision_get (en_new_revision e)) @
           scene_hash_bytes (en_previous_scene_hash e) @ scene_hash_bytes (en_new_scene_hash e) @
           entry_hash_bytes (en_previous_entry_hash e) @
           to_be_bytes (n :: u32) @ en_patch_bytes e))"

definition compute_hash :: "(bytes \<Rightarrow> bytes) \<Rightarrow> replay_entry \<Rightarrow> replay_entry_hash option" where
  "compute_hash sha e = map_option (\<lambda>bs. ReplayEntryHash (sha (ENTRY_HASH_DOMAIN @ bs))) (update_hash_fields e)"

definition replay_entry_new ::
    "(bytes \<Rightarrow> bytes) \<Rightarrow> scene_patch \<Rightarrow> bytes \<Rightarrow> replay_entry_metadata \<Rightarrow> replay_entry option" where
  "replay_entry_new sha patch patch_bytes md =
     (let entry =
        \<lparr> en_sequence = md_sequence md, en_patch = patch, en_patch_bytes = patch_bytes,
          en_estimated_visible_frame = md_estimated_visible_frame md,
          en_previous_revision = md_previous_revision md, en_new_revision = md_new_revision md,
          en_previous_scene_hash = md_previous_scene_hash md,
          en_new_scene_hash = md_new_scene_hash md,
          en_previous_entry_hash = md_previous_entry_hash md, en_entry_hash = ENTRY_HASH_ZERO \<rparr>
      in map_option (\<lambda>h. entry\<lparr> en_entry_hash := h \<rparr>) (compute_hash sha entry))"

definition entry_encoded_bytes :: "replay_entry \<Rightarrow> u64" where
  "entry_encoded_bytes e = ENTRY_ENVELOPE_BYTES + of_nat (length (en_patch_bytes e))"

definition encode_into :: "replay_entry \<Rightarrow> bytes option" where
  "encode_into e =
     (case word_of_len (unat FIXED_ENTRY_BODY_BYTES + length (en_patch_bytes e)) of
        None \<Rightarrow> None
      | Some n \<Rightarrow>
          map_option (\<lambda>fields. to_be_bytes (n :: u32) @ fields @ entry_hash_bytes (en_entry_hash e))
            (update_hash_fields e))"

section \<open>Logs\<close>

record replay_log =
  log_config :: replay_config
  log_entries :: "replay_entry list"
  log_encoded_bytes :: u64

definition replay_log_new :: "replay_config \<Rightarrow> replay_log" where
  "replay_log_new config =
     \<lparr> log_config = config, log_entries = [], log_encoded_bytes = of_nat (length REPLAY_HEADER) \<rparr>"

record replay_verification =
  rv_entry_count :: u32
  rv_final_revision :: scene_revision
  rv_final_scene_hash :: "logical_scene_hash option"
  rv_final_entry_hash :: replay_entry_hash

text \<open>
  The checks on one entry, given its index and what the entry before it left behind. The
  loop of \<open>verify\<close> and the check of the next entry of a log perform them in this order.
\<close>

definition check_entry ::
    "(bytes \<Rightarrow> bytes) \<Rightarrow> u32 \<Rightarrow> scene_revision \<Rightarrow> replay_entry_hash \<Rightarrow> logical_scene_hash option
       \<Rightarrow> replay_entry \<Rightarrow> replay_integrity_error fault + unit" where
  "check_entry sha entry_index revision entry_hash scene_hash e =
     (if en_sequence e \<noteq> ucast entry_index + 1
      then Inl (Err (ReplayIntegrityError entry_index SequenceGap))
      else if en_previous_revision e \<noteq> revision \<or>
        res_ok (checked_next (en_previous_revision e)) \<noteq> Some (en_new_revision e)
      then Inl (Err (ReplayIntegrityError entry_index RevisionGap))
      else if en_previous_entry_hash e \<noteq> entry_hash
      then Inl (Err (ReplayIntegrityError entry_index PreviousEntryHashMismatch))
      else if (case scene_hash of Some h \<Rightarrow> h \<noteq> en_previous_scene_hash e | None \<Rightarrow> False)
      then Inl (Err (ReplayIntegrityError entry_index PreviousSceneHashMismatch))
      else bind_res (ok_or Panic (compute_hash sha e)) (\<lambda>h.
        if en_entry_hash e \<noteq> h
        then Inl (Err (ReplayIntegrityError entry_index EntryHashMismatch)) else Inr ()))"

fun verify_entries ::
    "(bytes \<Rightarrow> bytes) \<Rightarrow> nat \<Rightarrow> scene_revision \<Rightarrow> replay_entry_hash \<Rightarrow> logical_scene_hash option
       \<Rightarrow> replay_entry list
       \<Rightarrow> replay_integrity_error fault + scene_revision \<times> replay_entry_hash \<times> logical_scene_hash option" where
  "verify_entries sha index revision entry_hash scene_hash [] = Inr (revision, entry_hash, scene_hash)"
| "verify_entries sha index revision entry_hash scene_hash (e # es) =
     bind_res (ok_or Panic (word_of_len index)) (\<lambda>entry_index.
     bind_res (check_entry sha entry_index revision entry_hash scene_hash e) (\<lambda>_.
       verify_entries sha (Suc index) (en_new_revision e) (en_entry_hash e) (Some (en_new_scene_hash e)) es))"

definition verify :: "(bytes \<Rightarrow> bytes) \<Rightarrow> replay_log \<Rightarrow> replay_integrity_error fault + replay_verification" where
  "verify sha log =
     bind_res (verify_entries sha 0 INITIAL ENTRY_HASH_ZERO None (log_entries log))
       (\<lambda>(revision, entry_hash, scene_hash).
     bind_res (ok_or Panic (word_of_len (length (log_entries log)))) (\<lambda>count.
       Inr \<lparr> rv_entry_count = count, rv_final_revision = revision,
             rv_final_scene_hash = scene_hash, rv_final_entry_hash = entry_hash \<rparr>))"

fun encode_entries :: "replay_entry list \<Rightarrow> bytes option" where
  "encode_entries [] = Some []"
| "encode_entries (e # es) =
     (case encode_into e of
        None \<Rightarrow> None
      | Some bs \<Rightarrow> map_option (\<lambda>rest. bs @ rest) (encode_entries es))"

definition to_bytes :: "replay_log \<Rightarrow> bytes option" where
  "to_bytes log = map_option (\<lambda>bs. REPLAY_HEADER @ bs) (encode_entries (log_entries log))"

definition latest_revision :: "replay_log \<Rightarrow> scene_revision" where
  "latest_revision log =
     (if log_entries log = [] then INITIAL else en_new_revision (last (log_entries log)))"

fun sum_encoded_bytes :: "u64 \<Rightarrow> replay_entry list \<Rightarrow> u64 option" where
  "sum_encoded_bytes n [] = Some n"
| "sum_encoded_bytes n (e # es) =
     (case checked_add n (entry_encoded_bytes e) of
        None \<Rightarrow> None
      | Some m \<Rightarrow> sum_encoded_bytes m es)"

definition to_bytes_through_revision ::
    "replay_log \<Rightarrow> scene_revision \<Rightarrow> replay_revision_error fault + bytes" where
  "to_bytes_through_revision log revision =
     (if latest_revision log < revision
      then Inl (Err (ReplayRevisionError revision (latest_revision log)))
      else
        (let entry_count = unat (revision_get revision) in
         bind_res (ok_or Panic (slice_get (log_entries log) 0 entry_count)) (\<lambda>entries.
         bind_res (ok_or Panic (sum_encoded_bytes (of_nat (length REPLAY_HEADER)) entries)) (\<lambda>_.
           ok_or Panic (map_option (\<lambda>bs. REPLAY_HEADER @ bs) (encode_entries entries))))))"

definition last_entry_hash :: "replay_log \<Rightarrow> replay_entry_hash" where
  "last_entry_hash log =
     (if log_entries log = [] then ENTRY_HASH_ZERO else en_entry_hash (last (log_entries log)))"

definition last_scene_hash :: "replay_log \<Rightarrow> logical_scene_hash option" where
  "last_scene_hash log =
     (if log_entries log = [] then None else Some (en_new_scene_hash (last (log_entries log))))"

definition verify_next :: "(bytes \<Rightarrow> bytes) \<Rightarrow> replay_log \<Rightarrow> replay_entry \<Rightarrow> replay_integrity_error fault + unit" where
  "verify_next sha log e =
     bind_res (ok_or Panic (word_of_len (length (log_entries log)))) (\<lambda>entry_index.
       check_entry sha entry_index (latest_revision log) (last_entry_hash log) (last_scene_hash log) e)"

definition append_entry :: "replay_entry \<Rightarrow> replay_log \<Rightarrow> replay_log" where
  "append_entry e log =
     log\<lparr> log_encoded_bytes := saturating_add (log_encoded_bytes log) (entry_encoded_bytes e),
          log_entries := log_entries log @ [e] \<rparr>"

section \<open>Decoding and loading\<close>

text \<open>The JSON library, for patches.\<close>

record patch_json =
  json_to_vec :: "scene_patch \<Rightarrow> bytes option"
  json_from_slice :: "bytes \<Rightarrow> (json_error_category \<times> nat \<times> nat) + scene_patch"

definition patch_to_canonical_json :: "patch_json \<Rightarrow> scene_patch \<Rightarrow> runtime_limits \<Rightarrow> codec_error + bytes" where
  "patch_to_canonical_json json patch limits = encode (json_to_vec json) patch_validate patch limits"

definition patch_from_json :: "patch_json \<Rightarrow> bytes \<Rightarrow> runtime_limits \<Rightarrow> codec_error + scene_patch" where
  "patch_from_json json encoded limits = decode (json_from_slice json) patch_validate encoded limits"

record entry_reader =
  er_encoded :: bytes
  er_position :: nat

definition reader_new :: "bytes \<Rightarrow> entry_reader" where
  "reader_new encoded = \<lparr> er_encoded = encoded, er_position = 0 \<rparr>"

definition remaining :: "entry_reader \<Rightarrow> nat" where
  "remaining r = length (er_encoded r) - er_position r"

definition read_bytes :: "nat \<Rightarrow> entry_reader \<Rightarrow> replay_tail_error_kind + bytes \<times> entry_reader" where
  "read_bytes n r =
     (case slice_get (er_encoded r) (er_position r) (er_position r + n) of
        None \<Rightarrow> Inl MalformedEntry
      | Some bs \<Rightarrow> Inr (bs, r\<lparr> er_position := er_position r + n \<rparr>))"

definition read_u16 :: "entry_reader \<Rightarrow> replay_tail_error_kind + u16 \<times> entry_reader" where
  "read_u16 r = bind_res (read_bytes 2 r) (\<lambda>(bs, r). Inr (from_be_bytes bs, r))"

definition read_u32 :: "entry_reader \<Rightarrow> replay_tail_error_kind + u32 \<times> entry_reader" where
  "read_u32 r = bind_res (read_bytes 4 r) (\<lambda>(bs, r). Inr (from_be_bytes bs, r))"

definition read_u64 :: "entry_reader \<Rightarrow> replay_tail_error_kind + u64 \<times> entry_reader" where
  "read_u64 r = bind_res (read_bytes 8 r) (\<lambda>(bs, r). Inr (from_be_bytes bs, r))"

definition check_canonical ::
    "patch_json \<Rightarrow> runtime_limits \<Rightarrow> bytes \<Rightarrow> replay_tail_error_kind + scene_patch" where
  "check_canonical json limits patch_bytes =
     bind_res (map_err TailInvalidPatch (patch_from_json json patch_bytes limits)) (\<lambda>patch.
     bind_res (map_err TailInvalidPatch (patch_to_canonical_json json patch limits)) (\<lambda>canonical.
       if canonical \<noteq> patch_bytes then Inl NonCanonicalPatch else Inr patch))"

definition decode_entry ::
    "patch_json \<Rightarrow> runtime_limits \<Rightarrow> bytes \<Rightarrow> replay_tail_error_kind + replay_entry" where
  "decode_entry json limits encoded =
     (if length encoded < unat FIXED_ENTRY_BODY_BYTES then Inl MalformedEntry
      else
       bind_res (read_u16 (reader_new encoded)) (\<lambda>(version, r).
       if version \<noteq> ENTRY_FORMAT_VERSION then Inl MalformedEntry
       else
       bind_res (read_u64 r) (\<lambda>(sequence, r).
       bind_res (read_u64 r) (\<lambda>(value, r).
       bind_res (map_err (\<lambda>_. MalformedEntry) (frame_id_new value)) (\<lambda>frame.
       bind_res (read_u64 r) (\<lambda>(previous_revision, r).
       bind_res (read_u64 r) (\<lambda>(new_revision, r).
       bind_res (read_bytes 32 r) (\<lambda>(previous_scene_hash, r).
       bind_res (read_bytes 32 r) (\<lambda>(new_scene_hash, r).
       bind_res (read_bytes 32 r) (\<lambda>(previous_entry_hash, r).
       bind_res (read_u32 r) (\<lambda>(patch_len, r).
       if remaining r \<noteq> unat patch_len + 32 then Inl MalformedEntry
       else
       bind_res (read_bytes (unat patch_len) r) (\<lambda>(patch_bytes, r).
       bind_res (read_bytes 32 r) (\<lambda>(entry_hash, r).
       bind_res (check_canonical json limits patch_bytes) (\<lambda>patch.
         Inr \<lparr> en_sequence = sequence, en_patch = patch, en_patch_bytes = patch_bytes,
               en_estimated_visible_frame = frame,
               en_previous_revision = SceneRevision previous_revision,
               en_new_revision = SceneRevision new_revision,
               en_previous_scene_hash = LogicalSceneHash previous_scene_hash,
               en_new_scene_hash = LogicalSceneHash new_scene_hash,
               en_previous_entry_hash = ReplayEntryHash previous_entry_hash,
               en_entry_hash = ReplayEntryHash entry_hash \<rparr>))))))))))))))"

record replay_load =
  ld_log :: replay_log
  ld_tail :: "replay_tail_error option"

text \<open>A load that stops; the count of entries must fit, or the program panics.\<close>

definition with_tail :: "replay_log \<Rightarrow> nat \<Rightarrow> replay_tail_error_kind \<Rightarrow> replay_load option" where
  "with_tail log offset kind =
     map_option (\<lambda>n. \<lparr> ld_log = log,
         ld_tail = Some \<lparr> rte_verified_entries = n, rte_offset = of_nat offset, rte_kind = kind \<rparr> \<rparr>)
       (word_of_len (length (log_entries log)))"

text \<open>
  One turn of the loading loop at \<open>offset\<close>: the entry that was read there and the offset
  behind it, or why loading stops.
\<close>

definition framed_len :: "u32 \<Rightarrow> u64" where
  "framed_len body_len = ucast body_len + FRAME_LENGTH_BYTES"

definition load_frame ::
    "(bytes \<Rightarrow> bytes) \<Rightarrow> patch_json \<Rightarrow> runtime_limits \<Rightarrow> replay_config \<Rightarrow> bytes \<Rightarrow> replay_log \<Rightarrow> nat
       \<Rightarrow> replay_tail_error_kind fault + replay_entry \<times> u32" where
  "load_frame sha json limits config encoded log offset =
     (case slice_get encoded offset (offset + 4) of
        None \<Rightarrow> Inl (Err Truncated)
      | Some length_bytes \<Rightarrow>
          (let body_len = from_be_bytes length_bytes :: u32 in
           if framed_len body_len > ucast (rp_max_entry_bytes config)
           then Inl (Err TailEntrySizeExceeded)
           else if length (log_entries log) \<ge> unat (rp_max_entries config)
           then Inl (Err TailEntryCapacityExceeded)
           else
             (case slice_get encoded (offset + 4) (offset + 4 + unat body_len) of
                None \<Rightarrow> Inl (Err Truncated)
              | Some body \<Rightarrow>
                  bind_res (map_err Err (decode_entry json limits body)) (\<lambda>e.
                  bind_res (map_err (map_fault (\<lambda>x. Integrity (rie_kind x))) (verify_next sha log e)) (\<lambda>_.
                    Inr (e, body_len))))))"

definition push_loaded :: "replay_entry \<Rightarrow> u32 \<Rightarrow> replay_log \<Rightarrow> replay_log" where
  "push_loaded e body_len log =
     log\<lparr> log_entries := log_entries log @ [e],
          log_encoded_bytes :=
            saturating_add (log_encoded_bytes log) (framed_len body_len) \<rparr>"

function load_entries ::
    "(bytes \<Rightarrow> bytes) \<Rightarrow> patch_json \<Rightarrow> runtime_limits \<Rightarrow> replay_config \<Rightarrow> bytes \<Rightarrow> replay_log \<Rightarrow> nat
       \<Rightarrow> replay_load option" where
  "load_entries sha json limits config encoded log offset =
     (if offset < length encoded then
        (case load_frame sha json limits config encoded log offset of
           Inl (Err kind) \<Rightarrow> with_tail log offset kind
         | Inl _ \<Rightarrow> None
         | Inr (e, body_len) \<Rightarrow>
             load_entries sha json limits config encoded (push_loaded e body_len log)
               (offset + 4 + unat body_len))
      else Some \<lparr> ld_log = log, ld_tail = None \<rparr>)"
  by pat_completeness auto
termination
  by (relation "measure (\<lambda>(sha, json, limits, config, encoded, log, offset). length encoded - offset)") auto

declare load_entries.simps [simp del]

definition load_prefix ::
    "(bytes \<Rightarrow> bytes) \<Rightarrow> patch_json \<Rightarrow> bytes \<Rightarrow> replay_config \<Rightarrow> runtime_limits \<Rightarrow> replay_load option" where
  "load_prefix sha json encoded config limits =
     (let log = replay_log_new config in
      case replay_config_validate config of
        Inl e \<Rightarrow> with_tail log 0 (InvalidConfig e)
      | Inr _ \<Rightarrow>
          if length encoded > unat (rp_max_log_bytes config)
          then with_tail log 0 TailLogSizeExceeded
          else if slice_get encoded 0 (length REPLAY_HEADER) \<noteq> Some REPLAY_HEADER
          then with_tail log 0 InvalidHeader
          else load_entries sha json limits config encoded log (length REPLAY_HEADER))"

end
