(* ===== verification/Replay_Load.thy ===== *)
theory Replay_Load
  imports Replay_Log "HOL-Library.Sublist"
begin

text \<open>
  The byte format of the replay log. Decoding accepts exactly the encodings of well-formed
  entries; loading is total, a loaded log always verifies and re-encodes to exactly the
  bytes it was read from, and the encoding of a verified log is loaded back completely,
  whatever follows it.
\<close>

section \<open>Entries and their bytes\<close>

lemma unat_replay_constants [simp]:
  "unat FIXED_ENTRY_BODY_BYTES = 166" "unat FRAME_LENGTH_BYTES = 4" "unat ENTRY_ENVELOPE_BYTES = 170"
  "length REPLAY_HEADER = 8"
  by (simp_all add: FIXED_ENTRY_BODY_BYTES_def FRAME_LENGTH_BYTES_def ENTRY_ENVELOPE_BYTES_def REPLAY_HEADER_def)

lemma unat_framed_len: "unat (framed_len n) = unat n + 4"
proof -
  have "unat n < 2 ^ 32" using unat_bound [of n] by simp
  then have "unat (ucast n :: u64) + unat FRAME_LENGTH_BYTES < 2 ^ LENGTH(64)" by (simp add: unat_ucast_u64)
  then show ?thesis unfolding framed_len_def by (simp add: unat_add_no_overflow unat_ucast_u64)
qed

text \<open>A reader that has consumed \<open>pre\<close> and has \<open>rest\<close> still before it.\<close>

definition reader_at :: "bytes \<Rightarrow> bytes \<Rightarrow> entry_reader" where
  "reader_at pre rest = \<lparr> er_encoded = pre @ rest, er_position = length pre \<rparr>"

lemma reader_new_at: "reader_new encoded = reader_at [] encoded"
  by (simp add: reader_new_def reader_at_def)

lemma remaining_at: "remaining (reader_at pre rest) = length rest"
  by (simp add: remaining_def reader_at_def)

lemma read_bytes_at:
  "read_bytes n (reader_at pre rest) = Inr (bs, r) \<longleftrightarrow>
    (\<exists>rest'. rest = bs @ rest' \<and> length bs = n \<and> r = reader_at (pre @ bs) rest')"
proof -
  have "read_bytes n (reader_at pre rest) =
      (if n \<le> length rest then Inr (take n rest, reader_at (pre @ take n rest) (drop n rest)) else Inl MalformedEntry)"
    by (simp add: read_bytes_def reader_at_def slice_get_def)
  moreover have "(\<exists>rest'. rest = bs @ rest' \<and> length bs = n \<and> r = reader_at (pre @ bs) rest') \<longleftrightarrow>
      n \<le> length rest \<and> bs = take n rest \<and> r = reader_at (pre @ take n rest) (drop n rest)"
    by (auto intro: exI [of _ "drop n rest"])
  ultimately show ?thesis by auto
qed

lemma from_be_bytes_iff:
  assumes "length bs * 8 = LENGTH('a::len)"
  shows "from_be_bytes bs = (w :: 'a word) \<longleftrightarrow> bs = to_be_bytes w"
proof -
  have "8 dvd LENGTH('a)" using assms by (metis dvd_triv_right)
  then show ?thesis using to_from_be_bytes [OF assms] from_to_be_bytes by metis
qed

lemma read_word_at:
  assumes "n * 8 = LENGTH('a::len)"
  shows "bind_res (read_bytes n (reader_at pre rest)) (\<lambda>(bs, r). Inr (from_be_bytes bs :: 'a word, r)) = Inr (w, r) \<longleftrightarrow>
      (\<exists>rest'. rest = to_be_bytes w @ rest' \<and> r = reader_at (pre @ to_be_bytes w) rest')"
proof -
  have len: "length (to_be_bytes w) = n" using assms by simp
  have bytes: "length bs = n \<and> from_be_bytes bs = w \<longleftrightarrow> bs = to_be_bytes w" for bs
    using from_be_bytes_iff [of bs, where 'a = 'a] len assms by metis
  have "bind_res (read_bytes n (reader_at pre rest)) (\<lambda>(bs, r). Inr (from_be_bytes bs :: 'a word, r)) = Inr (w, r) \<longleftrightarrow>
      (\<exists>bs rest'. (length bs = n \<and> from_be_bytes bs = w) \<and> rest = bs @ rest' \<and> r = reader_at (pre @ bs) rest')"
    by (auto simp: res_simps read_bytes_at)
  then show ?thesis unfolding bytes by auto
qed

lemma read_u16_at: "read_u16 (reader_at pre rest) = Inr (w, r) \<longleftrightarrow>
    (\<exists>rest'. rest = to_be_bytes w @ rest' \<and> r = reader_at (pre @ to_be_bytes w) rest')"
  unfolding read_u16_def by (rule read_word_at) simp

lemma read_u32_at: "read_u32 (reader_at pre rest) = Inr (w, r) \<longleftrightarrow>
    (\<exists>rest'. rest = to_be_bytes w @ rest' \<and> r = reader_at (pre @ to_be_bytes w) rest')"
  unfolding read_u32_def by (rule read_word_at) simp

lemma read_u64_at: "read_u64 (reader_at pre rest) = Inr (w, r) \<longleftrightarrow>
    (\<exists>rest'. rest = to_be_bytes w @ rest' \<and> r = reader_at (pre @ to_be_bytes w) rest')"
  unfolding read_u64_def by (rule read_word_at) simp

lemmas read_at = read_u16_at read_u32_at read_u64_at read_bytes_at

text \<open>
  The body of a frame and what decoding demands of an entry. Decoding accepts exactly the
  bodies of such entries.
\<close>

definition entry_body :: "replay_entry \<Rightarrow> bytes option" where
  "entry_body e = map_option (\<lambda>fields. fields @ entry_hash_bytes (en_entry_hash e)) (update_hash_fields e)"

definition entry_wf :: "patch_json \<Rightarrow> runtime_limits \<Rightarrow> replay_entry \<Rightarrow> bool" where
  "entry_wf json limits e \<longleftrightarrow>
     frame_get (en_estimated_visible_frame e) \<noteq> 0 \<and>
     length (scene_hash_bytes (en_previous_scene_hash e)) = 32 \<and>
     length (scene_hash_bytes (en_new_scene_hash e)) = 32 \<and>
     length (entry_hash_bytes (en_previous_entry_hash e)) = 32 \<and>
     length (entry_hash_bytes (en_entry_hash e)) = 32 \<and>
     check_canonical json limits (en_patch_bytes e) = Inr (en_patch e)"

lemma entry_body_eq:
  "entry_body e = Some body \<longleftrightarrow> length (en_patch_bytes e) < 2 ^ 32 \<and>
     body = to_be_bytes ENTRY_FORMAT_VERSION @ to_be_bytes (en_sequence e) @
       to_be_bytes (frame_get (en_estimated_visible_frame e)) @
       to_be_bytes (revision_get (en_previous_revision e)) @
       to_be_bytes (revision_get (en_new_revision e)) @
       scene_hash_bytes (en_previous_scene_hash e) @ scene_hash_bytes (en_new_scene_hash e) @
       entry_hash_bytes (en_previous_entry_hash e) @
       to_be_bytes (of_nat (length (en_patch_bytes e)) :: u32) @ en_patch_bytes e @
       entry_hash_bytes (en_entry_hash e)"
  by (auto simp: entry_body_def update_hash_fields_def word_of_len_def)

lemma length_entry_body:
  assumes "entry_body e = Some body" "entry_wf json limits e"
  shows "length body = 166 + length (en_patch_bytes e)"
  using assms by (simp add: entry_body_eq entry_wf_def)

lemma frame_id_new_iff: "frame_id_new v = Inr f \<longleftrightarrow> v \<noteq> 0 \<and> f = FrameId v"
  by (auto simp: frame_id_new_def)

lemma read_forward:
  "read_u16 (reader_at pre (to_be_bytes a @ rest)) = Inr (a, reader_at (pre @ to_be_bytes a) rest)"
  "read_u32 (reader_at pre (to_be_bytes b @ rest)) = Inr (b, reader_at (pre @ to_be_bytes b) rest)"
  "read_u64 (reader_at pre (to_be_bytes c @ rest)) = Inr (c, reader_at (pre @ to_be_bytes c) rest)"
  "length bs = n \<Longrightarrow> read_bytes n (reader_at pre (bs @ rest)) = Inr (bs, reader_at (pre @ bs) rest)"
  "length bs = n \<Longrightarrow> read_bytes n (reader_at pre bs) = Inr (bs, reader_at (pre @ bs) [])"
  by (simp_all add: read_at)

lemma decode_entry_body:
  assumes body: "entry_body e = Some body" and wf: "entry_wf json limits e"
  shows "decode_entry json limits body = Inr e"
proof -
  have n: "unat (of_nat (length (en_patch_bytes e)) :: u32) = length (en_patch_bytes e)"
    by (rule unat_of_nat_small) (use body in \<open>simp add: entry_body_eq\<close>)
  have "\<not> length body < 166" using length_entry_body [OF body wf] by simp
  with wf n show ?thesis
    unfolding decode_entry_def unat_replay_constants body [unfolded entry_body_eq, THEN conjunct2]
    by (cases e) (simp add: reader_new_at read_forward remaining_at frame_id_new_def entry_wf_def)
qed

lemma decode_entry_inv:
  assumes dec: "decode_entry json limits body = Inr e"
  shows "entry_wf json limits e \<and> entry_body e = Some body"
proof -
  have len: "unat w < 4294967296" for w :: u32
    using unat_bound [of w] by simp
  from dec show ?thesis
    unfolding decode_entry_def unat_replay_constants
    by (auto simp: reader_new_at res_simps read_at remaining_at frame_id_new_iff entry_wf_def entry_body_eq len)
qed

lemma encode_into_body:
  assumes "entry_wf json limits e"
  shows "encode_into e = Some bs \<longleftrightarrow> (\<exists>body. entry_body e = Some body \<and> length body < 2 ^ 32 \<and>
    bs = to_be_bytes (of_nat (length body) :: u32) @ body)"
  using length_entry_body [OF _ assms]
  by (auto simp: encode_into_def entry_body_def word_of_len_def split: if_splits)

section \<open>Verification\<close>

lemma verify_entries_append:
  "verify_entries sha index revision entry_hash scene_hash (xs @ ys) =
     bind_res (verify_entries sha index revision entry_hash scene_hash xs)
       (\<lambda>(r, h, s). verify_entries sha (index + length xs) r h s ys)"
proof (induction xs arbitrary: index revision entry_hash scene_hash)
  case (Cons x xs)
  show ?case
    by (cases "word_of_len index :: u32 option"; simp add: Cons)
      (rename_tac i, case_tac "check_entry sha i revision entry_hash scene_hash x"; simp)
qed simp

lemma verify_entries_final:
  assumes "verify_entries sha index revision entry_hash scene_hash es = Inr (r, h, s)" "es \<noteq> []"
  shows "r = en_new_revision (last es) \<and> h = en_entry_hash (last es) \<and> s = Some (en_new_scene_hash (last es))"
  using assms
  by (induction es arbitrary: index revision entry_hash scene_hash) (auto simp: res_simps split: if_splits)

definition verified :: "(bytes \<Rightarrow> bytes) \<Rightarrow> replay_log \<Rightarrow> bool" where
  "verified sha log \<longleftrightarrow> is_ok (verify sha log)"

text \<open>What a successful verification returns.\<close>

lemma verified_result:
  assumes "verified sha log"
  shows "verify sha log =
    Inr \<lparr> rv_entry_count = of_nat (length (log_entries log)), rv_final_revision = latest_revision log,
          rv_final_scene_hash = last_scene_hash log, rv_final_entry_hash = last_entry_hash log \<rparr>"
  using assms verify_entries_final [of sha 0 INITIAL ENTRY_HASH_ZERO None "log_entries log"]
  by (cases "log_entries log = []")
    (auto simp: verified_def is_ok_iff verify_def res_simps latest_revision_def last_scene_hash_def last_entry_hash_def)

lemma verified_iff:
  "verified sha log \<longleftrightarrow> length (log_entries log) < 2 ^ 32 \<and>
     verify_entries sha 0 INITIAL ENTRY_HASH_ZERO None (log_entries log) =
       Inr (latest_revision log, last_entry_hash log, last_scene_hash log)"
proof
  assume "verified sha log"
  then show "length (log_entries log) < 2 ^ 32 \<and>
     verify_entries sha 0 INITIAL ENTRY_HASH_ZERO None (log_entries log) =
       Inr (latest_revision log, last_entry_hash log, last_scene_hash log)"
    using verified_result [of sha log] by (auto simp: verify_def res_simps)
qed (simp add: verified_def verify_def word_of_len_def)

lemma log_ends_snoc [simp]:
  assumes "log_entries log' = es @ [e]"
  shows "latest_revision log' = en_new_revision e" "last_entry_hash log' = en_entry_hash e"
    "last_scene_hash log' = Some (en_new_scene_hash e)"
  using assms by (simp_all add: latest_revision_def last_entry_hash_def last_scene_hash_def)

lemma verified_snoc:
  assumes "log_entries log' = log_entries log @ [e]"
  shows "verified sha log' \<longleftrightarrow> verified sha log \<and> verify_next sha log e = Inr () \<and>
    length (log_entries log) + 1 < 2 ^ 32"
proof -
  let ?n = "length (log_entries log)"
  have "verify_entries sha 0 INITIAL ENTRY_HASH_ZERO None (log_entries log') =
      Inr (latest_revision log', last_entry_hash log', last_scene_hash log') \<and> Suc ?n < 2 ^ 32 \<longleftrightarrow>
    (\<exists>r h s. verify_entries sha 0 INITIAL ENTRY_HASH_ZERO None (log_entries log) = Inr (r, h, s) \<and>
      check_entry sha (of_nat ?n) r h s e = Inr ()) \<and> Suc ?n < 2 ^ 32"
    by (auto simp: log_ends_snoc [OF assms] assms verify_entries_append res_simps)
  moreover have "verify_next sha log e = Inr () \<longleftrightarrow>
      check_entry sha (of_nat ?n) (latest_revision log) (last_entry_hash log) (last_scene_hash log) e = Inr () \<and> ?n < 2 ^ 32"
    by (auto simp: verify_next_def res_simps)
  ultimately show ?thesis
    unfolding verified_iff using verified_result [of sha log] verified_iff [of sha log]
    by (auto simp: verified_def is_ok_iff verify_def res_simps assms)
qed

section \<open>Loading\<close>

lemma encode_entries_snoc:
  "encode_entries (es @ [e]) = Some bs \<longleftrightarrow>
     (\<exists>xs ys. encode_entries es = Some xs \<and> encode_into e = Some ys \<and> bs = xs @ ys)"
  by (induction es arbitrary: bs) (auto split: option.splits)

lemma to_bytes_snoc:
  "log_entries log' = log_entries log @ [e] \<Longrightarrow> to_bytes log' = Some bs \<longleftrightarrow>
     (\<exists>xs ys. to_bytes log = Some xs \<and> encode_into e = Some ys \<and> bs = xs @ ys)"
  by (auto simp: to_bytes_def encode_entries_snoc)

lemma to_bytes_not_Nil [simp]: "to_bytes log \<noteq> Some []"
  using unat_replay_constants(4) by (auto simp: to_bytes_def simp del: unat_replay_constants(4))

lemma load_frame_inv:
  assumes frame: "load_frame sha json limits config encoded log offset = Inr (e, n)"
  shows "entry_wf json limits e" "verify_next sha log e = Inr ()"
    "length (log_entries log) < unat (rp_max_entries config)" "unat n + 4 \<le> unat (rp_max_entry_bytes config)"
    "offset + 4 + unat n \<le> length encoded"
    "\<exists>bs. encode_into e = Some bs \<and> take (offset + 4 + unat n) encoded = take offset encoded @ bs"
proof -
  from frame obtain body where n: "offset + 4 \<le> length encoded" "n = from_be_bytes (take 4 (drop offset encoded))"
      and len: "\<not> framed_len n > ucast (rp_max_entry_bytes config)" "\<not> length (log_entries log) \<ge> unat (rp_max_entries config)"
      and body: "offset + 4 + unat n \<le> length encoded" "body = take (unat n) (drop (offset + 4) encoded)"
      and dec: "decode_entry json limits body = Inr e" and ver: "verify_next sha log e = Inr ()"
    by (auto simp: load_frame_def Let_def res_simps split: option.splits if_splits)
  from decode_entry_inv [OF dec] have wf: "entry_wf json limits e" and eb: "entry_body e = Some body" by simp_all
  show "entry_wf json limits e" "verify_next sha log e = Inr ()" "offset + 4 + unat n \<le> length encoded"
      "length (log_entries log) < unat (rp_max_entries config)"
    using wf ver body(1) len(2) by simp_all
  from len(1) show "unat n + 4 \<le> unat (rp_max_entry_bytes config)"
    by (simp add: word_less_unat unat_framed_len unat_ucast_u64)
  have blen: "length body = unat n" using body by simp
  have "to_be_bytes n = take 4 (drop offset encoded)"
    unfolding n(2) by (rule to_from_be_bytes) (use n(1) in simp)
  moreover have "of_nat (length body) = n" "length body < 2 ^ 32" using blen unat_bound [of n] by simp_all
  ultimately have "encode_into e = Some (take 4 (drop offset encoded) @ body)"
    using eb by (simp add: encode_into_body [OF wf])
  moreover have "take (offset + 4 + unat n) encoded = take offset encoded @ take 4 (drop offset encoded) @ body"
    unfolding body(2) by (simp only: take_add append_assoc)
  ultimately show "\<exists>bs. encode_into e = Some bs \<and> take (offset + 4 + unat n) encoded = take offset encoded @ bs"
    by blast
qed

text \<open>Reading a frame never panics within the bounds of the configuration.\<close>

lemma load_frame_no_panic:
  assumes "length (log_entries log) \<le> unat (rp_max_entries config)"
  shows "(\<exists>k. load_frame sha json limits config encoded log offset = Inl (Err k)) \<or>
    (\<exists>e n. load_frame sha json limits config encoded log offset = Inr (e, n))"
proof -
  have len: "length (log_entries log) < 2 ^ 32"
    using assms unat_bound [of "rp_max_entries config"] by simp
  have next_ok: "(\<exists>x. verify_next sha log e = Inl (Err x)) \<or> verify_next sha log e = Inr ()"
    if dec: "decode_entry json limits body = Inr e" for e body
  proof -
    obtain h where "compute_hash sha e = Some h"
      using decode_entry_inv [OF dec] by (auto simp: entry_body_def compute_hash_def)
    with len show ?thesis by (simp add: verify_next_def word_of_len_def check_entry_def)
  qed
  show ?thesis
  proof (cases "slice_get encoded offset (offset + 4)")
    case (Some length_bytes)
    show ?thesis
    proof (cases "slice_get encoded (offset + 4) (offset + 4 + unat (from_be_bytes length_bytes :: u32))")
      case body: (Some body)
      show ?thesis
      proof (cases "decode_entry json limits body")
        case (Inr e)
        from next_ok [OF Inr] show ?thesis by (auto simp: load_frame_def Let_def Some body Inr)
      qed (simp add: load_frame_def Let_def Some body)
    qed (simp add: load_frame_def Let_def Some)
  qed (simp add: load_frame_def)
qed

definition load_inv ::
    "(bytes \<Rightarrow> bytes) \<Rightarrow> patch_json \<Rightarrow> runtime_limits \<Rightarrow> replay_config \<Rightarrow> bytes \<Rightarrow> replay_log \<Rightarrow> nat \<Rightarrow> bool" where
  "load_inv sha json limits config encoded log offset \<longleftrightarrow>
     log_config log = config \<and> verified sha log \<and> list_all (entry_wf json limits) (log_entries log) \<and>
     length (log_entries log) \<le> unat (rp_max_entries config) \<and>
     offset \<le> length encoded \<and> to_bytes log = Some (take offset encoded) \<and>
     unat (log_encoded_bytes log) = offset"

lemma load_inv_push:
  assumes inv: "load_inv sha json limits config encoded log offset" and small: "length encoded < 2 ^ 32"
    and frame: "load_frame sha json limits config encoded log offset = Inr (e, n)"
  shows "load_inv sha json limits config encoded (push_loaded e n log) (offset + 4 + unat n)"
proof -
  note fr = load_frame_inv [OF frame]
  have entries: "log_entries (push_loaded e n log) = log_entries log @ [e]" by (simp add: push_loaded_def)
  have "unat (rp_max_entries config) < 2 ^ 32" using unat_bound [of "rp_max_entries config"] by simp
  then have "verified sha (push_loaded e n log)"
    using inv fr(2,3) by (simp add: verified_snoc [OF entries] load_inv_def)
  moreover have "to_bytes (push_loaded e n log) = Some (take (offset + 4 + unat n) encoded)"
    using inv fr(6) by (auto simp: to_bytes_snoc [OF entries] load_inv_def)
  moreover have "unat (log_encoded_bytes (push_loaded e n log)) = offset + 4 + unat n"
    using inv fr(5) small by (simp add: push_loaded_def unat_saturating_add unat_framed_len load_inv_def)
  ultimately show ?thesis using inv fr(1,3,5) by (simp add: load_inv_def entries) (simp add: push_loaded_def)
qed

definition load_result_ok ::
    "(bytes \<Rightarrow> bytes) \<Rightarrow> patch_json \<Rightarrow> runtime_limits \<Rightarrow> replay_config \<Rightarrow> bytes \<Rightarrow> replay_load \<Rightarrow> bool" where
  "load_result_ok sha json limits config encoded ld \<longleftrightarrow>
     (case ld_tail ld of
        None \<Rightarrow> load_inv sha json limits config encoded (ld_log ld) (length encoded)
      | Some t \<Rightarrow> load_inv sha json limits config encoded (ld_log ld) (unat (rte_offset t)) \<and>
          unat (rte_verified_entries t) = length (log_entries (ld_log ld)) \<and>
          unat (rte_offset t) < length encoded)"

lemma load_entries_result:
  assumes "load_inv sha json limits config encoded log offset" "length encoded < 2 ^ 32"
  shows "\<exists>ld. load_entries sha json limits config encoded log offset = Some ld \<and>
    load_result_ok sha json limits config encoded ld"
  using assms
proof (induction sha json limits config encoded log offset rule: load_entries.induct)
  case (1 sha json limits config encoded log offset)
  have len: "length (log_entries log) \<le> unat (rp_max_entries config)" using "1.prems"(1) by (simp add: load_inv_def)
  show ?case
  proof (cases "offset < length encoded")
    case False
    with "1.prems"(1) show ?thesis
      by (subst load_entries.simps) (auto simp: load_result_ok_def load_inv_def)
  next
    case True
    from load_frame_no_panic [OF len] consider
        k where "load_frame sha json limits config encoded log offset = Inl (Err k)"
      | e n where "load_frame sha json limits config encoded log offset = Inr (e, n)" by blast
    then show ?thesis
    proof cases
      case (1 k)
      have "length (log_entries log) < 2 ^ 32"
        using len unat_bound [of "rp_max_entries config"] by simp
      moreover have "unat (of_nat offset :: u64) = offset"
        by (rule unat_of_nat_small) (use True \<open>length encoded < 2 ^ 32\<close> in simp)
      ultimately show ?thesis
        using \<open>load_inv sha json limits config encoded log offset\<close> True
        by (subst load_entries.simps)
          (simp add: 1 with_tail_def word_of_len_def load_result_ok_def unat_of_nat_small)
    next
      case (2 e n)
      have "load_inv sha json limits config encoded (push_loaded e n log) (offset + 4 + unat n)"
        by (rule load_inv_push [OF "1.prems" 2])
      from "1.IH" [OF True 2 refl this "1.prems"(2)] True 2 show ?thesis
        by (subst load_entries.simps) simp
    qed
  qed
qed

lemma load_frame_ok:
  assumes wf: "entry_wf json limits e" and ver: "verify_next sha log e = Inr ()"
    and enc: "encode_into e = Some bs" and at: "drop offset encoded = bs @ rest"
    and small: "length bs \<le> unat (rp_max_entry_bytes config)" "length (log_entries log) < unat (rp_max_entries config)"
  obtains n where "load_frame sha json limits config encoded log offset = Inr (e, n)" "length bs = 4 + unat n"
proof -
  obtain body where body: "entry_body e = Some body" "length body < 2 ^ 32"
      "bs = to_be_bytes (of_nat (length body) :: u32) @ body"
    using enc by (auto simp: encode_into_body [OF wf])
  define n :: u32 where "n = of_nat (length body)"
  have n: "unat n = length body" unfolding n_def by (rule unat_of_nat_small) (use body(2) in simp)
  have len: "offset + 4 + length body \<le> length encoded"
    using arg_cong [OF at, of length] body(3) by (cases "offset \<le> length encoded") simp_all
  have "take 4 (drop offset encoded) = to_be_bytes n" by (simp add: at body(3) n_def)
  then have s1: "slice_get encoded offset (offset + 4) = Some (to_be_bytes n)"
    using len by (simp add: slice_get_def)
  have "drop (offset + 4) encoded = drop 4 (drop offset encoded)" by (simp add: add.commute)
  also have "\<dots> = body @ rest" by (simp add: at body(3))
  finally have s2: "slice_get encoded (offset + 4) (offset + 4 + unat n) = Some body"
    using len by (simp add: slice_get_def n)
  have word: "from_be_bytes (to_be_bytes n) = n" by (rule from_to_be_bytes) simp
  have "\<not> framed_len n > ucast (rp_max_entry_bytes config)"
    using small(1) body(3) by (simp add: word_less_unat unat_framed_len unat_ucast_u64 n)
  then have "load_frame sha json limits config encoded log offset = Inr (e, n)"
    using small(2) decode_entry_body [OF body(1) wf] ver
    by (simp add: load_frame_def s1 s2 word Let_def)
  then show thesis by (rule that) (simp add: body(3) n)
qed

lemma verified_prefix:
  assumes "verified sha log'" "log_entries log' = log_entries log @ es"
  shows "verified sha log"
  using assms by (auto simp: verified_def is_ok_iff verify_def res_simps verify_entries_append)

text \<open>Loading reads the entries of a verified log that stand at the front of the stream.\<close>

lemma load_entries_front:
  assumes "load_inv sha json limits config encoded log offset" "length encoded < 2 ^ 32"
    and "encode_entries es = Some bs" "drop offset encoded = bs @ rest"
    and "list_all (entry_wf json limits) es"
    and "\<forall>e\<in>set es. \<forall>x. encode_into e = Some x \<longrightarrow> length x \<le> unat (rp_max_entry_bytes config)"
    and "length (log_entries log) + length es \<le> unat (rp_max_entries config)"
    and "verified sha log'" "log_entries log' = log_entries log @ es"
  shows "\<exists>log2. load_entries sha json limits config encoded log offset =
      load_entries sha json limits config encoded log2 (offset + length bs) \<and>
    log_entries log2 = log_entries log @ es \<and> load_inv sha json limits config encoded log2 (offset + length bs)"
  using assms
proof (induction es arbitrary: log offset bs)
  case (Cons e es)
  from Cons.prems(3) obtain x bs' where x: "encode_into e = Some x" "encode_entries es = Some bs'" "bs = x @ bs'"
    by (auto split: option.splits)
  let ?mid = "log\<lparr> log_entries := log_entries log @ [e] \<rparr>"
  have "verified sha ?mid" by (rule verified_prefix [OF Cons.prems(8), of _ es]) (simp add: Cons.prems(9))
  then have ver: "verify_next sha log e = Inr ()" using verified_snoc [of ?mid log e sha] by simp
  obtain n where n: "load_frame sha json limits config encoded log offset = Inr (e, n)" "length x = 4 + unat n"
    by (rule load_frame_ok [OF _ ver x(1), of json limits offset encoded "bs' @ rest" config])
      (use Cons.prems x in simp_all)
  let ?log = "push_loaded e n log"
  have inv: "load_inv sha json limits config encoded ?log (offset + length x)"
    using load_inv_push [OF Cons.prems(1,2) n(1)] by (simp add: n(2) add.assoc)
  have entries: "log_entries ?log = log_entries log @ [e]" by (simp add: push_loaded_def)
  have "drop (offset + length x) encoded = drop (length x) (drop offset encoded)" by (simp add: add.commute)
  then have at: "drop (offset + length x) encoded = bs' @ rest" by (simp add: Cons.prems(4) x(3))
  have step: "load_entries sha json limits config encoded log offset =
      load_entries sha json limits config encoded ?log (offset + length x)"
  proof -
    have "0 < length (drop offset encoded)" using n(2) by (simp add: Cons.prems(4) x(3))
    then have "offset < length encoded" by simp
    then show ?thesis by (subst load_entries.simps) (simp add: n add.assoc)
  qed
  from Cons.IH [OF inv Cons.prems(2) x(2) at] Cons.prems(5-9) entries step show ?case
    by (simp add: x(3) add.assoc)
qed auto

lemma load_start:
  assumes "length encoded \<le> unat (rp_max_log_bytes config)" "take 8 encoded = REPLAY_HEADER" "8 \<le> length encoded"
  shows "load_inv sha json limits config encoded (replay_log_new config) 8"
  using assms by (simp add: load_inv_def replay_log_new_def verified_def verify_def to_bytes_def word_of_len_def)

lemma load_prefix_entries:
  assumes "8 \<le> length encoded" "take 8 encoded = REPLAY_HEADER" "length encoded \<le> unat (rp_max_log_bytes config)"
  shows "load_prefix sha json encoded config limits =
    load_entries sha json limits config encoded (replay_log_new config) 8"
proof -
  have "8 \<le> unat (rp_max_log_bytes config)" using assms(1,3) by simp
  then have "replay_config_validate config = Inr ()"
    by (simp add: replay_config_validate_def REPLAY_HEADER_BYTES_def word_less_unat)
  with assms show ?thesis by (simp add: load_prefix_def slice_get_def)
qed

lemma load_prefix_rejects:
  assumes "\<not> (8 \<le> length encoded \<and> take 8 encoded = REPLAY_HEADER \<and> length encoded \<le> unat (rp_max_log_bytes config))"
  shows "\<exists>kind. load_prefix sha json encoded config limits =
    Some \<lparr> ld_log = replay_log_new config,
           ld_tail = Some \<lparr> rte_verified_entries = 0, rte_offset = 0, rte_kind = kind \<rparr> \<rparr>"
  using assms
  by (auto simp: load_prefix_def with_tail_def word_of_len_def replay_log_new_def slice_get_def Let_def split: sum.split)

lemma verified_new: "verified sha (replay_log_new config)"
  by (simp add: verified_def verify_def replay_log_new_def word_of_len_def)

lemma load_entries_extends:
  "load_entries sha json limits config encoded log offset = Some ld \<Longrightarrow>
     prefix (log_entries log) (log_entries (ld_log ld))"
proof (induction sha json limits config encoded log offset arbitrary: ld rule: load_entries.induct)
  case (1 sha json limits config encoded log offset)
  from "1.prems" show ?case
    by (subst (asm) load_entries.simps)
      (auto simp: with_tail_def push_loaded_def split: if_splits sum.splits fault.splits
        dest!: "1.IH" elim: append_prefixD)
qed

text \<open>
  C17. Loading is total and sound. For every byte string the loader returns, without panic, a
  log that passes verification and stays within the entry bound, and whose encoding is
  exactly the loaded part of the input: all of it, or everything before the reported
  offset; when the offset is zero nothing was loaded.
\<close>

theorem load_prefix_sound:
  "\<exists>ld. load_prefix sha json encoded config limits = Some ld \<and>
     is_ok (verify sha (ld_log ld)) \<and>
     length (log_entries (ld_log ld)) \<le> unat (rp_max_entries config) \<and>
     (case ld_tail ld of
        None \<Rightarrow> to_bytes (ld_log ld) = Some encoded
      | Some t \<Rightarrow> if rte_offset t = 0 then log_entries (ld_log ld) = []
                  else to_bytes (ld_log ld) = Some (take (unat (rte_offset t)) encoded))"
proof (cases "8 \<le> length encoded \<and> take 8 encoded = REPLAY_HEADER \<and> length encoded \<le> unat (rp_max_log_bytes config)")
  case True
  then have "length encoded < 2 ^ 32" using unat_bound [of "rp_max_log_bytes config"] by simp
  then obtain ld where ld: "load_prefix sha json encoded config limits = Some ld"
      "load_result_ok sha json limits config encoded ld"
    using load_entries_result load_start True load_prefix_entries by metis
  with ld show ?thesis
    by (auto simp: load_result_ok_def load_inv_def verified_def split: option.splits if_splits)
next
  case False
  then obtain kind where "load_prefix sha json encoded config limits =
      Some \<lparr> ld_log = replay_log_new config,
             ld_tail = Some \<lparr> rte_verified_entries = 0, rte_offset = 0, rte_kind = kind \<rparr> \<rparr>"
    using load_prefix_rejects by metis
  then show ?thesis
    using verified_new [of sha config] by (simp add: verified_def) (simp add: replay_log_new_def)
qed

lemma load_prefix_front:
  assumes "verified sha log" "list_all (entry_wf json limits) (log_entries log)" "to_bytes log = Some bs"
    and "length (bs @ rest) \<le> unat (rp_max_log_bytes config)"
    and "length (log_entries log) \<le> unat (rp_max_entries config)"
    and "\<forall>e\<in>set (log_entries log). \<forall>x. encode_into e = Some x \<longrightarrow> length x \<le> unat (rp_max_entry_bytes config)"
  obtains log2 where "load_prefix sha json (bs @ rest) config limits =
      load_entries sha json limits config (bs @ rest) log2 (length bs)"
    "log_entries log2 = log_entries log" "load_inv sha json limits config (bs @ rest) log2 (length bs)"
proof -
  let ?enc = "bs @ rest"
  obtain ebs where ebs: "encode_entries (log_entries log) = Some ebs" "bs = REPLAY_HEADER @ ebs"
    using assms(3) by (auto simp: to_bytes_def)
  have enc: "8 \<le> length ?enc" "take 8 ?enc = REPLAY_HEADER" "drop 8 ?enc = ebs @ rest" by (simp_all add: ebs(2))
  have small: "length ?enc < 2 ^ 32" using assms(4) unat_bound [of "rp_max_log_bytes config"] by simp
  have new: "log_entries (replay_log_new config) = []" by (simp add: replay_log_new_def)
  have len: "length bs = 8 + length ebs" by (simp add: ebs(2))
  obtain log2 where "load_entries sha json limits config ?enc (replay_log_new config) 8 =
        load_entries sha json limits config ?enc log2 (8 + length ebs)"
      "log_entries log2 = log_entries log" "load_inv sha json limits config ?enc log2 (8 + length ebs)"
    using load_entries_front [OF load_start [OF assms(4) enc(2,1)] small ebs(1) enc(3) assms(2,6) _ assms(1)] assms(5)
    by (auto simp: new)
  then show thesis using that load_prefix_entries [OF enc(1,2) assms(4)] unfolding len by metis
qed

lemma load_prefix_complete:
  assumes "verified sha log" "list_all (entry_wf json limits) (log_entries log)" "to_bytes log = Some bs"
    and "length bs \<le> unat (rp_max_log_bytes config)"
    and "length (log_entries log) \<le> unat (rp_max_entries config)"
    and "\<forall>e\<in>set (log_entries log). \<forall>x. encode_into e = Some x \<longrightarrow> length x \<le> unat (rp_max_entry_bytes config)"
  obtains log2 where "load_prefix sha json bs config limits = Some \<lparr> ld_log = log2, ld_tail = None \<rparr>"
    "log_entries log2 = log_entries log" "load_inv sha json limits config bs log2 (length bs)"
proof -
  obtain log2 where "load_prefix sha json (bs @ []) config limits =
        load_entries sha json limits config (bs @ []) log2 (length bs)"
      "log_entries log2 = log_entries log" "load_inv sha json limits config (bs @ []) log2 (length bs)"
    by (rule load_prefix_front [OF assms(1-3) _ assms(5,6), of "[]"]) (use assms(4) in simp)
  then show thesis by (intro that [of log2]) (simp_all add: load_entries.simps [of _ _ _ _ bs _ "length bs"])
qed


text \<open>A log with one entry, under a digest that is constant.\<close>

definition example_sha :: "bytes \<Rightarrow> bytes" where
  "example_sha bs = replicate 32 0"

definition example_json :: patch_json where
  "example_json =
     \<lparr> json_to_vec = (\<lambda>p. if p = example_patch then Some [123, 125] else None),
       json_from_slice = (\<lambda>bs. if bs = [123, 125, 10] then Inr example_patch else Inl (Syntax, 1, 1)) \<rparr>"

definition example_entry :: replay_entry where
  "example_entry =
     \<lparr> en_sequence = 1, en_patch = example_patch, en_patch_bytes = [123, 125, 10],
       en_estimated_visible_frame = FrameId 5, en_previous_revision = INITIAL,
       en_new_revision = SceneRevision 1, en_previous_scene_hash = LogicalSceneHash (replicate 32 0),
       en_new_scene_hash = LogicalSceneHash (replicate 32 0), en_previous_entry_hash = ENTRY_HASH_ZERO,
       en_entry_hash = ReplayEntryHash (replicate 32 0) \<rparr>"

definition example_log :: replay_log where
  "example_log = append_entry example_entry (replay_log_new replay_config_default)"

lemma example_canonical:
  "check_canonical example_json runtime_limits_default [123, 125, 10] = Inr example_patch"
proof -
  have "enforce_nesting [123, 125, 10] runtime_limits_default = Inr ()"
    by (simp add: enforce_nesting_def scan_byte_def nesting_start_def runtime_limits_default_def
        saturating_add_def saturating_sub_def)
  then show ?thesis
    by (simp add: check_canonical_def patch_from_json_def patch_to_canonical_json_def decode_def encode_def
        example_json_def example_validates enforce_encoded_size_def len_or_max_def)
      (simp add: runtime_limits_default_def)
qed

lemma example_entry_wf: "entry_wf example_json runtime_limits_default example_entry"
  by (simp add: entry_wf_def example_entry_def example_canonical ENTRY_HASH_ZERO_def)

lemma example_log_verified: "verified example_sha example_log"
  by (simp add: verified_def verify_def example_log_def append_entry_def replay_log_new_def word_of_len_def
      check_entry_def compute_hash_def update_hash_fields_def example_sha_def example_entry_def
      checked_next_def checked_add_def)

lemma example_entry_encoded: "\<exists>x. encode_into example_entry = Some x \<and> length x = 173"
  by (simp add: encode_into_def update_hash_fields_def example_entry_def word_of_len_def ENTRY_HASH_ZERO_def)


end
