(* ===== verification/Replay_Recorded.thy ===== *)
theory Replay_Recorded
  imports Replay_Load
begin

text \<open>
  The recorded world (\<open>cogniform-replay/src/recorded.rs\<close>) and the replay of a log
  (\<open>ReplayLog::replay\<close>). A recorded world appends an entry for every newly accepted
  patch. Shown here, for every sequence of patches and extractions: the log always verifies,
  ends at the revision and the hash of the world, and fits its bounds; a rejected patch
  changes neither world nor log; and replaying the log either rebuilds the scene of the
  world, its revision and its receipts, or stops because a bounded resource of the fresh
  world is exhausted. The last case does occur.
\<close>

section \<open>Replay\<close>

datatype replay_error =
    ReplayTail replay_tail_error
  | ReplayIntegrity replay_integrity_error
  | ReplayWorld u32 world_apply_error
  | ReplayInvariant u32 world_invariant_error
  | RevisionMismatch u32
  | SceneHashMismatch u32

text \<open>One entry; \<open>micros\<close> are the clock readings of the application.\<close>

definition replay_entry_into ::
    "(bytes \<Rightarrow> bytes) \<Rightarrow> u64 \<times> u64 \<Rightarrow> u32 \<Rightarrow> authoritative_world \<Rightarrow> replay_entry
       \<Rightarrow> replay_error fault + authoritative_world" where
  "replay_entry_into sha micros entry_index world e =
     bind_res (map_err (map_fault (ReplayInvariant entry_index)) (world_logical_hash sha world)) (\<lambda>previous_hash.
     if w_revision world \<noteq> en_previous_revision e \<or> previous_hash \<noteq> en_previous_scene_hash e
     then Inl (Err (SceneHashMismatch entry_index))
     else
       (case apply_patch world (en_patch e) (en_estimated_visible_frame e) micros of
          (Inl x, _) \<Rightarrow> Inl (map_fault (ReplayWorld entry_index) x)
        | (Inr receipt, world) \<Rightarrow>
            if receipt_status receipt \<noteq> Applied \<or>
              receipt_previous_revision receipt \<noteq> en_previous_revision e \<or>
              receipt_new_revision receipt \<noteq> en_new_revision e
            then Inl (Err (RevisionMismatch entry_index))
            else
              bind_res (map_err (map_fault (ReplayInvariant entry_index)) (world_logical_hash sha world)) (\<lambda>new_hash.
                if new_hash \<noteq> en_new_scene_hash e then Inl (Err (SceneHashMismatch entry_index))
                else Inr world)))"

fun replay_entries ::
    "(bytes \<Rightarrow> bytes) \<Rightarrow> (nat \<Rightarrow> u64 \<times> u64) \<Rightarrow> nat \<Rightarrow> authoritative_world \<Rightarrow> replay_entry list
       \<Rightarrow> replay_error fault + authoritative_world" where
  "replay_entries sha clock index world [] = Inr world"
| "replay_entries sha clock index world (e # es) =
     bind_res (ok_or Panic (word_of_len index)) (\<lambda>entry_index.
     bind_res (replay_entry_into sha (clock index) entry_index world e) (\<lambda>world.
       replay_entries sha clock (Suc index) world es))"

definition replay ::
    "(bytes \<Rightarrow> bytes) \<Rightarrow> (nat \<Rightarrow> u64 \<times> u64) \<Rightarrow> replay_log \<Rightarrow> world_config \<Rightarrow> replay_error fault + authoritative_world" where
  "replay sha clock log config =
     bind_res (map_err (map_fault ReplayIntegrity) (verify sha log)) (\<lambda>_.
       replay_entries sha clock 0 (world_new config) (log_entries log))"

section \<open>The recorded world\<close>

datatype recorded_apply_error =
    RecordedCodec codec_error
  | RecordedEntryCapacityExceeded u32
  | RecordedEntrySizeExceeded u64 u32
  | RecordedLogSizeExceeded u64 u32
  | RecordedWorldError world_apply_error
  | RecordedInvariant world_invariant_error

record recorded_world =
  rw_world :: authoritative_world
  rw_world_config :: world_config
  rw_log :: replay_log

definition recorded_new :: "world_config \<Rightarrow> replay_config \<Rightarrow> replay_config_error + recorded_world" where
  "recorded_new world_config replay_config =
     bind_res (replay_config_validate replay_config) (\<lambda>_.
       Inr \<lparr> rw_world = world_new world_config, rw_world_config = world_config,
             rw_log = replay_log_new replay_config \<rparr>)"

definition restore ::
    "(bytes \<Rightarrow> bytes) \<Rightarrow> (nat \<Rightarrow> u64 \<times> u64) \<Rightarrow> world_config \<Rightarrow> replay_log \<Rightarrow> replay_error fault + recorded_world" where
  "restore sha clock config log =
     bind_res (replay sha clock log config) (\<lambda>world.
       Inr \<lparr> rw_world = world, rw_world_config = config, rw_log = log \<rparr>)"

definition recorded_extraction ::
    "recorded_world \<Rightarrow> (world_extraction_error + render_extraction) \<times> recorded_world" where
  "recorded_extraction rw =
     (case take_render_extraction (rw_world rw) of (res, world) \<Rightarrow> (res, rw\<lparr> rw_world := world \<rparr>))"

definition recorded_replay ::
    "(bytes \<Rightarrow> bytes) \<Rightarrow> (nat \<Rightarrow> u64 \<times> u64) \<Rightarrow> recorded_world \<Rightarrow> replay_error fault + authoritative_world" where
  "recorded_replay sha clock rw = replay sha clock (rw_log rw) (rw_world_config rw)"

text \<open>The bounds that are checked before the world is touched.\<close>

definition check_log_room :: "replay_log \<Rightarrow> bytes \<Rightarrow> recorded_apply_error + unit" where
  "check_log_room log patch_bytes =
     (let config = log_config log;
          entry_bytes = saturating_add ENTRY_ENVELOPE_BYTES (len_or_max (length patch_bytes));
          new_log_bytes = saturating_add (log_encoded_bytes log) entry_bytes
      in if length (log_entries log) \<ge> unat (rp_max_entries config)
         then Inl (RecordedEntryCapacityExceeded (rp_max_entries config))
         else if entry_bytes > ucast (rp_max_entry_bytes config)
         then Inl (RecordedEntrySizeExceeded entry_bytes (rp_max_entry_bytes config))
         else if new_log_bytes > ucast (rp_max_log_bytes config)
         then Inl (RecordedLogSizeExceeded new_log_bytes (rp_max_log_bytes config))
         else Inr ())"

text \<open>The entry for an applied patch, and the log with it.\<close>

definition record_applied ::
    "(bytes \<Rightarrow> bytes) \<Rightarrow> scene_patch \<Rightarrow> bytes \<Rightarrow> frame_id \<Rightarrow> scene_revision \<Rightarrow> logical_scene_hash \<Rightarrow> apply_receipt
       \<Rightarrow> authoritative_world \<Rightarrow> recorded_world
       \<Rightarrow> (recorded_apply_error fault + apply_receipt) \<times> recorded_world" where
  "record_applied sha patch patch_bytes frame previous_revision previous_scene_hash receipt world rw =
     (case world_logical_hash sha world of
        Inl x \<Rightarrow> (Inl (map_fault RecordedInvariant x), rw\<lparr> rw_world := world \<rparr>)
      | Inr new_scene_hash \<Rightarrow>
          (case replay_entry_new sha patch patch_bytes
             \<lparr> md_sequence = of_nat (length (log_entries (rw_log rw))) + 1,
               md_estimated_visible_frame = frame, md_previous_revision = previous_revision,
               md_new_revision = receipt_new_revision receipt,
               md_previous_scene_hash = previous_scene_hash, md_new_scene_hash = new_scene_hash,
               md_previous_entry_hash = last_entry_hash (rw_log rw) \<rparr> of
             None \<Rightarrow> (Inl Panic, rw\<lparr> rw_world := world \<rparr>)
           | Some e \<Rightarrow> (Inr receipt, rw\<lparr> rw_world := world, rw_log := append_entry e (rw_log rw) \<rparr>)))"

definition recorded_apply_patch ::
    "(bytes \<Rightarrow> bytes) \<Rightarrow> patch_json \<Rightarrow> recorded_world \<Rightarrow> scene_patch \<Rightarrow> frame_id \<Rightarrow> u64 \<times> u64
       \<Rightarrow> (recorded_apply_error fault + apply_receipt) \<times> recorded_world" where
  "recorded_apply_patch sha json rw patch frame micros =
     (if recorded_transaction (rw_world rw) (patch_idempotency_key patch) \<noteq> None
      then
        (case apply_patch (rw_world rw) patch frame micros of
           (res, world) \<Rightarrow> (map_err (map_fault RecordedWorldError) res, rw\<lparr> rw_world := world \<rparr>))
      else
        (case patch_to_canonical_json json patch (wc_runtime_limits (rw_world_config rw)) of
           Inl e \<Rightarrow> (Inl (Err (RecordedCodec e)), rw)
         | Inr patch_bytes \<Rightarrow>
             (case check_log_room (rw_log rw) patch_bytes of
                Inl e \<Rightarrow> (Inl (Err e), rw)
              | Inr _ \<Rightarrow>
                  (case world_logical_hash sha (rw_world rw) of
                     Inl x \<Rightarrow> (Inl (map_fault RecordedInvariant x), rw)
                   | Inr previous_scene_hash \<Rightarrow>
                       (case apply_patch (rw_world rw) patch frame micros of
                          (Inl x, world) \<Rightarrow> (Inl (map_fault RecordedWorldError x), rw\<lparr> rw_world := world \<rparr>)
                        | (Inr receipt, world) \<Rightarrow>
                            record_applied sha patch patch_bytes frame (w_revision (rw_world rw))
                              previous_scene_hash receipt world rw)))))"

section \<open>Runs of a recorded world\<close>

text \<open>
  Frames are never zero. A panic ends the program, so it has no successor state.
\<close>

inductive recorded_step ::
    "(bytes \<Rightarrow> bytes) \<Rightarrow> patch_json \<Rightarrow> recorded_world \<Rightarrow> recorded_world \<Rightarrow> bool" for sha json where
  recorded_apply_step: "recorded_step sha json rw rw'"
    if "recorded_apply_patch sha json rw patch frame micros = (res, rw')" "frame_get frame \<noteq> 0" "res \<noteq> Inl Panic"
| recorded_extract_step: "recorded_step sha json rw (snd (recorded_extraction rw))"

definition recorded_run ::
    "(bytes \<Rightarrow> bytes) \<Rightarrow> patch_json \<Rightarrow> world_config \<Rightarrow> replay_config \<Rightarrow> recorded_world \<Rightarrow> bool" where
  "recorded_run sha json wc rc rw \<longleftrightarrow>
     (\<exists>start. recorded_new wc rc = Inr start \<and> (recorded_step sha json)\<^sup>*\<^sup>* start rw)"

text \<open>Two worlds with the same scene and the same causality.\<close>

definition similar :: "authoritative_world \<Rightarrow> authoritative_world \<Rightarrow> bool" where
  "similar w v \<longleftrightarrow>
     world_ok v \<and> w_config v = w_config w \<and> scene_of v = scene_of w \<and> w_revision v = w_revision w \<and>
     (\<forall>k. recorded_transaction v k = recorded_transaction w k)"

definition replay_outcome ::
    "authoritative_world \<Rightarrow> replay_error fault + authoritative_world \<Rightarrow> bool" where
  "replay_outcome w res \<longleftrightarrow>
     (case res of
        Inr v \<Rightarrow> similar w v
      | Inl e \<Rightarrow> \<exists>i x. e = Err (ReplayWorld i x) \<and> out_of_room x)"

definition recorded_inv ::
    "(bytes \<Rightarrow> bytes) \<Rightarrow> world_config \<Rightarrow> replay_config \<Rightarrow> recorded_world \<Rightarrow> bool" where
  "recorded_inv sha wc rc rw \<longleftrightarrow>
     rw_world_config rw = wc \<and> w_config (rw_world rw) = wc \<and> log_config (rw_log rw) = rc \<and>
     world_ok (rw_world rw) \<and> verified sha (rw_log rw) \<and>
     length (log_entries (rw_log rw)) \<le> unat (rp_max_entries rc) \<and>
     latest_revision (rw_log rw) = w_revision (rw_world rw) \<and>
     (\<forall>h. last_scene_hash (rw_log rw) = Some h \<longrightarrow> world_logical_hash sha (rw_world rw) = Inr h) \<and>
     (\<forall>clock. replay_outcome (rw_world rw) (replay_entries sha clock 0 (world_new wc) (log_entries (rw_log rw))))"

lemma world_logical_hash_scene:
  assumes "world_ok w" "world_ok v" "scene_of v = scene_of w"
  shows "world_logical_hash sha v = world_logical_hash sha w"
  using assms(3)
  by (simp add: world_logical_hash_def world_snapshot_views [OF assms(1)] world_snapshot_views [OF assms(2)]
      snapshot_logical_hash_def logical_preimage_def cong: option.case_cong)

lemma world_logical_hash_cases:
  assumes "world_ok w"
  obtains h where "world_logical_hash sha w = Inr h" | "world_logical_hash sha w = Inl Panic"
  by (cases "logical_preimage \<lparr> snap_revision = w_revision w, snap_entities = scene_views (scene_of w) \<rparr>")
    (auto simp: world_logical_hash_def world_snapshot_views [OF assms] snapshot_logical_hash_def intro: that)

lemma similar_acceptable:
  assumes "similar w v"
  shows "patch_acceptable v patch \<longleftrightarrow> patch_acceptable w patch"
proof -
  have rec: "map_option ra_transaction_id (bm_get (w_idempotency_records v) k) =
      map_option ra_transaction_id (bm_get (w_idempotency_records w) k)" for k
    using assms by (simp add: similar_def recorded_transaction_def)
  have "scene_accepts v ops sc = scene_accepts w ops sc" for ops sc
    using assms by (simp add: scene_accepts_def similar_def)
  with rec [of "patch_idempotency_key patch"] assms show ?thesis
    by (auto simp: patch_acceptable_def similar_def split: option.splits)
qed

lemma patch_applied_similar:
  assumes "similar w v" "patch_applied w patch r w'" "patch_applied v patch r2 v'"
  shows "similar w' v'"
proof -
  have "scene_of v' = scene_of w'"
    using assms by (simp add: patch_applied_def scene_accepts_def similar_def)
  moreover have "w_revision v' = w_revision w'" using assms by (auto simp: patch_applied_def similar_def)
  ultimately show ?thesis
    using assms by (auto simp: similar_def patch_applied_def recorded_transaction_def)
qed

text \<open>One recorded entry replayed into a similar world.\<close>

lemma replay_entry_outcome:
  assumes w: "world_ok w" "operation_limit_ok w" and sim: "similar w v"
    and app: "patch_applied w (en_patch e) receipt w'"
    and fresh: "recorded_transaction w (patch_idempotency_key (en_patch e)) = None"
    and fields: "en_previous_revision e = w_revision w" "en_new_revision e = w_revision w'"
      "world_logical_hash sha w = Inr (en_previous_scene_hash e)"
      "world_logical_hash sha w' = Inr (en_new_scene_hash e)"
    and acc: "patch_acceptable w (en_patch e)"
  shows "replay_outcome w' (replay_entry_into sha micros i v e)"
proof -
  let ?apply = "apply_patch v (en_patch e) (en_estimated_visible_frame e) micros"
  have v: "world_ok v" "operation_limit_ok v" using sim w(2) by (simp_all add: similar_def)
  have hash: "world_logical_hash sha v = Inr (en_previous_scene_hash e)"
    using world_logical_hash_scene [OF w(1) v(1)] sim fields(3) by (simp add: similar_def)
  have rev: "w_revision v = en_previous_revision e" using sim fields(1) by (simp add: similar_def)
  have none: "bm_get (w_idempotency_records v) (patch_idempotency_key (en_patch e)) = None"
  proof -
    have "recorded_transaction v (patch_idempotency_key (en_patch e)) = None"
      using sim fresh by (simp add: similar_def)
    then show ?thesis by (simp add: recorded_transaction_def)
  qed
  have out: "apply_outcome v (en_patch e) ?apply" by (rule apply_patch_outcome [OF v])
  have accv: "patch_acceptable v (en_patch e)" using acc similar_acceptable [OF sim] by simp
  show ?thesis
  proof (cases ?apply)
    case (Pair res v')
    show ?thesis
    proof (cases res)
      case (Inl x)
      with out accv Pair show ?thesis
        by (auto simp: replay_entry_into_def hash rev apply_outcome_def replay_outcome_def)
    next
      case (Inr r)
      with out none Pair have appv: "patch_applied v (en_patch e) r v'" by (simp add: apply_outcome_def)
      have sim': "similar w' v'" by (rule patch_applied_similar [OF sim app appv])
      have "world_ok w'" "world_ok v'" using app appv by (simp_all add: patch_applied_def)
      then have "world_logical_hash sha v' = Inr (en_new_scene_hash e)"
        using world_logical_hash_scene [of w' v' sha] sim' fields(4) by (simp add: similar_def)
      moreover have "w_revision v' = w_revision w'" using sim' by (simp add: similar_def)
      ultimately show ?thesis
        using appv fields(1,2) sim' rev
        by (simp add: replay_entry_into_def hash Pair Inr patch_applied_def replay_outcome_def)
    qed
  qed
qed

lemma replay_entries_append:
  "replay_entries sha clock index w (xs @ ys) =
     bind_res (replay_entries sha clock index w xs) (\<lambda>w. replay_entries sha clock (index + length xs) w ys)"
proof (induction xs arbitrary: index w)
  case (Cons x xs)
  show ?case
    by (cases "word_of_len index :: u32 option"; simp add: Cons)
      (rename_tac i, case_tac "replay_entry_into sha (clock index) i w x"; simp)
qed simp

text \<open>The entry that is appended.\<close>

lemma replay_entry_new_fields:
  assumes "replay_entry_new sha patch patch_bytes md = Some e"
  shows "en_sequence e = md_sequence md" "en_patch e = patch" "en_patch_bytes e = patch_bytes"
    "en_estimated_visible_frame e = md_estimated_visible_frame md"
    "en_previous_revision e = md_previous_revision md" "en_new_revision e = md_new_revision md"
    "en_previous_scene_hash e = md_previous_scene_hash md" "en_new_scene_hash e = md_new_scene_hash md"
    "en_previous_entry_hash e = md_previous_entry_hash md" "compute_hash sha e = Some (en_entry_hash e)"
  using assms by (auto simp: replay_entry_new_def Let_def compute_hash_def update_hash_fields_def split: option.splits)

definition entry_of_apply ::
    "(bytes \<Rightarrow> bytes) \<Rightarrow> patch_json \<Rightarrow> recorded_world \<Rightarrow> scene_patch \<Rightarrow> frame_id \<Rightarrow> authoritative_world \<Rightarrow> replay_entry \<Rightarrow> bool" where
  "entry_of_apply sha json rw patch frame w' e \<longleftrightarrow>
     en_sequence e = of_nat (length (log_entries (rw_log rw))) + 1 \<and> en_patch e = patch \<and>
     en_estimated_visible_frame e = frame \<and> en_previous_revision e = w_revision (rw_world rw) \<and>
     en_new_revision e = w_revision w' \<and> en_previous_entry_hash e = last_entry_hash (rw_log rw) \<and>
     world_logical_hash sha (rw_world rw) = Inr (en_previous_scene_hash e) \<and>
     world_logical_hash sha w' = Inr (en_new_scene_hash e) \<and> compute_hash sha e = Some (en_entry_hash e) \<and>
     patch_to_canonical_json json patch (wc_runtime_limits (rw_world_config rw)) = Inr (en_patch_bytes e) \<and>
     check_log_room (rw_log rw) (en_patch_bytes e) = Inr ()"

lemma recorded_apply_new_cases:
  assumes "recorded_apply_patch sha json rw patch frame micros = (res, rw')"
    and "apply_patch (rw_world rw) patch frame micros = (r, w')"
    and "recorded_transaction (rw_world rw) (patch_idempotency_key patch) = None"
  obtains x where "res = Inl (Err x)" "rw' = rw"
  | x where "world_logical_hash sha (rw_world rw) = Inl x" "res = Inl (map_fault RecordedInvariant x)"
  | x where "r = Inl x" "res = Inl (map_fault RecordedWorldError x)" "rw' = rw\<lparr> rw_world := w' \<rparr>"
  | pb h receipt where "r = Inr receipt"
      "patch_to_canonical_json json patch (wc_runtime_limits (rw_world_config rw)) = Inr pb"
      "check_log_room (rw_log rw) pb = Inr ()" "world_logical_hash sha (rw_world rw) = Inr h"
      "record_applied sha patch pb frame (w_revision (rw_world rw)) h receipt w' rw = (res, rw')"
proof (cases "patch_to_canonical_json json patch (wc_runtime_limits (rw_world_config rw))")
  case (Inl e)
  with assms(1,3) have "res = Inl (Err (RecordedCodec e))" "rw' = rw" by (auto simp: recorded_apply_patch_def)
  then show ?thesis by (rule that(1))
next
  case pb: (Inr pb)
  show ?thesis
  proof (cases "check_log_room (rw_log rw) pb")
    case (Inl e)
    with assms(1,3) pb have "res = Inl (Err e)" "rw' = rw" by (auto simp: recorded_apply_patch_def)
    then show ?thesis by (rule that(1))
  next
    case room: (Inr u)
    show ?thesis
    proof (cases "world_logical_hash sha (rw_world rw)")
      case (Inl x)
      with assms(1,3) pb room have "res = Inl (map_fault RecordedInvariant x)" by (auto simp: recorded_apply_patch_def)
      with Inl show ?thesis by (rule that(2))
    next
      case h: (Inr h)
      show ?thesis
      proof (cases r)
        case (Inl x)
        with assms pb room h have "res = Inl (map_fault RecordedWorldError x)" "rw' = rw\<lparr> rw_world := w' \<rparr>"
          by (auto simp: recorded_apply_patch_def)
        with Inl show ?thesis by (rule that(3))
      next
        case (Inr receipt)
        with assms pb room h have
            "record_applied sha patch pb frame (w_revision (rw_world rw)) h receipt w' rw = (res, rw')"
          by (auto simp: recorded_apply_patch_def)
        with Inr pb room h show ?thesis by (intro that(4)) simp_all
      qed
    qed
  qed
qed

lemma record_applied_cases:
  assumes "record_applied sha patch pb frame revision h receipt w' rw = (res, rw')" "res \<noteq> Inl Panic" "world_ok w'"
  obtains h' e where "world_logical_hash sha w' = Inr h'"
    "replay_entry_new sha patch pb
       \<lparr> md_sequence = of_nat (length (log_entries (rw_log rw))) + 1,
         md_estimated_visible_frame = frame, md_previous_revision = revision,
         md_new_revision = receipt_new_revision receipt, md_previous_scene_hash = h, md_new_scene_hash = h',
         md_previous_entry_hash = last_entry_hash (rw_log rw) \<rparr> = Some e"
    "res = Inr receipt" "rw' = rw\<lparr> rw_world := w', rw_log := append_entry e (rw_log rw) \<rparr>"
  using assms(3)
proof (cases rule: world_logical_hash_cases [where sha = sha])
  case (1 h')
  with assms(1,2) show ?thesis by (auto simp: record_applied_def intro: that split: option.splits)
next
  case 2
  with assms(1,2) show ?thesis by (auto simp: record_applied_def)
qed

lemma recorded_apply_cases:
  assumes inv: "recorded_inv sha wc rc rw" and lim: "max_operations (wc_runtime_limits wc) < - 1"
    and app: "recorded_apply_patch sha json rw patch frame micros = (res, rw')" and np: "res \<noteq> Inl Panic"
  obtains (rejected) x where "res = Inl (Err x)" "rw' = rw"
  | (replayed) receipt where "res = Inr receipt" "rw' = rw" "receipt_status receipt = IdempotentReplay"
  | (applied) receipt e w' where "res = Inr receipt" "patch_applied (rw_world rw) patch receipt w'"
      "patch_acceptable (rw_world rw) patch"
      "recorded_transaction (rw_world rw) (patch_idempotency_key patch) = None"
      "rw' = rw\<lparr> rw_world := w', rw_log := append_entry e (rw_log rw) \<rparr>"
      "entry_of_apply sha json rw patch frame w' e"
proof -
  let ?w = "rw_world rw"
  have w: "world_ok ?w" "operation_limit_ok ?w" using inv lim by (simp_all add: recorded_inv_def)
  obtain r w' where rw: "apply_patch ?w patch frame micros = (r, w')" by (cases "apply_patch ?w patch frame micros")
  have out: "apply_outcome ?w patch (r, w')" using apply_patch_outcome [OF w] rw by metis
  show thesis
  proof (cases "recorded_transaction ?w (patch_idempotency_key patch)")
    case (Some t)
    with app rw have res: "res = map_err (map_fault RecordedWorldError) r" "rw' = rw\<lparr> rw_world := w' \<rparr>"
      by (simp_all add: recorded_apply_patch_def)
    from Some obtain recd where "bm_get (w_idempotency_records ?w) (patch_idempotency_key patch) = Some recd"
      by (auto simp: recorded_transaction_def)
    with out have same: "w' = ?w"
      "(\<exists>x. r = Inl (Err x)) \<or> (\<exists>receipt. r = Inr receipt \<and> receipt_status receipt = IdempotentReplay)"
      by (auto simp: apply_outcome_def split: sum.splits)
    then have "rw' = rw" by (simp add: res(2))
    from same(2) show ?thesis
    proof (elim disjE exE conjE)
      fix x assume "r = Inl (Err x)"
      then have "res = Inl (Err (RecordedWorldError x))" by (simp add: res(1))
      then show ?thesis using \<open>rw' = rw\<close> by (rule rejected)
    next
      fix receipt assume r: "r = Inr receipt" "receipt_status receipt = IdempotentReplay"
      then have "res = Inr receipt" by (simp add: res(1))
      then show ?thesis using \<open>rw' = rw\<close> r(2) by (rule replayed)
    qed
  next
    case None
    from app rw None show ?thesis
    proof (cases rule: recorded_apply_new_cases)
      case (1 x)
      then show ?thesis by (rule rejected)
    next
      case (2 x)
      from w(1) show ?thesis
        by (cases rule: world_logical_hash_cases [where sha = sha]) (use 2 np in simp_all)
    next
      case (3 x)
      with out obtain y where "x = Err y" "w' = ?w" by (auto simp: apply_outcome_def)
      with 3 show ?thesis by (intro rejected [of "RecordedWorldError y"]) simp_all
    next
      case (4 pb h receipt)
      with out None have pa: "patch_applied ?w patch receipt w'" "patch_acceptable ?w patch"
        by (auto simp: apply_outcome_def recorded_transaction_def)
      have w': "world_ok w'" using pa by (simp add: patch_applied_def)
      from 4(5) np w' show ?thesis
      proof (cases rule: record_applied_cases)
        case e: (1 h' e)
        have "entry_of_apply sha json rw patch frame w' e"
          using replay_entry_new_fields [OF e(2)] 4 e(1) pa(1) by (simp add: entry_of_apply_def patch_applied_def)
        then show ?thesis by (rule applied [OF e(3) pa None e(4)])
      qed
    qed
  qed
qed

lemma check_log_room_Inr:
  assumes "check_log_room log pb = Inr ()"
  shows "length (log_entries log) < unat (rp_max_entries (log_config log)) \<and>
    170 + length pb \<le> unat (rp_max_entry_bytes (log_config log)) \<and>
    unat (log_encoded_bytes log) + 170 + length pb \<le> unat (rp_max_log_bytes (log_config log))"
proof -
  have "unat (rp_max_entry_bytes (log_config log)) < 2 ^ 32" "unat (rp_max_log_bytes (log_config log)) < 2 ^ 32"
    using unat_bound [of "rp_max_entry_bytes (log_config log)"] unat_bound [of "rp_max_log_bytes (log_config log)"]
    by simp_all
  with assms show ?thesis
    by (auto simp: check_log_room_def Let_def word_less_unat unat_ucast_u64 unat_saturating_add unat_len_or_max
        split: if_splits)
qed

lemma entry_of_apply_verifies:
  assumes inv: "recorded_inv sha wc rc rw" and e: "entry_of_apply sha json rw patch frame w' e"
    and app: "patch_applied (rw_world rw) patch receipt w'"
  shows "verify_next sha (rw_log rw) e = Inr ()"
proof -
  let ?n = "length (log_entries (rw_log rw))"
  have n: "?n < 2 ^ 32" using inv unat_bound [of "rp_max_entries rc"] by (simp add: recorded_inv_def)
  have "unat (ucast (of_nat ?n :: u32) :: u64) = ?n"
    unfolding unat_ucast_u64 by (rule unat_of_nat_small) (use n in simp)
  moreover have "unat (of_nat ?n :: u64) = ?n" by (rule unat_of_nat_small) (use n in simp)
  ultimately have "(ucast (of_nat ?n :: u32) :: u64) = of_nat ?n" by (simp flip: unat_inj_iff)
  moreover have "checked_next (w_revision (rw_world rw)) = Inr (w_revision w')"
    using app by (simp add: patch_applied_def)
  ultimately show ?thesis
    using inv e n
    by (auto simp: verify_next_def word_of_len_def check_entry_def entry_of_apply_def recorded_inv_def
        split: option.splits)
qed

lemma recorded_inv_apply:
  assumes inv: "recorded_inv sha wc rc rw" and lim: "max_operations (wc_runtime_limits wc) < - 1"
    and app: "patch_applied (rw_world rw) patch receipt w'" "patch_acceptable (rw_world rw) patch"
      "recorded_transaction (rw_world rw) (patch_idempotency_key patch) = None"
    and e: "entry_of_apply sha json rw patch frame w' e"
  shows "recorded_inv sha wc rc (rw\<lparr> rw_world := w', rw_log := append_entry e (rw_log rw) \<rparr>)"
proof -
  let ?w = "rw_world rw" and ?log = "append_entry e (rw_log rw)" and ?n = "length (log_entries (rw_log rw))"
  have w: "world_ok ?w" "operation_limit_ok ?w" using inv lim by (simp_all add: recorded_inv_def)
  have ents: "log_entries ?log = log_entries (rw_log rw) @ [e]" by (simp add: append_entry_def)
  have room: "?n < unat (rp_max_entries rc)"
    using check_log_room_Inr [of "rw_log rw"] e inv by (auto simp: entry_of_apply_def recorded_inv_def)
  then have small: "?n + 1 < 2 ^ 32" using unat_bound [of "rp_max_entries rc"] by simp
  have "verified sha ?log"
    using verified_snoc [OF ents] entry_of_apply_verifies [OF inv e app(1)] inv small
    by (simp add: recorded_inv_def)
  moreover have "replay_outcome w' (replay_entries sha clock 0 (world_new wc) (log_entries ?log))" for clock
  proof -
    have out: "replay_outcome ?w (replay_entries sha clock 0 (world_new wc) (log_entries (rw_log rw)))"
      using inv by (simp add: recorded_inv_def)
    show ?thesis
    proof (cases "replay_entries sha clock 0 (world_new wc) (log_entries (rw_log rw))")
      case (Inr v)
      with out have "similar ?w v" by (simp add: replay_outcome_def)
      then have "replay_outcome w' (replay_entry_into sha (clock ?n) (of_nat ?n) v e)"
        using e app by (intro replay_entry_outcome [OF w]) (simp_all add: entry_of_apply_def)
      then show ?thesis
        using small by (cases "replay_entry_into sha (clock ?n) (of_nat ?n) v e")
          (simp_all add: ents replay_entries_append Inr word_of_len_def)
    qed (use out in \<open>simp add: ents replay_entries_append replay_outcome_def\<close>)
  qed
  moreover have "world_ok w'" "w_config w' = w_config ?w" using app(1) by (simp_all add: patch_applied_def)
  ultimately show ?thesis
    using inv e room by (simp add: recorded_inv_def entry_of_apply_def log_ends_snoc [OF ents] ents)
      (simp add: append_entry_def)
qed

lemma recorded_extraction_world:
  assumes "world_ok w" "take_render_extraction w = (res, w')"
  obtains "w' = w" | g where "w' = finish_extraction w g"
  using assms by (auto simp: take_render_extraction_ok split: option.splits)

lemma recorded_inv_extraction:
  assumes inv: "recorded_inv sha wc rc rw"
  shows "recorded_inv sha wc rc (snd (recorded_extraction rw))"
proof -
  let ?w = "rw_world rw"
  obtain res w' where ex: "take_render_extraction ?w = (res, w')" by (cases "take_render_extraction ?w")
  have w: "world_ok ?w" using inv by (simp add: recorded_inv_def)
  have rw: "snd (recorded_extraction rw) = rw\<lparr> rw_world := w' \<rparr>" by (simp add: recorded_extraction_def ex)
  from w ex show ?thesis
  proof (cases rule: recorded_extraction_world)
    case 1
    with inv show ?thesis by (simp add: rw)
  next
    case (2 g)
    have w': "world_ok w'" using finish_extraction_ok [OF w] by (simp add: 2)
    have same: "w_config w' = w_config ?w" "scene_of w' = scene_of ?w" "w_revision w' = w_revision ?w"
        "recorded_transaction w' = recorded_transaction ?w"
      by (simp_all add: 2 finish_extraction_def scene_of_def scene_entities_def recorded_transaction_def fun_eq_iff)
    have "world_logical_hash sha w' = world_logical_hash sha ?w" by (rule world_logical_hash_scene [OF w w' same(2)])
    moreover have "replay_outcome w' res = replay_outcome ?w res" for res
      using same by (simp add: replay_outcome_def similar_def split: sum.split)
    ultimately show ?thesis using inv w' same by (simp add: rw recorded_inv_def)
  qed
qed

lemma recorded_inv_new:
  assumes "recorded_new wc rc = Inr rw"
  shows "recorded_inv sha wc rc rw"
proof -
  have rw: "rw = \<lparr> rw_world = world_new wc, rw_world_config = wc, rw_log = replay_log_new rc \<rparr>"
    using assms by (auto simp: recorded_new_def res_simps)
  have "log_entries (replay_log_new rc) = []" "log_config (replay_log_new rc) = rc" by (simp_all add: replay_log_new_def)
  then show ?thesis
    using world_new_ok_parts [of wc] verified_new [of sha rc]
    by (simp add: recorded_inv_def rw latest_revision_def last_scene_hash_def replay_outcome_def similar_def)
qed

lemma recorded_run_inv:
  assumes "recorded_run sha json wc rc rw" "max_operations (wc_runtime_limits wc) < - 1"
  shows "recorded_inv sha wc rc rw"
proof -
  obtain start where start: "recorded_new wc rc = Inr start" "(recorded_step sha json)\<^sup>*\<^sup>* start rw"
    using assms(1) by (auto simp: recorded_run_def)
  from start(2) show ?thesis
  proof (induction rule: rtranclp_induct)
    case base
    show ?case by (rule recorded_inv_new [OF start(1)])
  next
    case (step rw rw')
    from step.hyps(2) show ?case
    proof (cases rule: recorded_step.cases)
      case (recorded_apply_step patch frame micros res)
      from step.IH assms(2) recorded_apply_step(1,3) show ?thesis
        by (cases rule: recorded_apply_cases) (use step.IH recorded_inv_apply [OF step.IH assms(2)] in simp_all)
    next
      case recorded_extract_step
      with recorded_inv_extraction [OF step.IH] show ?thesis by simp
    qed
  qed
qed

section \<open>The bytes of a recorded log\<close>

definition digest_sized :: "(bytes \<Rightarrow> bytes) \<Rightarrow> bool" where
  "digest_sized sha \<longleftrightarrow> (\<forall>bs. length (sha bs) = 32)"

text \<open>The JSON library parses what it prints, and prints patches within the nesting limit.\<close>

definition json_faithful :: "patch_json \<Rightarrow> runtime_limits \<Rightarrow> bool" where
  "json_faithful json limits \<longleftrightarrow>
     (\<forall>p encoded. json_to_vec json p = Some encoded \<longrightarrow>
        json_from_slice json (encoded @ [10]) = Inr p \<and>
        nesting_depth encoded \<le> unat (max_json_nesting_depth limits))"

definition recorded_bytes_inv :: "patch_json \<Rightarrow> world_config \<Rightarrow> replay_config \<Rightarrow> replay_log \<Rightarrow> bool" where
  "recorded_bytes_inv json wc rc log \<longleftrightarrow>
     list_all (entry_wf json (wc_runtime_limits wc)) (log_entries log) \<and>
     (\<exists>bs. to_bytes log = Some bs \<and> length bs = unat (log_encoded_bytes log)) \<and>
     unat (log_encoded_bytes log) \<le> unat (rp_max_log_bytes rc) \<and>
     (\<forall>e\<in>set (log_entries log). \<forall>x. encode_into e = Some x \<longrightarrow> length x \<le> unat (rp_max_entry_bytes rc))"

lemma world_logical_hash_sized:
  "world_logical_hash sha w = Inr h \<Longrightarrow> digest_sized sha \<Longrightarrow> length (scene_hash_bytes h) = 32"
  by (auto simp: world_logical_hash_def snapshot_logical_hash_def res_simps digest_sized_def)

lemma canonical_round_trip:
  assumes "json_faithful json limits" "max_json_nesting_depth limits < - 1"
    and "patch_to_canonical_json json patch limits = Inr pb"
  shows "check_canonical json limits pb = Inr patch"
proof -
  have "patch_from_json json pb limits = Inr patch"
    unfolding patch_from_json_def
    by (rule decode_encoded [of "json_to_vec json"])
      (use assms in \<open>simp_all add: json_faithful_def patch_to_canonical_json_def\<close>)
  with assms(3) show ?thesis by (simp add: check_canonical_def)
qed

lemma length_encode_into:
  assumes "entry_wf json limits e" "encode_into e = Some x"
  shows "length x = 170 + length (en_patch_bytes e)"
  using assms(2) length_entry_body [OF _ assms(1)] by (auto simp: encode_into_body [OF assms(1)])

lemma encode_into_total:
  assumes wf: "entry_wf json limits e" and "170 + length (en_patch_bytes e) < 2 ^ 32"
  obtains x where "encode_into e = Some x"
proof -
  obtain body where body: "entry_body e = Some body" using assms(2) by (simp add: entry_body_eq)
  then show thesis
    using that assms(2) length_entry_body [OF body wf] by (auto simp: encode_into_body [OF wf])
qed

lemma entry_of_apply_wf:
  assumes e: "entry_of_apply sha json rw patch frame w' e" and frame: "frame_get frame \<noteq> 0"
    and lim: "json_faithful json limits" "max_json_nesting_depth limits < - 1"
      "limits = wc_runtime_limits (rw_world_config rw)"
    and sha: "digest_sized sha" and log: "list_all (entry_wf json limits) (log_entries (rw_log rw))"
  shows "entry_wf json limits e"
proof -
  have "length (entry_hash_bytes (last_entry_hash (rw_log rw))) = 32"
    using log by (auto simp: last_entry_hash_def ENTRY_HASH_ZERO_def entry_wf_def list_all_iff)
  moreover have "length (entry_hash_bytes (en_entry_hash e)) = 32"
  proof -
    obtain bs where "en_entry_hash e = ReplayEntryHash (sha bs)"
      using e by (auto simp: entry_of_apply_def compute_hash_def dest: sym)
    with sha show ?thesis by (simp add: digest_sized_def)
  qed
  moreover have "check_canonical json limits (en_patch_bytes e) = Inr (en_patch e)"
    using canonical_round_trip [OF lim(1,2)] e lim(3) by (simp add: entry_of_apply_def)
  moreover have "world_logical_hash sha (rw_world rw) = Inr (en_previous_scene_hash e)"
      "world_logical_hash sha w' = Inr (en_new_scene_hash e)"
    using e by (simp_all add: entry_of_apply_def)
  note this [THEN world_logical_hash_sized, OF sha]
  ultimately show ?thesis
    using e frame by (simp add: entry_wf_def entry_of_apply_def)
qed

lemma recorded_bytes_apply:
  assumes inv: "recorded_inv sha wc rc rw" "recorded_bytes_inv json wc rc (rw_log rw)"
    and e: "entry_of_apply sha json rw patch frame w' e" and wf: "entry_wf json (wc_runtime_limits wc) e"
  shows "recorded_bytes_inv json wc rc (append_entry e (rw_log rw))"
proof -
  let ?log = "rw_log rw"
  have ents: "log_entries (append_entry e ?log) = log_entries ?log @ [e]" by (simp add: append_entry_def)
  have conf: "log_config ?log = rc" using inv(1) by (simp add: recorded_inv_def)
  have room: "170 + length (en_patch_bytes e) \<le> unat (rp_max_entry_bytes rc)"
      "unat (log_encoded_bytes ?log) + 170 + length (en_patch_bytes e) \<le> unat (rp_max_log_bytes rc)"
    using check_log_room_Inr [of ?log "en_patch_bytes e"] e by (simp_all add: entry_of_apply_def conf)
  moreover have small: "unat (rp_max_entry_bytes rc) < 2 ^ 32" "unat (rp_max_log_bytes rc) < 2 ^ 32"
    using unat_bound [of "rp_max_entry_bytes rc"] unat_bound [of "rp_max_log_bytes rc"] by simp_all
  ultimately have "170 + length (en_patch_bytes e) < 2 ^ 32" by linarith
  then obtain x where x: "encode_into e = Some x" by (rule encode_into_total [OF wf])
  have xlen: "length x = 170 + length (en_patch_bytes e)" by (rule length_encode_into [OF wf x])
  have "unat (of_nat (length (en_patch_bytes e)) :: u64) = length (en_patch_bytes e)"
    by (rule unat_of_nat_small) (use room small in simp)
  then have "unat (entry_encoded_bytes e) = 170 + length (en_patch_bytes e)"
    unfolding entry_encoded_bytes_def using room small by (subst unat_add_no_overflow) simp_all
  then have "unat (log_encoded_bytes (append_entry e ?log)) = unat (log_encoded_bytes ?log) + length x"
    using room small xlen by (simp add: append_entry_def unat_saturating_add)
  then show ?thesis
    using inv(2) x xlen room wf by (auto simp: recorded_bytes_inv_def ents to_bytes_snoc [OF ents])
qed

end
