(* ===== verification/Replay_Properties.thy ===== *)
theory Replay_Properties
  imports Replay_Recorded
begin

text \<open>
  The properties of recorded worlds: the log is evidence for the state of the world, it
  survives the trip through its byte stream, replaying it rebuilds the scene unless a bounded
  resource of the fresh world is exhausted, and any retained revision can be exported.
\<close>

section \<open>The byte stream of a reachable recorded world\<close>

lemma recorded_bytes_new:
  assumes "recorded_new wc rc = Inr rw"
  shows "recorded_bytes_inv json wc rc (rw_log rw)"
proof -
  have log: "rw_log rw = replay_log_new rc" and "\<not> rp_max_log_bytes rc < REPLAY_HEADER_BYTES"
    using assms by (auto simp: recorded_new_def res_simps replay_config_validate_def split: if_splits)
  then have "8 \<le> unat (rp_max_log_bytes rc)" by (simp add: word_less_unat REPLAY_HEADER_BYTES_def)
  then show ?thesis by (simp add: recorded_bytes_inv_def log replay_log_new_def to_bytes_def)
qed

lemma recorded_step_bytes:
  assumes step: "recorded_step sha json rw rw'" and inv: "recorded_inv sha wc rc rw"
    and lim: "max_operations (wc_runtime_limits wc) < - 1" and sha: "digest_sized sha"
    and json: "json_faithful json (wc_runtime_limits wc)" "max_json_nesting_depth (wc_runtime_limits wc) < - 1"
    and bytes: "recorded_bytes_inv json wc rc (rw_log rw)"
  shows "recorded_bytes_inv json wc rc (rw_log rw')"
  using step
proof (cases rule: recorded_step.cases)
  case (recorded_apply_step patch frame micros res)
  from inv lim recorded_apply_step(1,3) show ?thesis
  proof (cases rule: recorded_apply_cases)
    case (applied receipt e w')
    have "entry_wf json (wc_runtime_limits wc) e"
      by (rule entry_of_apply_wf [OF applied(6) recorded_apply_step(2) json _ sha])
        (use inv bytes in \<open>simp_all add: recorded_inv_def recorded_bytes_inv_def\<close>)
    with recorded_bytes_apply [OF inv bytes applied(6)] show ?thesis by (simp add: applied(5))
  qed (use bytes in simp_all)
next
  case recorded_extract_step
  then show ?thesis using bytes by (simp add: recorded_extraction_def split: prod.splits)
qed

lemma recorded_run_bytes:
  assumes run: "recorded_run sha json wc rc rw" and lim: "max_operations (wc_runtime_limits wc) < - 1"
    and sha: "digest_sized sha"
    and json: "json_faithful json (wc_runtime_limits wc)" "max_json_nesting_depth (wc_runtime_limits wc) < - 1"
  shows "recorded_bytes_inv json wc rc (rw_log rw)"
proof -
  obtain start where start: "recorded_new wc rc = Inr start" "(recorded_step sha json)\<^sup>*\<^sup>* start rw"
    using run by (auto simp: recorded_run_def)
  from start(2) show ?thesis
  proof (induction rule: rtranclp_induct)
    case base
    show ?case by (rule recorded_bytes_new [OF start(1)])
  next
    case (step rw rw')
    have "recorded_run sha json wc rc rw" using start(1) step.hyps(1) by (auto simp: recorded_run_def)
    then show ?case
      by (intro recorded_step_bytes [OF step.hyps(2) recorded_run_inv [OF _ lim] lim sha json step.IH])
  qed
qed

text \<open>In a verified log the revision counts the entries.\<close>

lemma verify_entries_revision:
  "verify_entries sha index revision h s es = Inr (r, h', s') \<Longrightarrow>
     unat (revision_get r) = unat (revision_get revision) + length es"
proof (induction es arbitrary: index revision h s)
  case (Cons e es)
  then obtain i where "check_entry sha i revision h s e = Inr ()"
      "verify_entries sha (Suc index) (en_new_revision e) (en_entry_hash e) (Some (en_new_scene_hash e)) es = Inr (r, h', s')"
    by (auto simp: res_simps)
  moreover have "checked_next revision = Inr (en_new_revision e)"
    using calculation(1) by (auto simp: check_entry_def res_ok_def split: if_splits sum.splits)
  ultimately show ?case using Cons.IH checked_next_unat [of revision "en_new_revision e"] by fastforce
qed simp

lemma verified_revision:
  "verified sha log \<Longrightarrow> unat (revision_get (latest_revision log)) = length (log_entries log)"
  using verify_entries_revision [of sha 0 INITIAL ENTRY_HASH_ZERO None "log_entries log"]
  by (simp add: verified_iff)

lemma load_log_eq:
  assumes "load_inv sha json limits config encoded l (length encoded)"
    and "log_entries l = log_entries log" "log_config log = config"
    and "to_bytes log = Some encoded" "length encoded = unat (log_encoded_bytes log)"
  shows "l = log"
  using assms by (auto simp: load_inv_def intro!: replay_log.equality simp flip: unat_inj_iff)

section \<open>Exporting a revision\<close>

lemma encode_entries_append:
  "encode_entries (xs @ ys) = Some bs \<longleftrightarrow>
     (\<exists>a b. encode_entries xs = Some a \<and> encode_entries ys = Some b \<and> bs = a @ b)"
  by (induction xs arbitrary: bs) (auto split: option.splits)

lemma sum_encoded_bytes_total:
  "encode_entries es = Some bs \<Longrightarrow> list_all (entry_wf json limits) es \<Longrightarrow> unat n + length bs < 2 ^ 32 \<Longrightarrow>
     \<exists>m. sum_encoded_bytes n es = Some m"
proof (induction es arbitrary: n bs)
  case (Cons e es)
  then obtain x ys where x: "encode_into e = Some x" "encode_entries es = Some ys" "bs = x @ ys"
    by (auto split: option.splits)
  have len: "length x = 170 + length (en_patch_bytes e)"
    by (rule length_encode_into [OF _ x(1), of json limits]) (use Cons.prems(2) in simp)
  have "unat (of_nat (length (en_patch_bytes e)) :: u64) = length (en_patch_bytes e)"
    by (rule unat_of_nat_small) (use Cons.prems(3) x(3) len in simp)
  then have "unat (entry_encoded_bytes e) = length x"
    unfolding entry_encoded_bytes_def using Cons.prems(3) x(3) len by (subst unat_add_no_overflow) simp_all
  then obtain m where m: "checked_add n (entry_encoded_bytes e) = Some m" "unat m = unat n + length x"
    using Cons.prems(3) x(3) unat_add_no_overflow [of n "entry_encoded_bytes e"] by (auto simp: checked_add_def)
  have "\<exists>k. sum_encoded_bytes m es = Some k"
    by (rule Cons.IH [OF x(2)]) (use Cons.prems m x in simp_all)
  with m show ?case by simp
qed simp

lemma exported_prefix:
  assumes bytes: "recorded_bytes_inv json wc rc log" and ver: "verified sha log"
    and len: "unat (revision_get r) \<le> length (log_entries log)"
      "length (log_entries log) \<le> unat (rp_max_entries rc)"
  obtains bs l where "to_bytes_through_revision log r = Inr bs"
    "load_prefix sha json bs rc (wc_runtime_limits wc) = Some \<lparr> ld_log = l, ld_tail = None \<rparr>"
    "log_entries l = take (unat (revision_get r)) (log_entries log)"
proof -
  let ?n = "unat (revision_get r)" and ?limits = "wc_runtime_limits wc"
  define es where "es = take ?n (log_entries log)"
  define part where "part = log\<lparr> log_entries := es \<rparr>"
  have split: "log_entries log = es @ drop ?n (log_entries log)" by (simp add: es_def)
  obtain all where all: "encode_entries (log_entries log) = Some all" "8 + length all \<le> unat (rp_max_log_bytes rc)"
    using bytes by (auto simp: recorded_bytes_inv_def to_bytes_def)
  then obtain a b where a: "encode_entries es = Some a" "all = a @ b"
    using encode_entries_append [of es "drop ?n (log_entries log)" all] split by auto
  have part: "log_entries part = es" "to_bytes part = Some (REPLAY_HEADER @ a)"
    using a(1) by (simp_all add: part_def to_bytes_def)
  have "set es \<subseteq> set (log_entries log)" by (simp add: es_def set_take_subset)
  then have wf: "list_all (entry_wf json ?limits) es"
      "\<forall>e\<in>set es. \<forall>x. encode_into e = Some x \<longrightarrow> length x \<le> unat (rp_max_entry_bytes rc)"
    using bytes by (auto simp: recorded_bytes_inv_def list_all_iff)
  have pver: "verified sha part" by (rule verified_prefix [OF ver]) (use split in \<open>simp add: part(1)\<close>)
  have small: "length (REPLAY_HEADER @ a) \<le> unat (rp_max_log_bytes rc)" using all(2) a(2) by simp
  have cnt: "length (log_entries part) \<le> unat (rp_max_entries rc)" using len by (simp add: part(1) es_def)
  obtain l where l: "load_prefix sha json (REPLAY_HEADER @ a) rc ?limits = Some \<lparr> ld_log = l, ld_tail = None \<rparr>"
      "log_entries l = log_entries part"
    by (rule load_prefix_complete [OF pver _ part(2) small cnt]) (use wf in \<open>simp_all add: part(1)\<close>)
  have "unat (8 :: u64) + length a < 2 ^ 32" using small unat_bound [of "rp_max_log_bytes rc"] by simp
  then obtain m where "sum_encoded_bytes 8 es = Some m" using sum_encoded_bytes_total [OF a(1) wf(1)] by blast
  moreover have "\<not> latest_revision log < r"
    using len(1) verified_revision [OF ver] by (simp add: less_scene_revision_def word_less_unat)
  ultimately have "to_bytes_through_revision log r = Inr (REPLAY_HEADER @ a)"
    using len(1) a(1) by (simp add: to_bytes_through_revision_def slice_get_def es_def)
  then show thesis using l(1) by (rule that) (simp add: l(2) part(1) es_def)
qed

section \<open>Accepted patches\<close>

lemma recorded_apply_succeeds:
  assumes inv: "recorded_inv sha wc rc rw" and lim: "max_operations (wc_runtime_limits wc) < - 1"
    and acc: "patch_acceptable (rw_world rw) patch" and room: "patch_room (rw_world rw) patch"
    and fresh: "recorded_transaction (rw_world rw) (patch_idempotency_key patch) = None"
    and canon: "patch_to_canonical_json json patch (wc_runtime_limits wc) = Inr pb"
    and log: "check_log_room (rw_log rw) pb = Inr ()"
    and sized: "scene_sized (scene_of (rw_world rw))"
      "\<And>sc. scene_accepts (rw_world rw) (patch_operations patch) sc \<Longrightarrow> scene_sized sc"
  obtains receipt e w' where
    "recorded_apply_patch sha json rw patch frame micros =
       (Inr receipt, rw\<lparr> rw_world := w', rw_log := append_entry e (rw_log rw) \<rparr>)"
    "patch_applied (rw_world rw) patch receipt w'" "en_patch e = patch" "receipt_status receipt = Applied"
    "en_patch_bytes e = pb"
proof -
  let ?w = "rw_world rw"
  have w: "world_ok ?w" "operation_limit_ok ?w" and conf: "rw_world_config rw = wc"
    using inv lim by (simp_all add: recorded_inv_def)
  obtain r w' where rw: "apply_patch ?w patch frame micros = (r, w')" by (cases "apply_patch ?w patch frame micros")
  have "apply_outcome ?w patch (r, w')" using apply_patch_outcome [OF w] rw by metis
  with acc room fresh obtain receipt where r: "r = Inr receipt" and pa: "patch_applied ?w patch receipt w'"
    by (auto simp: apply_outcome_def recorded_transaction_def split: sum.splits)
  have w': "world_ok w'" "scene_sized (scene_of w')" using pa sized(2) by (simp_all add: patch_applied_def)
  obtain a where a: "world_logical_hash sha ?w = Inr (LogicalSceneHash (sha a))"
    by (rule world_logical_hash_preimage [OF w(1) sized(1)])
  obtain b where b: "world_logical_hash sha w' = Inr (LogicalSceneHash (sha b))"
    by (rule world_logical_hash_preimage [OF w'])
  define md where "md =
    \<lparr> md_sequence = of_nat (length (log_entries (rw_log rw))) + 1, md_estimated_visible_frame = frame,
      md_previous_revision = w_revision ?w, md_new_revision = receipt_new_revision receipt,
      md_previous_scene_hash = LogicalSceneHash (sha a), md_new_scene_hash = LogicalSceneHash (sha b),
      md_previous_entry_hash = last_entry_hash (rw_log rw) \<rparr>"
  have "length pb < 2 ^ 32"
    using check_log_room_Inr [OF log] unat_bound [of "rp_max_entry_bytes (log_config (rw_log rw))"] by simp
  then obtain e where e: "replay_entry_new sha patch pb md = Some e"
    by (simp add: replay_entry_new_def Let_def compute_hash_def update_hash_fields_def word_of_len_def)
  have "recorded_apply_patch sha json rw patch frame micros =
      (Inr receipt, rw\<lparr> rw_world := w', rw_log := append_entry e (rw_log rw) \<rparr>)"
    using e by (simp add: recorded_apply_patch_def fresh canon log a rw r record_applied_def b conf md_def)
  then show thesis
    by (rule that [OF _ pa]) (use replay_entry_new_fields(2,3) [OF e] pa in \<open>simp_all add: patch_applied_def\<close>)
qed

section \<open>An example\<close>

definition example_recorded :: recorded_world where
  "example_recorded =
     \<lparr> rw_world = example_start, rw_world_config = world_config_default,
       rw_log = replay_log_new replay_config_default \<rparr>"

abbreviation example_recorded_result :: recorded_world where
  "example_recorded_result \<equiv>
     snd (recorded_apply_patch example_sha example_json example_recorded example_patch (FrameId 5) (0, 0))"

lemma example_recorded_new: "recorded_new world_config_default replay_config_default = Inr example_recorded"
  by (simp add: recorded_new_def example_recorded_def replay_config_validate_def replay_config_default_def
      REPLAY_HEADER_BYTES_def)

lemma example_canonical_json:
  "patch_to_canonical_json example_json example_patch (wc_runtime_limits world_config_default) = Inr [123, 125, 10]"
  by (simp add: patch_to_canonical_json_def encode_def example_json_def example_validates world_config_default_def
      enforce_encoded_size_def len_or_max_def) (simp add: runtime_limits_default_def)

lemma example_log_room: "check_log_room (rw_log example_recorded) [123, 125, 10] = Inr ()"
  by (simp add: check_log_room_def Let_def example_recorded_def replay_log_new_def replay_config_default_def
      ENTRY_ENVELOPE_BYTES_def FRAME_LENGTH_BYTES_def FIXED_ENTRY_BODY_BYTES_def saturating_add_def len_or_max_def)

lemma example_accepts_sized:
  "scene_accepts example_start (patch_operations example_patch) sc \<Longrightarrow> scene_sized sc"
proof -
  assume "scene_accepts example_start (patch_operations example_patch) sc"
  then have "Some sc = scene_steps (world_capacity example_start) (patch_operations example_patch) (scene_of example_start)"
    by (simp only: scene_accepts_def)
  from this [unfolded example_scene option.inject] show ?thesis
    by (simp only:) (auto simp: scene_sized_def build_bundle_def empty_bundle_def len_bytes_def split: if_splits)
qed

lemma new_world_fresh [simp]: "recorded_transaction (world_new config) k = None"
  by (simp add: recorded_transaction_def world_new_def)

lemma empty_scene_sized [simp]: "scene_sized (Map.empty, par)"
  by (simp add: scene_sized_def)

lemma example_recorded_applied:
  obtains receipt e w' where
    "recorded_apply_patch example_sha example_json example_recorded example_patch (FrameId 5) (0, 0) =
       (Inr receipt, example_recorded_result)"
    "log_entries (rw_log example_recorded_result) = [e]" "en_patch e = example_patch"
    "receipt_status receipt = Applied"
proof -
  have world: "rw_world example_recorded = example_start" by (simp add: example_recorded_def)
  obtain receipt e w' where
      r: "recorded_apply_patch example_sha example_json example_recorded example_patch (FrameId 5) (0, 0) =
        (Inr receipt, example_recorded\<lparr> rw_world := w', rw_log := append_entry e (rw_log example_recorded) \<rparr>)"
      "en_patch e = example_patch" "receipt_status receipt = Applied"
    by (rule recorded_apply_succeeds [OF recorded_inv_new [OF example_recorded_new] example_limit, unfolded world,
          OF example_acceptable example_room _ example_canonical_json example_log_room _ example_accepts_sized,
          of example_sha "FrameId 5" "(0, 0)"])
      simp_all
  moreover have "log_entries (append_entry e (rw_log example_recorded)) = [e]"
    by (simp add: append_entry_def example_recorded_def replay_log_new_def)
  ultimately show thesis by (intro that [of receipt e]) simp_all
qed

lemma example_recorded_run:
  "recorded_run example_sha example_json world_config_default replay_config_default example_recorded_result"
proof -
  obtain receipt where "recorded_apply_patch example_sha example_json example_recorded example_patch (FrameId 5) (0, 0) =
      (Inr receipt, example_recorded_result)"
    by (rule example_recorded_applied)
  then have "recorded_step example_sha example_json example_recorded example_recorded_result"
    by (rule recorded_apply_step) simp_all
  then show ?thesis using example_recorded_new by (auto simp: recorded_run_def)
qed

lemma example_digest: "digest_sized example_sha"
  by (simp add: digest_sized_def example_sha_def)

lemma example_json_faithful: "json_faithful example_json (wc_runtime_limits world_config_default)"
  by (auto simp: json_faithful_def example_json_def nesting_depth_def world_config_default_def
      runtime_limits_default_def split: if_splits)

section \<open>Properties\<close>

text \<open>
  C15. The log is evidence for the world. For every recorded world that any sequence of
  patches and extractions leads to, the log passes verification; it has as many entries as
  the revision of the world says; and the hash it ends with is the hash of the world.
\<close>

theorem recorded_log_evidence:
  assumes "recorded_run sha json wc rc rw" "max_operations (wc_runtime_limits wc) < - 1"
  shows "\<exists>v. verify sha (rw_log rw) = Inr v \<and> rv_final_revision v = w_revision (rw_world rw) \<and>
    length (log_entries (rw_log rw)) = unat (revision_get (w_revision (rw_world rw))) \<and>
    (case rv_final_scene_hash v of
       Some h \<Rightarrow> world_logical_hash sha (rw_world rw) = Inr h
     | None \<Rightarrow> log_entries (rw_log rw) = [])"
proof -
  have inv: "recorded_inv sha wc rc rw" by (rule recorded_run_inv [OF assms])
  then have ver: "verified sha (rw_log rw)" and rev: "latest_revision (rw_log rw) = w_revision (rw_world rw)"
    by (simp_all add: recorded_inv_def)
  have "case last_scene_hash (rw_log rw) of
      Some h \<Rightarrow> world_logical_hash sha (rw_world rw) = Inr h
    | None \<Rightarrow> log_entries (rw_log rw) = []"
    using inv by (auto simp: recorded_inv_def last_scene_hash_def split: option.splits if_splits)
  then show ?thesis
    using verified_result [OF ver] verified_revision [OF ver] rev by simp
qed

theorem recorded_log_evidence_witness:
  "\<exists>v. verify example_sha (rw_log example_recorded_result) = Inr v \<and>
    rv_final_revision v = w_revision (rw_world example_recorded_result)"
  using recorded_log_evidence [OF example_recorded_run example_limit] by blast

text \<open>
  C16. Recording is atomic. Submitting a patch to a reachable recorded world returns an error
  and changes neither world nor log, or returns a replayed receipt and changes neither, or
  applies the patch and appends exactly one entry, for that patch. A call can also abort,
  when the hash meets a text of four gigabytes or more; such calls are left out.
\<close>

theorem recorded_apply_atomic:
  assumes "recorded_run sha json wc rc rw" "max_operations (wc_runtime_limits wc) < - 1"
    and "recorded_apply_patch sha json rw patch frame micros = (res, rw')" "res \<noteq> Inl Panic"
  shows "case res of
      Inl e \<Rightarrow> (\<exists>x. e = Err x) \<and> rw' = rw
    | Inr receipt \<Rightarrow>
        if receipt_status receipt = Applied
        then \<exists>e. log_entries (rw_log rw') = log_entries (rw_log rw) @ [e] \<and> en_patch e = patch \<and>
               scene_steps (unat (wc_max_entities wc)) (patch_operations patch) (scene_of (rw_world rw)) =
                 Some (scene_of (rw_world rw'))
        else rw' = rw"
proof -
  have inv: "recorded_inv sha wc rc rw" by (rule recorded_run_inv [OF assms(1,2)])
  then have conf: "w_config (rw_world rw) = wc" by (simp add: recorded_inv_def)
  from inv assms(2-4) show ?thesis
  proof (cases rule: recorded_apply_cases)
    case (applied receipt e w')
    then show ?thesis
      by (simp add: patch_applied_def scene_accepts_def append_entry_def entry_of_apply_def conf)
  qed simp_all
qed

theorem recorded_apply_atomic_witness:
  "\<exists>e. log_entries (rw_log example_recorded_result) = [] @ [e] \<and> en_patch e = example_patch"
proof -
  obtain receipt where r: "recorded_apply_patch example_sha example_json example_recorded example_patch (FrameId 5) (0, 0) =
      (Inr receipt, example_recorded_result)" "receipt_status receipt = Applied"
    by (rule example_recorded_applied)
  have "recorded_run example_sha example_json world_config_default replay_config_default example_recorded"
    using example_recorded_new by (auto simp: recorded_run_def)
  from recorded_apply_atomic [OF this example_limit r(1)] r(2)
  have "\<exists>e. log_entries (rw_log example_recorded_result) = log_entries (rw_log example_recorded) @ [e] \<and>
      en_patch e = example_patch" by auto
  then show ?thesis by (simp add: example_recorded_def replay_log_new_def)
qed

text \<open>
  C13. Replay rebuilds the scene. Replaying the log of a reachable recorded world into a fresh
  world, with any clock, gives a world with the same scene, the same revision and the same
  recorded transactions, or it reports that the fresh world rejected an entry because one of
  its counters or buffers is full. No chain, revision or hash error, no panic and no other
  rejection can occur.
\<close>

theorem replay_rebuilds_scene:
  assumes "recorded_run sha json wc rc rw" "max_operations (wc_runtime_limits wc) < - 1"
  shows "case recorded_replay sha clock rw of
      Inr v \<Rightarrow> scene_of v = scene_of (rw_world rw) \<and> w_revision v = w_revision (rw_world rw) \<and>
        recorded_transaction v = recorded_transaction (rw_world rw)
    | Inl e \<Rightarrow> \<exists>i x. e = Err (ReplayWorld i x) \<and> out_of_room x"
proof -
  have inv: "recorded_inv sha wc rc rw" by (rule recorded_run_inv [OF assms])
  then have "replay_outcome (rw_world rw) (replay_entries sha clock 0 (world_new wc) (log_entries (rw_log rw)))"
    and "verified sha (rw_log rw)" "rw_world_config rw = wc"
    by (simp_all add: recorded_inv_def)
  then show ?thesis
    using verified_result [of sha "rw_log rw"]
    by (auto simp: recorded_replay_def replay_def replay_outcome_def similar_def fun_eq_iff split: sum.splits)
qed

theorem replay_rebuilds_scene_witness:
  "case recorded_replay example_sha (\<lambda>_. (7, 7)) example_recorded_result of
      Inr v \<Rightarrow> scene_of v = scene_of (rw_world example_recorded_result) \<and>
        w_revision v = w_revision (rw_world example_recorded_result) \<and>
        recorded_transaction v = recorded_transaction (rw_world example_recorded_result)
    | Inl e \<Rightarrow> \<exists>i x. e = Err (ReplayWorld i x) \<and> out_of_room x"
  using replay_rebuilds_scene [OF example_recorded_run example_limit] .





end
