(* ===== verification/Replay_Exhaustion.thy ===== *)
theory Replay_Exhaustion
  imports Replay_Properties
begin

text \<open>
  A log that the live world accepted and that a fresh world cannot replay. A running program
  extracts render changes between patches, which empties the bounded set of pending changes.
  Replay never extracts, so the set keeps every entity that any patch of the history
  touched, and the bound that the live world never reached stops the replay.
\<close>

section \<open>A short history\<close>

text \<open>
  One entity is created and deleted, then another one is created; the renderer extracts
  after each patch. The bound on pending changes is one.
\<close>

definition churn_config :: world_config where
  "churn_config = world_config_default\<lparr> wc_max_pending_render_changes := 1 \<rparr>"

definition churn_create :: "u128 \<Rightarrow> create_entity" where
  "churn_create i =
     \<lparr> create_entity_id = StableEntityId i,
       create_components =
         [AssetMesh \<lparr> am_content_hash = ContentHash (replicate 32 0), am_mesh_index = 0 \<rparr>] \<rparr>"

definition churn_patch :: "nat \<Rightarrow> scene_operation \<Rightarrow> scene_patch" where
  "churn_patch n op =
     \<lparr> patch_schema_version = V1, patch_transaction_id = TransactionId (of_nat n + 1),
       patch_idempotency_key = IdempotencyKey (of_nat n + 1),
       patch_base_revision = SceneRevision (of_nat n), patch_conflict_policy = RequireExactBase,
       patch_delivery = MustApply, patch_declared_budget = patch_budget_default,
       patch_operations = [op] \<rparr>"

definition churn_first :: scene_patch where
  "churn_first = churn_patch 0 (Create (churn_create 1))"

definition churn_second :: scene_patch where
  "churn_second = churn_patch 1 (Delete \<lparr> delete_entity_id = StableEntityId 1 \<rparr>)"

definition churn_third :: scene_patch where
  "churn_third = churn_patch 2 (Create (churn_create 2))"

definition churn_json :: patch_json where
  "churn_json =
     \<lparr> json_to_vec = (\<lambda>p. if p = churn_first then Some [49] else if p = churn_second then Some [50]
          else if p = churn_third then Some [51] else None),
       json_from_slice = (\<lambda>bs. if bs = [49, 10] then Inr churn_first else if bs = [50, 10] then Inr churn_second
          else if bs = [51, 10] then Inr churn_third else Inl (Syntax, 1, 1)) \<rparr>"

lemma churn_distinct: "churn_first \<noteq> churn_second" "churn_first \<noteq> churn_third" "churn_second \<noteq> churn_third"
  by (simp_all add: churn_first_def churn_second_def churn_third_def churn_patch_def)

lemma churn_json_faithful: "json_faithful churn_json (wc_runtime_limits churn_config)"
  using churn_distinct
  by (auto simp: json_faithful_def churn_json_def nesting_depth_def split: if_splits)

lemma churn_validates:
  "patch_validate churn_first runtime_limits_default = Inr ()"
  "patch_validate churn_second runtime_limits_default = Inr ()"
  "patch_validate churn_third runtime_limits_default = Inr ()"
  by (simp_all add: churn_first_def churn_second_def churn_third_def churn_patch_def churn_create_def
      patch_validate_def validate_schema_def patch_validate_operation_count_def patch_validate_counts_def
      runtime_limits_default_def patch_budget_default_def len_or_max_def saturating_add_def
      patch_logical_size_bytes_def len_bytes_def)

section \<open>The live world\<close>

definition plain_bundle :: "component_bundle \<Rightarrow> bool" where
  "plain_bundle b \<longleftrightarrow> b_local_transform b = None \<and> b_name b = None \<and>
     (\<forall>a. b_asset_mesh b = Some a \<longrightarrow> length (hash_bytes (am_content_hash a)) = 32)"

definition churn_state ::
    "nat \<Rightarrow> (stable_entity_id \<rightharpoonup> component_bundle) \<Rightarrow> scene_patch list \<Rightarrow> recorded_world \<Rightarrow> bool" where
  "churn_state n ents ps rw \<longleftrightarrow>
     recorded_run example_sha churn_json churn_config replay_config_default rw \<and>
     w_revision (rw_world rw) = SceneRevision (of_nat n) \<and> scene_of (rw_world rw) = (ents, Map.empty) \<and>
     bs_set (w_pending_render_changes (rw_world rw)) = {} \<and>
     unat (w_render_extraction_generation (rw_world rw)) \<le> n \<and>
     unat (w_transform_generation (rw_world rw)) \<le> n \<and>
     dom (bm_get (w_idempotency_records (rw_world rw))) = set (map patch_idempotency_key ps) \<and>
     map en_patch (log_entries (rw_log rw)) = ps \<and> length ps = n \<and>
     unat (log_encoded_bytes (rw_log rw)) \<le> 8 + 180 * n"

lemma churn_limit: "max_operations (wc_runtime_limits churn_config) < - 1"
  by (simp add: churn_config_def world_config_default_def runtime_limits_default_def)

lemma flat_scene_accepts:
  assumes "scene_steps (world_capacity w) ops (scene_of w) = Some (ents, Map.empty)"
    and "\<And>i b. ents i = Some b \<Longrightarrow> plain_bundle b"
  shows "scene_accepts w ops (ents, Map.empty)"
proof -
  have "depth_of Map.empty i 0" for i :: stable_entity_id by (rule depth_root) simp
  then have "hierarchy_ok (dom ents) Map.empty d" for d by (auto simp: hierarchy_ok_def)
  moreover have "world_matrix Map.empty (local_of ents) i IDENTITY_MATRIX" if "i \<in> dom ents" for i
  proof -
    have "local_of ents i = None" using that assms(2) by (auto simp: local_of_def plain_bundle_def)
    then show ?thesis
      using matrix_root [of Map.empty i "local_of ents" "identity 0"] by (simp add: from_local_def identity_def)
  qed
  then have "scene_transforms_ok (ents, Map.empty)" by (auto simp: scene_transforms_ok_def)
  ultimately show ?thesis using assms(1) by (simp add: scene_accepts_def)
qed

text \<open>One patch of the history: accepted, recorded, and followed by an extraction.\<close>

lemma churn_acceptable:
  assumes st: "churn_state n ents ps rw" and n: "n < 5" and p: "p = churn_patch n op"
    and valid: "patch_validate p runtime_limits_default = Inr ()" and fresh: "patch_idempotency_key p \<notin> set (map patch_idempotency_key ps)"
    and steps: "scene_steps 65536 [op] (ents, Map.empty) = Some (ents', Map.empty)"
    and plain: "\<And>i b. ents' i = Some b \<Longrightarrow> plain_bundle b"
    and small: "card (insert (operation_target op) (dom ents)) \<le> 1"
  shows "patch_acceptable (rw_world rw) p" "patch_room (rw_world rw) p"
    "bm_get (w_idempotency_records (rw_world rw)) (patch_idempotency_key p) = None"
    "scene_accepts (rw_world rw) (patch_operations p) (ents', Map.empty)"
proof -
  let ?w = "rw_world rw"
  have inv: "recorded_inv example_sha churn_config replay_config_default rw"
    using st recorded_run_inv [OF _ churn_limit] by (auto simp: churn_state_def)
  then have conf: "w_config ?w = churn_config" and ok: "world_ok ?w" by (simp_all add: recorded_inv_def)
  have cap: "unat (wc_max_entities churn_config) = 65536" by (simp add: churn_config_def world_config_default_def)
  have ops: "patch_operations p = [op]" by (simp add: p churn_patch_def)
  have none: "bm_get (w_idempotency_records ?w) (patch_idempotency_key p) = None"
    using st fresh unfolding churn_state_def by blast
  have acc: "scene_accepts ?w (patch_operations p) (ents', Map.empty)"
    by (rule flat_scene_accepts) (use st steps plain in \<open>simp_all add: churn_state_def conf cap ops\<close>)
  then show "bm_get (w_idempotency_records ?w) (patch_idempotency_key p) = None"
    "scene_accepts ?w (patch_operations p) (ents', Map.empty)" using none by simp_all
  have lims: "wc_runtime_limits churn_config = runtime_limits_default"
    by (simp add: churn_config_def world_config_default_def)
  show "patch_acceptable ?w p"
    using none acc valid st
    by (auto simp: patch_acceptable_def conf lims churn_state_def p churn_patch_def)
  have "unat (of_nat n :: u64) = n" by (rule unat_of_nat_small) (use n in simp)
  then have "is_ok (checked_next (w_revision ?w))"
    using st n by (simp add: churn_state_def checked_next_def checked_add_def)
  moreover have "w_render_extraction_generation ?w \<noteq> - 1" "w_transform_generation ?w \<noteq> - 1"
    using st n unat_max_word [where 'a = 64] by (auto simp: churn_state_def)
  moreover have "bm_len (w_idempotency_records ?w) \<le> n"
    using st by (metis (no_types, lifting) bm_len_card card_length churn_state_def length_map)
  moreover have "dom (bm_get (w_stable_index ?w)) = dom ents"
    using st ok dom_scene_entities [of ?w] by (simp add: churn_state_def scene_of_def world_ok_def)
  ultimately show "patch_room ?w p"
    using n small st
    by (simp add: patch_room_def operations_room_def conf ops churn_state_def)
      (simp add: churn_config_def world_config_default_def)
qed

lemma churn_log_room:
  assumes "churn_state n ents ps rw" "n < 5" "length pb = 2"
  shows "check_log_room (rw_log rw) pb = Inr ()"
proof -
  have run: "recorded_run example_sha churn_json churn_config replay_config_default rw"
    and len: "length (log_entries (rw_log rw)) = n" and enc: "unat (log_encoded_bytes (rw_log rw)) \<le> 8 + 180 * n"
    using assms(1) unfolding churn_state_def by (auto dest: arg_cong [where f = length])
  have conf: "log_config (rw_log rw) = replay_config_default"
    using recorded_run_inv [OF run churn_limit] by (simp add: recorded_inv_def)
  have "unat (rp_max_entries replay_config_default) = 4096" "unat (rp_max_entry_bytes replay_config_default) = 1049000"
      "unat (rp_max_log_bytes replay_config_default) = 67108864"
    by (simp_all add: replay_config_default_def)
  then show ?thesis
    using assms(2,3) len enc
    by (simp add: check_log_room_def Let_def conf word_less_unat unat_ucast_u64 unat_saturating_add unat_len_or_max)
qed

lemma churn_apply:
  assumes st: "churn_state n ents ps rw" and n: "n < 5" and p: "p = churn_patch n op"
    and valid: "patch_validate p runtime_limits_default = Inr ()" and fresh: "patch_idempotency_key p \<notin> set (map patch_idempotency_key ps)"
    and steps: "scene_steps 65536 [op] (ents, Map.empty) = Some (ents', Map.empty)"
    and plain: "\<And>i b. ents i = Some b \<Longrightarrow> plain_bundle b" "\<And>i b. ents' i = Some b \<Longrightarrow> plain_bundle b"
    and small: "card (insert (operation_target op) (dom ents)) \<le> 1"
    and json: "json_to_vec churn_json p = Some [x]"
  obtains rw' where "churn_state (Suc n) ents' (ps @ [p]) rw'"
proof -
  let ?w = "rw_world rw"
  note run = st [unfolded churn_state_def, THEN conjunct1]
  have inv: "recorded_inv example_sha churn_config replay_config_default rw"
    by (rule recorded_run_inv [OF run churn_limit])
  note acc = churn_acceptable [OF st n p valid fresh steps plain(2) small]
  have "scene_sized (ents, Map.empty)" "scene_sized (ents', Map.empty)"
    using plain by (auto simp: scene_sized_def plain_bundle_def)
  then have sized: "scene_sized (scene_of ?w)"
      "\<And>sc. scene_accepts ?w (patch_operations p) sc \<Longrightarrow> scene_sized sc"
    using st acc(4) by (auto simp: churn_state_def scene_accepts_def)
  have tx: "recorded_transaction ?w (patch_idempotency_key p) = None"
    using acc(3) by (simp add: recorded_transaction_def)
  have canon: "patch_to_canonical_json churn_json p (wc_runtime_limits churn_config) = Inr [x, 10]"
    using valid json
    by (simp add: patch_to_canonical_json_def encode_def churn_config_def world_config_default_def
        enforce_encoded_size_def len_or_max_def) (simp add: runtime_limits_default_def)
  have room: "check_log_room (rw_log rw) [x, 10] = Inr ()" by (rule churn_log_room [OF st n]) simp
  obtain receipt e w' where r: "recorded_apply_patch example_sha churn_json rw p (FrameId 1) (0, 0) =
        (Inr receipt, rw\<lparr> rw_world := w', rw_log := append_entry e (rw_log rw) \<rparr>)"
      "patch_applied ?w p receipt w'" "en_patch e = p" "en_patch_bytes e = [x, 10]"
    by (rule recorded_apply_succeeds [OF inv churn_limit acc(1,2) tx canon room sized,
          where frame = "FrameId 1" and micros = "(0, 0)"])
  let ?rw1 = "rw\<lparr> rw_world := w', rw_log := append_entry e (rw_log rw) \<rparr>"
  have w': "world_ok w'" "scene_of w' = (ents', Map.empty)"
    using r(2) acc(4) by (simp_all add: patch_applied_def scene_accepts_def)
  have gen: "unat (w_render_extraction_generation w') \<le> n"
    using r(2) st by (simp add: patch_applied_def churn_state_def)
  then have "w_render_extraction_generation w' \<noteq> - 1" using n unat_max_word [where 'a = 64] by auto
  then obtain g where g: "checked_add (w_render_extraction_generation w') 1 = Some g" by (rule checked_add_one)
  define rw2 where "rw2 = snd (recorded_extraction ?rw1)"
  have world2: "rw_world rw2 = finish_extraction w' g" and log2: "rw_log rw2 = append_entry e (rw_log rw)"
    by (simp_all add: rw2_def recorded_extraction_def take_render_extraction_ok [OF w'(1)] g)
  have "recorded_step example_sha churn_json rw ?rw1" by (rule recorded_apply_step [OF r(1)]) simp_all
  moreover have "recorded_step example_sha churn_json ?rw1 rw2" unfolding rw2_def by (rule recorded_extract_step)
  ultimately have run2: "recorded_run example_sha churn_json churn_config replay_config_default rw2"
    using run unfolding recorded_run_def by (meson rtranclp.rtrancl_into_rtrancl)
  have "unat (of_nat n :: u64) = n" by (rule unat_of_nat_small) (use n in simp)
  then have rev: "w_revision w' = SceneRevision (of_nat (Suc n))"
    using r(2) st n by (auto simp: patch_applied_def churn_state_def checked_next_Inr_iff add.commute)
  have "unat (entry_encoded_bytes e) = 172"
    by (simp add: entry_encoded_bytes_def r(4) ENTRY_ENVELOPE_BYTES_def FRAME_LENGTH_BYTES_def FIXED_ENTRY_BODY_BYTES_def)
  then have "unat (log_encoded_bytes (append_entry e (rw_log rw))) \<le> 8 + 180 * Suc n"
    using st by (auto simp: append_entry_def unat_saturating_add churn_state_def)
  moreover have "dom (bm_get (w_idempotency_records w')) = set (map patch_idempotency_key (ps @ [p]))"
    using r(2) st by (simp add: patch_applied_def churn_state_def)
  moreover have "unat (w_transform_generation w') \<le> Suc n"
    using r(2) st by (auto simp: patch_applied_def churn_state_def)
  moreover have "unat g \<le> Suc n" using checked_add_unat [OF g] gen by simp
  moreover have "scene_of (finish_extraction w' g) = scene_of w'"
    by (simp add: finish_extraction_def scene_of_def scene_entities_def)
  moreover have "map en_patch (log_entries (append_entry e (rw_log rw))) = ps @ [p]" "length (ps @ [p]) = Suc n"
    using st by (simp_all add: append_entry_def churn_state_def r(3))
  ultimately have "churn_state (Suc n) ents' (ps @ [p]) rw2"
    unfolding churn_state_def using run2 rev w'(2)
    by (simp add: world2 log2) (simp add: finish_extraction_def bs_set_def)
  then show thesis by (rule that)
qed

lemma churn_start:
  "\<exists>rw. churn_state 0 Map.empty [] rw"
proof -
  let ?rw = "\<lparr> rw_world = world_new churn_config, rw_world_config = churn_config,
               rw_log = replay_log_new replay_config_default \<rparr>"
  have "recorded_new churn_config replay_config_default = Inr ?rw"
    by (simp add: recorded_new_def replay_config_validate_def replay_config_default_def REPLAY_HEADER_BYTES_def)
  then have "recorded_run example_sha churn_json churn_config replay_config_default ?rw"
    by (auto simp: recorded_run_def)
  then have "churn_state 0 Map.empty [] ?rw"
    unfolding churn_state_def by (simp add: replay_log_new_def) (simp add: world_new_def bs_set_def)
  then show ?thesis by blast
qed

definition churn_entity :: "u128 \<Rightarrow> component_bundle" where
  "churn_entity i = build_bundle (churn_create i)"

lemma churn_entity_plain: "plain_bundle (churn_entity i)"
  by (simp add: churn_entity_def plain_bundle_def build_bundle_def churn_create_def empty_bundle_def)

lemma churn_create_simps [simp]:
  "create_entity_id (churn_create i) = StableEntityId i" "build_bundle (churn_create i) = churn_entity i"
  by (simp_all add: churn_create_def churn_entity_def)

lemma churn_history: "\<exists>rw. churn_state 3 [StableEntityId 2 \<mapsto> churn_entity 2] [churn_first, churn_second, churn_third] rw"
proof -
  have json: "json_to_vec churn_json churn_first = Some [49]" "json_to_vec churn_json churn_second = Some [50]"
      "json_to_vec churn_json churn_third = Some [51]"
    using churn_distinct by (auto simp: churn_json_def)
  have keys: "patch_idempotency_key churn_first = IdempotencyKey 1" "patch_idempotency_key churn_second = IdempotencyKey 2"
      "patch_idempotency_key churn_third = IdempotencyKey 3"
    by (simp_all add: churn_first_def churn_second_def churn_third_def churn_patch_def)
  have plain: "(if i = k then Some (churn_entity j) else None) = Some b \<Longrightarrow> plain_bundle b" for i k j b
    using churn_entity_plain by (auto split: if_splits)
  obtain rw0 where "churn_state 0 Map.empty [] rw0" using churn_start by blast
  then obtain rw1 where "churn_state (Suc 0) [StableEntityId 1 \<mapsto> churn_entity 1] ([] @ [churn_first]) rw1"
    by (rule churn_apply [OF _ _ churn_first_def churn_validates(1) _ _ _ _ _ json(1)])
      (auto intro: plain)
  then obtain rw2 where "churn_state (Suc (Suc 0)) Map.empty (([] @ [churn_first]) @ [churn_second]) rw2"
    by (rule churn_apply [OF _ _ churn_second_def [unfolded One_nat_def] churn_validates(2) _ _ _ _ _ json(2)])
      (auto simp: keys intro: plain)
  then obtain rw3 where "churn_state (Suc (Suc (Suc 0))) [StableEntityId 2 \<mapsto> churn_entity 2]
      ((([] @ [churn_first]) @ [churn_second]) @ [churn_third]) rw3"
    by (rule churn_apply [OF _ _ churn_third_def [unfolded numeral_2_eq_2] churn_validates(3) _ _ _ _ _ json(3)])
      (auto simp: keys intro: plain)
  then show ?thesis by (auto simp: numeral_3_eq_3)
qed

section \<open>The replay\<close>

text \<open>A world that replayed an entry has applied its patch.\<close>

lemma replay_entry_applied:
  assumes w: "world_ok v" "operation_limit_ok v" and res: "replay_entry_into sha micros i v e = Inr v'"
  obtains r where "patch_applied v (en_patch e) r v'"
proof -
  obtain res v1 where ap: "apply_patch v (en_patch e) (en_estimated_visible_frame e) micros = (res, v1)"
    by (cases "apply_patch v (en_patch e) (en_estimated_visible_frame e) micros")
  from assms(3) obtain r where r: "res = Inr r" "receipt_status r = Applied" "v1 = v'"
    by (auto simp: replay_entry_into_def ap res_simps split: if_splits sum.splits)
  have "apply_outcome v (en_patch e) (res, v1)" using apply_patch_outcome [OF w] ap by metis
  with r have "patch_applied v (en_patch e) r v'" by (auto simp: apply_outcome_def split: option.splits)
  then show thesis by (rule that)
qed

lemma created_is_pending:
  assumes app: "patch_applied v p r v'" and v: "scene_entities v i = None"
    and v': "scene_entities v' i = Some (churn_entity j)"
  shows "i \<in> bs_set (w_pending_render_changes v')"
proof (rule ccontr)
  assume "i \<notin> bs_set (w_pending_render_changes v')"
  then have "render_view v' i = render_view v i" using app by (simp add: patch_applied_def)
  also have "\<dots> = None" by (simp add: render_view_def v)
  finally have none: "render_view v' i = None" .
  have "index_part_ok v'" "transform_part_ok v'" using app by (simp_all add: patch_applied_def world_ok_def)
  then have "i \<in> dom (bm_get (w_world_transforms v'))"
    using v' dom_scene_entities [of v'] by (auto simp: transform_part_ok_def)
  then obtain t where "bm_get (w_world_transforms v') i = Some t" by blast
  with none v' show False
    by (simp add: render_view_def churn_entity_def churn_create_def build_bundle_def empty_bundle_def
        bundle_render_components_def render_components_empty_def)
qed

lemma patch_applied_scene:
  assumes "patch_applied v p r v'" "scene_of v = sc" "w_config v = churn_config"
  shows "scene_steps 65536 (patch_operations p) sc = Some (scene_of v')" "w_config v' = churn_config" "world_ok v'"
    "bs_set (w_pending_render_changes v) \<subseteq> bs_set (w_pending_render_changes v')"
  using assms by (auto simp: patch_applied_def scene_accepts_def churn_config_def world_config_default_def)

lemma churn_replay_fails:
  assumes "map en_patch es = [churn_first, churn_second, churn_third]"
  shows "replay_entries sha clock 0 (world_new churn_config) es \<noteq> Inr v"
proof
  let ?v0 = "world_new churn_config"
  assume ok: "replay_entries sha clock 0 ?v0 es = Inr v"
  from assms obtain e1 e2 e3 where es: "es = [e1, e2, e3]"
      and p: "en_patch e1 = churn_first" "en_patch e2 = churn_second" "en_patch e3 = churn_third"
    by (auto simp: map_eq_Cons_conv)
  from ok obtain v1 v2 m1 m2 m3 i1 i2 i3 where step: "replay_entry_into sha m1 i1 ?v0 e1 = Inr v1"
      "replay_entry_into sha m2 i2 v1 e2 = Inr v2" "replay_entry_into sha m3 i3 v2 e3 = Inr v"
    unfolding es replay_entries.simps bind_res_Inr_iff by blast
  have lim: "w_config u = churn_config \<Longrightarrow> operation_limit_ok u" for u using churn_limit by simp
  obtain r1 where a1: "patch_applied ?v0 churn_first r1 v1"
    by (rule replay_entry_applied [OF world_new_ok_parts lim [OF world_new_fields(1)] step(1), unfolded p(1)])
  note s1 = patch_applied_scene [OF a1 scene_of_new world_new_fields(1)]
  obtain r2 where a2: "patch_applied v1 churn_second r2 v2"
    by (rule replay_entry_applied [OF s1(3) lim [OF s1(2)] step(2), unfolded p(2)])
  have sc1: "scene_of v1 = ([StableEntityId 1 \<mapsto> churn_entity 1], Map.empty)"
    using s1(1) by (simp add: churn_first_def churn_patch_def)
  note s2 = patch_applied_scene [OF a2 sc1 s1(2)]
  obtain r3 where a3: "patch_applied v2 churn_third r3 v"
    by (rule replay_entry_applied [OF s2(3) lim [OF s2(2)] step(3), unfolded p(3)])
  have sc2: "scene_of v2 = (Map.empty, Map.empty)"
    using s2(1) by (simp add: churn_second_def churn_patch_def)
  note s3 = patch_applied_scene [OF a3 sc2 s2(2)]
  have sc3: "scene_of v = ([StableEntityId 2 \<mapsto> churn_entity 2], Map.empty)"
    using s3(1) by (simp add: churn_third_def churn_patch_def)
  have "StableEntityId 1 \<in> bs_set (w_pending_render_changes v1)"
    by (rule created_is_pending [OF a1, of _ 1]) (use sc1 scene_of_new [of churn_config] in \<open>simp_all add: scene_of_def\<close>)
  moreover have "StableEntityId 2 \<in> bs_set (w_pending_render_changes v)"
    by (rule created_is_pending [OF a3, of _ 2]) (use sc2 sc3 in \<open>simp_all add: scene_of_def\<close>)
  ultimately have "{StableEntityId 1, StableEntityId 2} \<subseteq> bs_set (w_pending_render_changes v)"
    using s2(4) s3(4) by blast
  then have "card {StableEntityId 1, StableEntityId 2} \<le> card (bs_set (w_pending_render_changes v))"
    by (rule card_mono [rotated]) simp
  moreover have "card (bs_set (w_pending_render_changes v)) \<le> 1"
    using s3(2,3) by (simp add: world_ok_def extraction_part_ok_def churn_config_def bs_len_card)
  ultimately show False by simp
qed


end
