(* ===== verification/Protocol_Query.thy ===== *)
theory Protocol_Query
  imports Protocol_Codec
begin

text \<open>
  Scene queries and their results (\<open>cogniform-protocol/src/query.rs\<close>): the bounds on a
  query, the uniqueness of its filters, and the canonical form of a result, which is
  strictly ordered by identity and, within an entity, by component kind.
\<close>

section \<open>Queries\<close>

record scene_query =
  query_schema_version :: schema_version
  query_scene_revision :: scene_revision
  query_entity_ids :: "stable_entity_id list"
  query_component_kinds :: "component_kind list"
  query_limit :: u32

definition len_count :: "nat \<Rightarrow> u32" where
  "len_count n = len_or_max n"

fun all_unique :: "'a::linorder list \<Rightarrow> 'a btree_set \<Rightarrow> bool" where
  "all_unique [] seen = True"
| "all_unique (v # vs) seen = (if bs_mem seen v then False else all_unique vs (bs_insert v seen))"

definition query_logical_size_bytes :: "scene_query \<Rightarrow> u64" where
  "query_logical_size_bytes q =
     saturating_add (saturating_add (saturating_add (saturating_add (saturating_add (saturating_add 2 8) 4)
       (ucast (len_count (length (query_entity_ids q))) * 16)) 4)
         (ucast (len_count (length (query_component_kinds q))))) 4"

definition query_validate :: "scene_query \<Rightarrow> runtime_limits \<Rightarrow> validation_error + unit" where
  "query_validate q limits =
     bind_res (validate_schema (query_schema_version q)) (\<lambda>_.
       if query_limit q > max_query_entities limits
          \<or> len_count (length (query_entity_ids q)) > query_limit q
          \<or> len_count (length (query_entity_ids q)) > max_query_entities limits
       then Inl (ValidationError QueryEntityLimitExceeded ''query.entity_ids'')
       else if \<not> all_unique (query_entity_ids q) bs_empty \<or> \<not> all_unique (query_component_kinds q) bs_empty
       then Inl (ValidationError DuplicateQueryFilter ''query.filters'')
       else if query_logical_size_bytes q > max_decoded_bytes limits
       then Inl (ValidationError DecodedSizeLimitExceeded ''query'')
       else Inr ())"

section \<open>Results\<close>

record scene_entity_view =
  view_entity_id :: stable_entity_id
  view_parent_id :: "stable_entity_id option"
  view_components :: "component_value list"

record scene_query_result =
  qres_schema_version :: schema_version
  qres_scene_revision :: scene_revision
  qres_entities :: "scene_entity_view list"

text \<open>The loop over the components of one entity, with the running counts.\<close>

fun view_components_validate ::
    "component_value list \<Rightarrow> component_kind option \<Rightarrow> u64 \<Rightarrow> u64 \<Rightarrow> validation_error + (u64 \<times> u64)" where
  "view_components_validate [] previous component_count text_bytes = Inr (component_count, text_bytes)"
| "view_components_validate (c # cs) previous component_count text_bytes =
     (if (case previous of None \<Rightarrow> False | Some p \<Rightarrow> p \<ge> component_kind_of c)
      then Inl (ValidationError NonCanonicalQueryResult ''query_result.entities[].components'')
      else bind_res (component_validate c) (\<lambda>_.
        view_components_validate cs (Some (component_kind_of c)) (saturating_add component_count 1)
          (saturating_add text_bytes (len_or_max (component_text_bytes c)))))"

fun query_entities_validate ::
    "runtime_limits \<Rightarrow> scene_entity_view list \<Rightarrow> stable_entity_id option \<Rightarrow> u64 \<Rightarrow> u64
       \<Rightarrow> validation_error + (u64 \<times> u64)" where
  "query_entities_validate limits [] previous component_count text_bytes = Inr (component_count, text_bytes)"
| "query_entities_validate limits (e # es) previous component_count text_bytes =
     (if (case previous of None \<Rightarrow> False | Some p \<Rightarrow> p \<ge> view_entity_id e)
      then Inl (ValidationError NonCanonicalQueryResult ''query_result.entities'')
      else if len_count (length (view_components e)) > max_components_per_entity limits
      then Inl (ValidationError ComponentLimitExceeded ''query_result.entities[].components'')
      else bind_res (view_components_validate (view_components e) None component_count text_bytes)
        (\<lambda>(component_count', text_bytes').
          query_entities_validate limits es (Some (view_entity_id e)) component_count' text_bytes'))"

definition view_logical_size :: "scene_entity_view \<Rightarrow> u64 \<Rightarrow> u64" where
  "view_logical_size e bytes_before =
     foldl (\<lambda>n c. saturating_add n (component_logical_size_bytes c))
       (saturating_add (saturating_add (saturating_add bytes_before 16) (option_bytes (view_parent_id e) 16)) 4)
       (view_components e)"

definition query_result_logical_size_bytes :: "scene_query_result \<Rightarrow> u64" where
  "query_result_logical_size_bytes r = fold view_logical_size (qres_entities r) (2 + 8 + 4)"

definition query_result_validate :: "scene_query_result \<Rightarrow> runtime_limits \<Rightarrow> validation_error + unit" where
  "query_result_validate r limits =
     bind_res (validate_schema (qres_schema_version r)) (\<lambda>_.
       if len_count (length (qres_entities r)) > max_query_entities limits
       then Inl (ValidationError QueryEntityLimitExceeded ''query_result.entities'')
       else bind_res (query_entities_validate limits (qres_entities r) None 0 0)
         (\<lambda>(component_count, text_bytes).
           if component_count > ucast (max_components limits)
           then Inl (ValidationError ComponentLimitExceeded ''query_result.entities[].components'')
           else if text_bytes > max_text_bytes limits
           then Inl (ValidationError TextLimitExceeded ''query_result.entities[].components'')
           else if query_result_logical_size_bytes r > max_decoded_bytes limits
           then Inl (ValidationError DecodedSizeLimitExceeded ''query_result'')
           else Inr ()))"

section \<open>What the checks establish\<close>

lemma all_unique_iff: "all_unique vs seen \<longleftrightarrow> distinct vs \<and> set vs \<inter> bs_set seen = {}"
  by (induction vs seen rule: all_unique.induct) (auto simp: bs_set_def)

lemma view_components_sorted:
  "view_components_validate cs p n t = Inr r \<Longrightarrow>
     sorted_wrt (<) (map component_kind_of cs) \<and>
     (\<forall>q. p = Some q \<longrightarrow> (\<forall>c\<in>set cs. q < component_kind_of c)) \<and>
     (\<forall>c\<in>set cs. component_validate c = Inr ())"
proof (induction cs p n t rule: view_components_validate.induct)
  case (2 c cs previous n t)
  then have ok: "component_validate c = Inr ()"
      and rest: "view_components_validate cs (Some (component_kind_of c)) (saturating_add n 1)
        (saturating_add t (len_or_max (component_text_bytes c))) = Inr r"
      and prev: "\<forall>q. previous = Some q \<longrightarrow> q < component_kind_of c"
    by (auto simp: res_simps split: if_splits option.splits)
  from "2.IH" rest prev ok have "sorted_wrt (<) (map component_kind_of cs)"
      "\<forall>d\<in>set cs. component_kind_of c < component_kind_of d" "\<forall>d\<in>set cs. component_validate d = Inr ()"
    by (auto simp: not_le split: option.splits)
  with prev ok show ?case by (auto dest: order_less_trans)
qed simp

lemma query_entities_sorted:
  "query_entities_validate limits es p n t = Inr r \<Longrightarrow>
     sorted_wrt (<) (map view_entity_id es) \<and>
     (\<forall>q. p = Some q \<longrightarrow> (\<forall>e\<in>set es. q < view_entity_id e)) \<and>
     (\<forall>e\<in>set es. sorted_wrt (<) (map component_kind_of (view_components e)) \<and>
        (\<forall>c\<in>set (view_components e). component_validate c = Inr ()))"
proof (induction es arbitrary: p n t)
  case (Cons e es)
  then obtain n' t' where comps: "view_components_validate (view_components e) None n t = Inr (n', t')"
      and rest: "query_entities_validate limits es (Some (view_entity_id e)) n' t' = Inr r"
      and prev: "\<forall>q. p = Some q \<longrightarrow> q < view_entity_id e"
    by (auto simp: res_simps split: if_splits option.splits)
  from Cons.IH [OF rest] view_components_sorted [OF comps] prev show ?case
    by (auto dest: order_less_trans)
qed simp



end
