(* ===== verification/Protocol_Imagination.thy ===== *)
theory Protocol_Imagination
  imports Protocol_Codec
begin

text \<open>
  Imagination envelopes (\<open>cogniform-protocol/src/imagination.rs\<close>): semantic requests that
  a compiler turns into one patch. Validation bounds the request itself and, in advance, the
  patch it will be compiled to.
\<close>

section \<open>Envelopes\<close>

record imagination_budget =
  ibudget_max_entities :: u32
  ibudget_max_relations :: u32
  ibudget_max_constraints :: u32
  ibudget_patch :: patch_budget

definition imagination_budget_default :: imagination_budget where
  "imagination_budget_default =
     \<lparr> ibudget_max_entities = 64, ibudget_max_relations = 128, ibudget_max_constraints = 64,
       ibudget_patch = patch_budget_default \<rparr>"

record imagined_entity =
  ie_key :: scene_text
  ie_preferred_id :: "stable_entity_id option"
  ie_name :: "scene_text option"
  ie_primitive :: primitive_component
  ie_transform :: "local_transform option"
  ie_material :: "material_component option"

datatype imagination_relation =
    RelParent (rel_child: scene_text) (rel_parent: scene_text)
  | RelAbove (rel_subject: scene_text) (rel_anchor: scene_text) (rel_gap: non_negative_f32)
  | RelRightOf (rel_subject: scene_text) (rel_anchor: scene_text) (rel_gap: non_negative_f32)

datatype imagination_constraint =
    EntityExists stable_entity_id
  | EntityAbsent stable_entity_id

record imagination_envelope =
  env_schema_version :: schema_version
  env_imagination_id :: imagination_id
  env_transaction_id :: transaction_id
  env_idempotency_key :: idempotency_key
  env_base_revision :: scene_revision
  env_delivery :: delivery_semantic
  env_seed :: u64
  env_declared_budget :: imagination_budget
  env_entities :: "imagined_entity list"
  env_relations :: "imagination_relation list"
  env_constraints :: "imagination_constraint list"

section \<open>Sizes\<close>

definition text_len :: "scene_text \<Rightarrow> u64" where
  "text_len t = len_or_max (len_bytes t)"

definition collection_count :: "nat \<Rightarrow> u32" where
  "collection_count n = len_or_max n"

fun relation_texts :: "imagination_relation \<Rightarrow> scene_text \<times> scene_text" where
  "relation_texts (RelParent child parent) = (child, parent)"
| "relation_texts (RelAbove subject anchor _) = (subject, anchor)"
| "relation_texts (RelRightOf subject anchor _) = (subject, anchor)"

definition relation_text_bytes :: "imagination_relation \<Rightarrow> u64" where
  "relation_text_bytes r =
     saturating_add (text_len (fst (relation_texts r))) (text_len (snd (relation_texts r)))"

fun adds_patch_operation :: "imagination_relation \<Rightarrow> bool" where
  "adds_patch_operation (RelParent _ _) = True"
| "adds_patch_operation _ = False"

definition relation_logical_size_bytes :: "imagination_relation \<Rightarrow> u64" where
  "relation_logical_size_bytes r =
     saturating_add (saturating_add (saturating_add 1 8) (relation_text_bytes r))
       (if adds_patch_operation r then 0 else 4)"

definition imagined_logical_size :: "u64 \<Rightarrow> imagined_entity \<Rightarrow> u64" where
  "imagined_logical_size before e =
     saturating_add (saturating_add (saturating_add (saturating_add (saturating_add (saturating_add
       (saturating_add before 16) (text_len (ie_key e)))
         (case ie_name e of None \<Rightarrow> 0 | Some name \<Rightarrow> text_len name))
           (option_bytes (ie_preferred_id e) 16)) (1 + 3 * 4))
             (option_bytes (ie_transform e) (10 * 4))) (option_bytes (ie_material e) (6 * 4))"

definition envelope_logical_size_bytes :: "imagination_envelope \<Rightarrow> u64" where
  "envelope_logical_size_bytes v =
     saturating_add (saturating_add (saturating_add (saturating_add (saturating_add (saturating_add
       (saturating_add (saturating_add 2 (16 * 3)) (8 * 2))
         (delivery_logical_size_bytes (env_delivery v))) 40) (4 * 3))
           (foldl imagined_logical_size 0 (env_entities v)))
             (foldl (\<lambda>n r. saturating_add n (relation_logical_size_bytes r)) 0 (env_relations v)))
               (ucast (collection_count (length (env_constraints v))) * 17)"

definition saturating_mul :: "'a::len word \<Rightarrow> 'a word \<Rightarrow> 'a word" where
  "saturating_mul a b = (if unat a * unat b < 2 ^ LENGTH('a) then a * b else - 1)"

definition entity_name :: "imagined_entity \<Rightarrow> scene_text" where
  "entity_name e = (case ie_name e of Some name \<Rightarrow> name | None \<Rightarrow> ie_key e)"

definition create_size :: "u64 \<Rightarrow> imagined_entity \<Rightarrow> u64" where
  "create_size before e =
     saturating_add (saturating_add (saturating_add (saturating_add (saturating_add before (1 + 16 + 4))
       (1 + 4 + text_len (entity_name e))) (1 + 10 * 4)) (1 + 1 + 3 * 4)) (1 + 6 * 4)"

definition reparent_count :: "imagination_envelope \<Rightarrow> u32" where
  "reparent_count v = collection_count (length (filter adds_patch_operation (env_relations v)))"

definition normalized_patch_size_bytes :: "imagination_envelope \<Rightarrow> u64" where
  "normalized_patch_size_bytes v =
     saturating_add (saturating_add (saturating_add (2 + 16 + 16 + 8 + 1 + 24 + 4)
       (delivery_logical_size_bytes (env_delivery v))) (foldl create_size 0 (env_entities v)))
         (saturating_mul (ucast (reparent_count v)) (1 + 16 + 1 + 16))"

section \<open>Validation\<close>

definition exceeds :: "u32 \<Rightarrow> u32 \<Rightarrow> u32 \<Rightarrow> bool" where
  "exceeds n declared limit \<longleftrightarrow> n > declared \<or> n > limit \<or> declared > limit"

definition validate_collection_limits ::
    "imagination_envelope \<Rightarrow> runtime_limits \<Rightarrow> validation_error + unit" where
  "validate_collection_limits v limits =
     (if collection_count (length (env_entities v)) = 0
      then Inl (ValidationError EmptyImagination ''entities'')
      else if exceeds (collection_count (length (env_entities v)))
                (ibudget_max_entities (env_declared_budget v)) (max_imagination_entities limits)
      then Inl (ValidationError ImaginationEntityLimitExceeded ''entities'')
      else if exceeds (collection_count (length (env_relations v)))
                (ibudget_max_relations (env_declared_budget v)) (max_imagination_relations limits)
      then Inl (ValidationError ImaginationRelationLimitExceeded ''relations'')
      else if exceeds (collection_count (length (env_constraints v)))
                (ibudget_max_constraints (env_declared_budget v)) (max_imagination_constraints limits)
      then Inl (ValidationError ImaginationConstraintLimitExceeded ''constraints'')
      else Inr ())"

definition validate_patch_budget :: "patch_budget \<Rightarrow> runtime_limits \<Rightarrow> validation_error + unit" where
  "validate_patch_budget budget limits =
     (if budget_max_operations budget > max_operations limits
      then Inl (ValidationError OperationLimitExceeded ''declared_budget.patch.max_operations'')
      else if budget_max_components budget > max_components limits
      then Inl (ValidationError ComponentLimitExceeded ''declared_budget.patch.max_components'')
      else if budget_max_text_bytes budget > max_text_bytes limits
      then Inl (ValidationError TextLimitExceeded ''declared_budget.patch.max_text_bytes'')
      else if budget_max_decoded_bytes budget > max_decoded_bytes limits
      then Inl (ValidationError DecodedSizeLimitExceeded ''declared_budget.patch.max_decoded_bytes'')
      else Inr ())"

definition optional_validate :: "('a \<Rightarrow> component_value) \<Rightarrow> 'a option \<Rightarrow> validation_error + unit" where
  "optional_validate f x = (case x of None \<Rightarrow> Inr () | Some y \<Rightarrow> component_validate (f y))"

text \<open>The loop over the entities: keys seen, text of the request, text of the patch.\<close>

fun imagined_entities_validate ::
    "imagined_entity list \<Rightarrow> scene_text btree_set \<Rightarrow> u64 \<Rightarrow> u64 \<Rightarrow> validation_error + (u64 \<times> u64)" where
  "imagined_entities_validate [] keys text_bytes output_text_bytes = Inr (text_bytes, output_text_bytes)"
| "imagined_entities_validate (e # es) keys text_bytes output_text_bytes =
     (if bs_mem keys (ie_key e) then Inl (ValidationError DuplicateImaginationEntity ''entities[].key'')
      else bind_res (component_validate (Primitive (ie_primitive e))) (\<lambda>_.
           bind_res (optional_validate LocalTransform (ie_transform e)) (\<lambda>_.
           bind_res (optional_validate Material (ie_material e)) (\<lambda>_.
             imagined_entities_validate es (bs_insert (ie_key e) keys)
               (case ie_name e of
                  Some name \<Rightarrow> saturating_add (saturating_add text_bytes (text_len (ie_key e))) (text_len name)
                | None \<Rightarrow> saturating_add text_bytes (text_len (ie_key e)))
               (saturating_add output_text_bytes (text_len (entity_name e)))))))"

definition output_operations :: "imagination_envelope \<Rightarrow> u32" where
  "output_operations v =
     saturating_add (collection_count (length (env_entities v))) (reparent_count v)"

definition validate_output ::
    "imagination_envelope \<Rightarrow> runtime_limits \<Rightarrow> u64 \<Rightarrow> u64 \<Rightarrow> validation_error + unit" where
  "validate_output v limits text_bytes output_text_bytes =
     (if text_bytes > max_text_bytes limits
      then Inl (ValidationError TextLimitExceeded ''imagination.text'')
      else if output_text_bytes > budget_max_text_bytes (ibudget_patch (env_declared_budget v))
      then Inl (ValidationError TextLimitExceeded ''declared_budget.patch.max_text_bytes'')
      else if output_operations v > budget_max_operations (ibudget_patch (env_declared_budget v))
        \<or> output_operations v > max_operations limits
      then Inl (ValidationError OperationLimitExceeded ''declared_budget.patch.max_operations'')
      else if max_components_per_entity limits < 4
        \<or> saturating_mul (collection_count (length (env_entities v))) 4
            > budget_max_components (ibudget_patch (env_declared_budget v))
        \<or> saturating_mul (collection_count (length (env_entities v))) 4 > max_components limits
      then Inl (ValidationError ComponentLimitExceeded ''declared_budget.patch.max_components'')
      else if normalized_patch_size_bytes v > budget_max_decoded_bytes (ibudget_patch (env_declared_budget v))
      then Inl (ValidationError DecodedSizeLimitExceeded ''declared_budget.patch.max_decoded_bytes'')
      else Inr ())"

definition validate_entities_and_output ::
    "imagination_envelope \<Rightarrow> runtime_limits \<Rightarrow> validation_error + unit" where
  "validate_entities_and_output v limits =
     bind_res (imagined_entities_validate (env_entities v) bs_empty
         (len_or_max (delivery_text_bytes (env_delivery v)))
         (len_or_max (delivery_text_bytes (env_delivery v)))) (\<lambda>(text_bytes, output_text_bytes).
       validate_output v limits
         (foldl (\<lambda>n r. saturating_add n (relation_text_bytes r)) text_bytes (env_relations v))
         output_text_bytes)"

definition envelope_validate :: "imagination_envelope \<Rightarrow> runtime_limits \<Rightarrow> validation_error + unit" where
  "envelope_validate v limits =
     bind_res (validate_schema (env_schema_version v)) (\<lambda>_.
     bind_res (validate_collection_limits v limits) (\<lambda>_.
     bind_res (validate_patch_budget (ibudget_patch (env_declared_budget v)) limits) (\<lambda>_.
     bind_res (validate_entities_and_output v limits) (\<lambda>_.
       if envelope_logical_size_bytes v > max_decoded_bytes limits
       then Inl (ValidationError DecodedSizeLimitExceeded ''imagination'')
       else Inr ()))))"

end
