(* ===== verification/Compilation_Result.thy ===== *)
theory Compilation_Result
  imports Protocol_Imagination "HOL-Library.Option_ord" "HOL-Library.Product_Lexorder"
    "HOL-Library.Multiset"
begin

text \<open>
  Compilation results (\<open>cogniform-compilation/src\<close>: \<open>limits.rs\<close>, \<open>error.rs\<close>,
  \<open>result.rs\<close>, \<open>codec.rs\<close>): what the compiler decided, what it could not resolve, the
  canonical order of both, their validation, and the bounded canonical codec. The JSON
  library is an argument: the chunks its serializer offers to a writer, and its parser.
\<close>

section \<open>Orderings\<close>

text \<open>\<open>core::cmp::Ordering\<close>, \<open>Ord::cmp\<close> and \<open>Ordering::then_with\<close>.\<close>

datatype ordering = Less | Equal | Greater

definition cmp :: "'a::linorder \<Rightarrow> 'a \<Rightarrow> ordering" where
  "cmp a b = (if a < b then Less else if a = b then Equal else Greater)"

fun then_with :: "ordering \<Rightarrow> ordering \<Rightarrow> ordering" where
  "then_with Equal next = next"
| "then_with first _ = first"

text \<open>\<open>slice::sort_by\<close> is stable: an element goes before the first one it is not greater than.\<close>

fun insert_by :: "('a \<Rightarrow> 'a \<Rightarrow> ordering) \<Rightarrow> 'a \<Rightarrow> 'a list \<Rightarrow> 'a list" where
  "insert_by f x [] = [x]"
| "insert_by f x (y # ys) = (if f x y = Greater then y # insert_by f x ys else x # y # ys)"

definition sort_by :: "('a \<Rightarrow> 'a \<Rightarrow> ordering) \<Rightarrow> 'a list \<Rightarrow> 'a list" where
  "sort_by f xs = foldr (insert_by f) xs []"

text \<open>What a comparison of the source promises: it compares images in a linear order.\<close>

locale comparator =
  fixes f :: "'a \<Rightarrow> 'a \<Rightarrow> ordering" and key :: "'a \<Rightarrow> 'k::linorder"
  assumes f_cmp: "f a b = cmp (key a) (key b)"
begin

lemma mset_insert_by: "mset (insert_by f x ys) = add_mset x (mset ys)"
  by (induction ys) auto

lemma mset_sort_by [simp]: "mset (sort_by f xs) = mset xs"
  by (induction xs) (auto simp: sort_by_def mset_insert_by)

lemma set_sort_by [simp]: "set (sort_by f xs) = set xs"
  by (rule mset_eq_setD) simp

lemma length_sort_by [simp]: "length (sort_by f xs) = length xs"
  by (rule mset_eq_length) simp

lemma set_insert_by [simp]: "set (insert_by f x ys) = insert x (set ys)"
  using mset_insert_by [of x ys] by (metis set_mset_add_mset_insert set_mset_mset)

lemma sorted_insert_by: "sorted (map key ys) \<Longrightarrow> sorted (map key (insert_by f x ys))"
  by (induction ys) (auto simp: f_cmp cmp_def split: if_splits)

lemma sorted_sort_by: "sorted (map key (sort_by f xs))"
  by (induction xs) (simp_all add: sort_by_def sorted_insert_by)

lemma distinct_sort_by: "distinct (map key xs) \<Longrightarrow> sorted_wrt (<) (map key (sort_by f xs))"
  using sorted_sort_by [of xs] mset_map [of key "sort_by f xs"]
  by (metis mset_eq_imp_distinct_iff mset_map mset_sort_by strict_sorted_iff)

lemma f_Less_iff: "f a b = Less \<longleftrightarrow> key a < key b"
  by (simp add: f_cmp cmp_def)

end

section \<open>Results\<close>

datatype compilation_decision_code =
    GeneratedEntityId | PreferredEntityIdSubstituted | DefaultName | DefaultTransform
  | DefaultMaterial | ParentRelationApplied | AboveRelationApplied | RightOfRelationApplied

fun decision_rank :: "compilation_decision_code \<Rightarrow> u8" where
  "decision_rank GeneratedEntityId = 0"
| "decision_rank PreferredEntityIdSubstituted = 1"
| "decision_rank DefaultName = 2"
| "decision_rank DefaultTransform = 3"
| "decision_rank DefaultMaterial = 4"
| "decision_rank ParentRelationApplied = 5"
| "decision_rank AboveRelationApplied = 6"
| "decision_rank RightOfRelationApplied = 7"

record compilation_decision =
  dec_code :: compilation_decision_code
  dec_entity_key :: scene_text
  dec_relation_index :: "u32 option"
  dec_entity_id :: "stable_entity_id option"

definition decision_cmp :: "compilation_decision \<Rightarrow> compilation_decision \<Rightarrow> ordering" where
  "decision_cmp a b =
     then_with (then_with (cmp (dec_entity_key a) (dec_entity_key b))
       (cmp (decision_rank (dec_code a)) (decision_rank (dec_code b))))
         (cmp (dec_relation_index a) (dec_relation_index b))"

datatype unresolved_constraint_code =
    UnknownEntityReference | SelfRelation | ConflictingRelation | HierarchyCycleCode | PlacementCycle
  | RequiredEntityMissing | RequiredEntityPresent | NonFinitePlacement | UnsupportedSpatialRotation

fun unresolved_rank :: "unresolved_constraint_code \<Rightarrow> u8" where
  "unresolved_rank UnknownEntityReference = 0"
| "unresolved_rank SelfRelation = 1"
| "unresolved_rank ConflictingRelation = 2"
| "unresolved_rank HierarchyCycleCode = 3"
| "unresolved_rank PlacementCycle = 4"
| "unresolved_rank RequiredEntityMissing = 5"
| "unresolved_rank RequiredEntityPresent = 6"
| "unresolved_rank NonFinitePlacement = 7"
| "unresolved_rank UnsupportedSpatialRotation = 8"

record unresolved_constraint =
  un_code :: unresolved_constraint_code
  un_relation_index :: "u32 option"
  un_constraint_index :: "u32 option"
  un_entity_key :: "scene_text option"
  un_related_key :: "scene_text option"
  un_entity_id :: "stable_entity_id option"

definition unresolved_cmp :: "unresolved_constraint \<Rightarrow> unresolved_constraint \<Rightarrow> ordering" where
  "unresolved_cmp a b =
     then_with (then_with (then_with (then_with (then_with
       (cmp (un_relation_index a) (un_relation_index b))
         (cmp (un_constraint_index a) (un_constraint_index b)))
           (cmp (unresolved_rank (un_code a)) (unresolved_rank (un_code b))))
             (cmp (un_entity_key a) (un_entity_key b)))
               (cmp (un_related_key a) (un_related_key b)))
                 (cmp (un_entity_id a) (un_entity_id b))"

record compilation_result =
  cr_schema_version :: schema_version
  cr_imagination_id :: imagination_id
  cr_scene_revision :: scene_revision
  cr_patch :: "scene_patch option"
  cr_decisions :: "compilation_decision list"
  cr_unresolved :: "unresolved_constraint list"

definition is_compiled :: "compilation_result \<Rightarrow> bool" where
  "is_compiled r \<longleftrightarrow> cr_patch r \<noteq> None \<and> cr_unresolved r = []"

section \<open>Limits\<close>

record compilation_limits =
  cl_max_encoded_bytes :: u64
  cl_max_decoded_bytes :: u64
  cl_max_json_nesting_depth :: u16
  cl_max_text_bytes :: u64
  cl_max_decisions :: u32
  cl_max_unresolved_constraints :: u32
  cl_patch_limits :: runtime_limits

definition derived_decisions :: "runtime_limits \<Rightarrow> u32" where
  "derived_decisions l =
     saturating_add (saturating_mul (max_imagination_entities l) 4) (max_imagination_relations l)"

definition derived_unresolved :: "runtime_limits \<Rightarrow> u32" where
  "derived_unresolved l = saturating_add (max_imagination_relations l) (max_imagination_constraints l)"

definition derived_text :: "runtime_limits \<Rightarrow> u64" where
  "derived_text l = saturating_mul (max_text_bytes l) 6"

definition derived_decoded :: "runtime_limits \<Rightarrow> u64" where
  "derived_decoded l =
     saturating_add (saturating_add (saturating_add
       (saturating_add (max_decoded_bytes l) (derived_text l))
         (saturating_mul (ucast (derived_decisions l)) 27))
           (saturating_mul (ucast (derived_unresolved l)) 38)) 35"

definition derived_encoded :: "runtime_limits \<Rightarrow> u64" where
  "derived_encoded l =
     saturating_add (saturating_add (saturating_add
       (saturating_add (max_encoded_bytes l) (saturating_mul (derived_text l) 6))
         (saturating_mul (ucast (derived_decisions l)) 192))
           (saturating_mul (ucast (derived_unresolved l)) 256)) 1024"

definition derived_nesting :: "runtime_limits \<Rightarrow> u16" where
  "derived_nesting l =
     (if saturating_add (max_json_nesting_depth l) 1 < 9 then 9
      else saturating_add (max_json_nesting_depth l) 1)"

definition for_runtime_limits :: "runtime_limits \<Rightarrow> compilation_limits" where
  "for_runtime_limits l =
     \<lparr> cl_max_encoded_bytes = derived_encoded l, cl_max_decoded_bytes = derived_decoded l,
       cl_max_json_nesting_depth = derived_nesting l, cl_max_text_bytes = derived_text l,
       cl_max_decisions = derived_decisions l, cl_max_unresolved_constraints = derived_unresolved l,
       cl_patch_limits = l \<rparr>"

section \<open>Errors\<close>

datatype compilation_validation_kind =
    UnsupportedResultSchema | DecisionLimitExceeded | UnresolvedLimitExceeded
  | ResultTextLimitExceeded | ResultDecodedSizeLimitExceeded | InvalidResultPatch | InvalidOutcome
  | PatchSchemaMismatch | PatchRevisionMismatch | InvalidDecisionShape | InvalidUnresolvedShape
  | NonCanonicalDecisionOrder | DuplicateDecision | NonCanonicalUnresolvedOrder | DuplicateUnresolved

datatype compilation_validation_error =
  CompilationValidationError (cve_kind: compilation_validation_kind) (cve_field: string)
    (cve_protocol_error: "validation_error option")

definition result_error :: "compilation_validation_kind \<Rightarrow> string \<Rightarrow> compilation_validation_error" where
  "result_error kind field = CompilationValidationError kind field None"

definition result_protocol_error :: "string \<Rightarrow> validation_error \<Rightarrow> compilation_validation_error" where
  "result_protocol_error field e = CompilationValidationError InvalidResultPatch field (Some e)"

datatype compilation_codec_error =
    ResultSizeExceeded u64 u64
  | ResultNestingExceeded u16 u16
  | MalformedResultJson json_error_category nat nat
  | InvalidResult compilation_validation_error
  | NonCanonicalResult
  | ResultSerializationFailed
  | AllocationFailed

section \<open>Validation\<close>

fun decision_shape_ok :: "compilation_decision_code \<Rightarrow> bool \<Rightarrow> bool \<Rightarrow> bool" where
  "decision_shape_ok GeneratedEntityId relation entity = (\<not> relation \<and> entity)"
| "decision_shape_ok PreferredEntityIdSubstituted relation entity = (\<not> relation \<and> entity)"
| "decision_shape_ok DefaultName relation entity = (\<not> relation \<and> \<not> entity)"
| "decision_shape_ok DefaultTransform relation entity = (\<not> relation \<and> \<not> entity)"
| "decision_shape_ok DefaultMaterial relation entity = (\<not> relation \<and> \<not> entity)"
| "decision_shape_ok ParentRelationApplied relation entity = (relation \<and> \<not> entity)"
| "decision_shape_ok AboveRelationApplied relation entity = (relation \<and> \<not> entity)"
| "decision_shape_ok RightOfRelationApplied relation entity = (relation \<and> \<not> entity)"

definition decision_valid :: "compilation_decision \<Rightarrow> bool" where
  "decision_valid d =
     decision_shape_ok (dec_code d) (dec_relation_index d \<noteq> None) (dec_entity_id d \<noteq> None)"

fun validate_order ::
    "('a \<Rightarrow> 'a \<Rightarrow> ordering) \<Rightarrow> compilation_validation_error \<Rightarrow> compilation_validation_error
       \<Rightarrow> 'a list \<Rightarrow> compilation_validation_error + unit" where
  "validate_order f duplicate disorder (a # b # rest) =
     (case f a b of
        Less \<Rightarrow> validate_order f duplicate disorder (b # rest)
      | Equal \<Rightarrow> Inl duplicate
      | Greater \<Rightarrow> Inl disorder)"
| "validate_order f duplicate disorder _ = Inr ()"

definition validate_decisions :: "compilation_decision list \<Rightarrow> compilation_validation_error + unit" where
  "validate_decisions ds =
     (if \<not> list_all decision_valid ds then Inl (result_error InvalidDecisionShape ''decisions[]'')
      else validate_order decision_cmp (result_error DuplicateDecision ''decisions'')
             (result_error NonCanonicalDecisionOrder ''decisions'') ds)"

definition relation_issue_shape :: "unresolved_constraint \<Rightarrow> bool" where
  "relation_issue_shape u \<longleftrightarrow>
     un_relation_index u \<noteq> None \<and> un_constraint_index u = None \<and> un_entity_key u \<noteq> None \<and>
     un_related_key u \<noteq> None \<and> un_entity_id u = None"

definition constraint_issue_shape :: "unresolved_constraint \<Rightarrow> bool" where
  "constraint_issue_shape u \<longleftrightarrow>
     un_relation_index u = None \<and> un_constraint_index u \<noteq> None \<and> un_entity_key u = None \<and>
     un_related_key u = None \<and> un_entity_id u \<noteq> None"

definition unresolved_valid :: "unresolved_constraint \<Rightarrow> bool" where
  "unresolved_valid u =
     (if un_code u = RequiredEntityMissing \<or> un_code u = RequiredEntityPresent
      then constraint_issue_shape u else relation_issue_shape u)"

definition validate_unresolved :: "unresolved_constraint list \<Rightarrow> compilation_validation_error + unit" where
  "validate_unresolved us =
     (if \<not> list_all unresolved_valid us then Inl (result_error InvalidUnresolvedShape ''unresolved[]'')
      else validate_order unresolved_cmp (result_error DuplicateUnresolved ''unresolved'')
             (result_error NonCanonicalUnresolvedOrder ''unresolved'') us)"

definition optional_text_bytes :: "scene_text option \<Rightarrow> u64" where
  "optional_text_bytes t = (case t of None \<Rightarrow> 0 | Some text \<Rightarrow> len_or_max (len_bytes text))"

definition result_text_bytes :: "compilation_result \<Rightarrow> u64" where
  "result_text_bytes r =
     foldl (\<lambda>total u. saturating_add (saturating_add total (optional_text_bytes (un_entity_key u)))
              (optional_text_bytes (un_related_key u)))
       (saturating_add (case cr_patch r of None \<Rightarrow> 0 | Some p \<Rightarrow> patch_text_bytes p)
         (foldl (\<lambda>total d. saturating_add total (len_or_max (len_bytes (dec_entity_key d)))) 0
            (cr_decisions r)))
       (cr_unresolved r)"

definition when_some :: "'a option \<Rightarrow> u64 \<Rightarrow> u64" where
  "when_some x n = (if x \<noteq> None then 1 else 0) * n"

definition decision_logical_size :: "compilation_decision \<Rightarrow> u64" where
  "decision_logical_size d =
     saturating_add (saturating_add (saturating_add 8 (len_or_max (len_bytes (dec_entity_key d))))
       (when_some (dec_relation_index d) 4)) (when_some (dec_entity_id d) 16)"

definition unresolved_logical_size :: "unresolved_constraint \<Rightarrow> u64" where
  "unresolved_logical_size u =
     saturating_add (saturating_add (saturating_add (saturating_add (saturating_add 14
       (when_some (un_relation_index u) 4)) (when_some (un_constraint_index u) 4))
         (optional_text_bytes (un_entity_key u))) (optional_text_bytes (un_related_key u)))
           (when_some (un_entity_id u) 16)"

definition result_logical_size_bytes :: "compilation_result \<Rightarrow> u64" where
  "result_logical_size_bytes r =
     foldl (\<lambda>total u. saturating_add total (unresolved_logical_size u))
       (saturating_add (saturating_add 35 (case cr_patch r of None \<Rightarrow> 0 | Some p \<Rightarrow> patch_logical_size_bytes p))
         (foldl (\<lambda>total d. saturating_add total (decision_logical_size d)) 0 (cr_decisions r)))
       (cr_unresolved r)"

definition validate_outcome ::
    "compilation_result \<Rightarrow> compilation_limits \<Rightarrow> compilation_validation_error + unit" where
  "validate_outcome r limits =
     (case cr_patch r of
        Some patch \<Rightarrow>
          (if cr_unresolved r \<noteq> [] then Inl (result_error InvalidOutcome ''patch'')
           else if patch_schema_version patch \<noteq> cr_schema_version r
           then Inl (result_error PatchSchemaMismatch ''patch.schema_version'')
           else if patch_base_revision patch \<noteq> cr_scene_revision r
           then Inl (result_error PatchRevisionMismatch ''patch.base_revision'')
           else map_err (result_protocol_error ''patch'') (patch_validate patch (cl_patch_limits limits)))
      | None \<Rightarrow> (if cr_unresolved r = [] then Inl (result_error InvalidOutcome ''patch'') else Inr ()))"

definition result_validate ::
    "compilation_result \<Rightarrow> compilation_limits \<Rightarrow> compilation_validation_error + unit" where
  "result_validate r limits =
     (if cr_schema_version r \<noteq> V1 then Inl (result_error UnsupportedResultSchema ''schema_version'')
      else if len_or_max (length (cr_decisions r)) > cl_max_decisions limits
      then Inl (result_error DecisionLimitExceeded ''decisions'')
      else if len_or_max (length (cr_unresolved r)) > cl_max_unresolved_constraints limits
      then Inl (result_error UnresolvedLimitExceeded ''unresolved'')
      else bind_res (validate_outcome r limits) (\<lambda>_.
           bind_res (validate_decisions (cr_decisions r)) (\<lambda>_.
           bind_res (validate_unresolved (cr_unresolved r)) (\<lambda>_.
             if result_text_bytes r > cl_max_text_bytes limits
             then Inl (result_error ResultTextLimitExceeded ''result'')
             else if result_logical_size_bytes r > cl_max_decoded_bytes limits
             then Inl (result_error ResultDecodedSizeLimitExceeded ''result'')
             else Inr ()))))"

section \<open>Codec\<close>

text \<open>
  The serializer offers its output in chunks and may fail after the last of them; a chunk
  that the bounded writer refuses ends it. Allocation always succeeds here.
\<close>

record result_json =
  rj_chunks :: "compilation_result \<Rightarrow> bytes list \<times> bool"
  rj_from_slice :: "bytes \<Rightarrow> (json_error_category \<times> nat \<times> nat) + compilation_result"

record bounded_writer =
  bw_bytes :: bytes
  bw_limit :: u64
  bw_error :: "compilation_codec_error option"

definition bounded_writer_new :: "u64 \<Rightarrow> bounded_writer" where
  "bounded_writer_new limit = \<lparr> bw_bytes = [], bw_limit = limit, bw_error = None \<rparr>"

definition writer_write :: "bounded_writer \<Rightarrow> bytes \<Rightarrow> bool \<times> bounded_writer" where
  "writer_write w chunk =
     (let actual = saturating_add (len_or_max (length (bw_bytes w))) (len_or_max (length chunk)) in
      if actual > bw_limit w
      then (False, w\<lparr> bw_error := Some (ResultSizeExceeded (saturating_add actual 1)
                                       (saturating_add (bw_limit w) 1)) \<rparr>)
      else (True, w\<lparr> bw_bytes := bw_bytes w @ chunk \<rparr>))"

fun write_chunks :: "bounded_writer \<Rightarrow> bytes list \<Rightarrow> bool \<times> bounded_writer" where
  "write_chunks w [] = (True, w)"
| "write_chunks w (chunk # rest) =
     (case writer_write w chunk of (True, w') \<Rightarrow> write_chunks w' rest | (False, w') \<Rightarrow> (False, w'))"

definition result_enforce_size :: "nat \<Rightarrow> u64 \<Rightarrow> compilation_codec_error + unit" where
  "result_enforce_size actual limit =
     (if len_or_max actual > limit then Inl (ResultSizeExceeded (len_or_max actual) limit) else Inr ())"

text \<open>The nesting scan of this crate is the one of the protocol codec, with its own error.\<close>

definition nesting_error :: "codec_error \<Rightarrow> compilation_codec_error" where
  "nesting_error e =
     (case e of NestingLimitExceeded actual limit \<Rightarrow> ResultNestingExceeded actual limit
      | _ \<Rightarrow> ResultSerializationFailed)"

definition result_enforce_nesting :: "bytes \<Rightarrow> u16 \<Rightarrow> compilation_codec_error + unit" where
  "result_enforce_nesting encoded limit =
     map_err nesting_error
       (bind_res (fold_res (scan_byte limit) encoded nesting_start) (\<lambda>_. Inr ()))"

definition push_lf :: "bounded_writer \<Rightarrow> u64 \<Rightarrow> compilation_codec_error + bytes" where
  "push_lf w complete_limit =
     bind_res (result_enforce_size (length (bw_bytes w) + 1) complete_limit) (\<lambda>_.
       Inr (bw_bytes w @ [10]))"

definition encode_validated ::
    "result_json \<Rightarrow> compilation_result \<Rightarrow> compilation_limits \<Rightarrow> compilation_codec_error + bytes" where
  "encode_validated json r limits =
     (case write_chunks (bounded_writer_new (saturating_sub (cl_max_encoded_bytes limits) 1))
             (fst (rj_chunks json r)) of
        (written, w) \<Rightarrow>
          (if \<not> (written \<and> snd (rj_chunks json r))
           then Inl (case bw_error w of Some e \<Rightarrow> e | None \<Rightarrow> ResultSerializationFailed)
           else bind_res (push_lf w (cl_max_encoded_bytes limits)) (\<lambda>encoded.
                bind_res (result_enforce_nesting encoded (cl_max_json_nesting_depth limits)) (\<lambda>_.
                  Inr encoded))))"

definition to_canonical_json ::
    "result_json \<Rightarrow> compilation_result \<Rightarrow> compilation_limits \<Rightarrow> compilation_codec_error + bytes" where
  "to_canonical_json json r limits =
     bind_res (map_err InvalidResult (result_validate r limits)) (\<lambda>_. encode_validated json r limits)"

definition from_canonical_json ::
    "result_json \<Rightarrow> bytes \<Rightarrow> compilation_limits \<Rightarrow> compilation_codec_error + compilation_result" where
  "from_canonical_json json encoded limits =
     bind_res (result_enforce_size (length encoded) (cl_max_encoded_bytes limits)) (\<lambda>_.
     bind_res (result_enforce_nesting encoded (cl_max_json_nesting_depth limits)) (\<lambda>_.
     bind_res (map_err (\<lambda>(category, line, column). MalformedResultJson category line column)
                 (rj_from_slice json encoded)) (\<lambda>r.
     bind_res (map_err InvalidResult (result_validate r limits)) (\<lambda>_.
     bind_res (encode_validated json r limits) (\<lambda>again.
       if again \<noteq> encoded then Inl NonCanonicalResult else Inr r)))))"

section \<open>Canonical order\<close>

lemma then_with_cmp:
  "then_with (cmp a b) (cmp c d) = cmp (a, c) (b, d)"
  by (simp add: cmp_def)

interpretation decisions: comparator decision_cmp
  "\<lambda>d. (((dec_entity_key d, decision_rank (dec_code d)), dec_relation_index d))"
  by unfold_locales (simp add: decision_cmp_def then_with_cmp)

interpretation issues: comparator unresolved_cmp
  "\<lambda>u. (((((un_relation_index u, un_constraint_index u), unresolved_rank (un_code u)),
         un_entity_key u), un_related_key u), un_entity_id u)"
  by unfold_locales (simp add: unresolved_cmp_def then_with_cmp)

lemma unresolved_rank_inject: "unresolved_rank a = unresolved_rank b \<longleftrightarrow> a = b"
  by (cases a; cases b) simp_all

lemma decision_rank_inject: "decision_rank a = decision_rank b \<longleftrightarrow> a = b"
  by (cases a; cases b) simp_all

text \<open>Two issues that compare equal are equal, so sorting and removing neighbours is canonical.\<close>

lemma issue_key_inject:
  "inj (\<lambda>u :: unresolved_constraint. (((((un_relation_index u, un_constraint_index u),
     unresolved_rank (un_code u)), un_entity_key u), un_related_key u), un_entity_id u))"
  by (rule injI) (simp add: unresolved_rank_inject)

lemma validate_order_iff:
  assumes "\<And>a b. f a b = Less \<longleftrightarrow> (key a :: 'k::linorder) < key b"
  shows "validate_order f dup dis xs = Inr () \<longleftrightarrow> sorted_wrt (<) (map key xs)"
proof (induction xs rule: induct_list012)
  case (3 a b rest)
  have "validate_order f dup dis (a # b # rest) = Inr () \<longleftrightarrow>
      key a < key b \<and> validate_order f dup dis (b # rest) = Inr ()"
    using assms [of a b] by (cases "f a b") simp_all
  then show ?case using 3 by (auto dest: less_trans)
qed simp_all

lemma sorted_remdups_adj_strict: "sorted (xs :: 'a::linorder list) \<Longrightarrow> sorted_wrt (<) (remdups_adj xs)"
  using sorted_remdups_adj [of xs] by (induction xs rule: remdups_adj.induct) auto

lemma map_remdups_adj_inj: "inj g \<Longrightarrow> map g (remdups_adj xs) = remdups_adj (map g xs)"
  by (simp add: remdups_adj_map_injective inj_on_subset)

section \<open>The codec is canonical\<close>

lemma write_chunks_True:
  "write_chunks w chunks = (True, w') \<Longrightarrow> bw_bytes w' = bw_bytes w @ concat chunks"
proof (induction chunks arbitrary: w)
  case (Cons c cs)
  from Cons.prems obtain v where v: "writer_write w c = (True, v)" "write_chunks v cs = (True, w')"
    by (cases "writer_write w c") (auto split: bool.splits)
  then show ?case using Cons.IH [OF v(2)] by (auto simp: writer_write_def Let_def split: if_splits)
qed simp

lemma encode_validated_Inr:
  assumes "encode_validated json r limits = Inr bs"
  shows "snd (rj_chunks json r)" "bs = concat (fst (rj_chunks json r)) @ [10]"
    "result_enforce_size (length bs) (cl_max_encoded_bytes limits) = Inr ()"
    "result_enforce_nesting bs (cl_max_json_nesting_depth limits) = Inr ()"
proof -
  obtain written w where w: "write_chunks (bounded_writer_new (saturating_sub (cl_max_encoded_bytes limits) 1))
      (fst (rj_chunks json r)) = (written, w)" by fastforce
  with assms have ok: written "snd (rj_chunks json r)"
    by (auto simp: encode_validated_def split: if_splits)
  have "bw_bytes w = concat (fst (rj_chunks json r))"
    using write_chunks_True w ok(1) by (fastforce simp: bounded_writer_new_def)
  with assms w ok show "snd (rj_chunks json r)" "bs = concat (fst (rj_chunks json r)) @ [10]"
    "result_enforce_size (length bs) (cl_max_encoded_bytes limits) = Inr ()"
    "result_enforce_nesting bs (cl_max_json_nesting_depth limits) = Inr ()"
    by (auto simp: encode_validated_def push_lf_def res_simps)
qed

text \<open>
  C21. The codec of compilation results is canonical: bytes decode to a result exactly when that
  result encodes to these bytes. So there is one accepted byte string per result, whatever
  else the JSON library would parse, and every result that encodes is read back; the library
  is only assumed to parse what it printed, followed by a newline.
\<close>

theorem result_codec_canonical:
  assumes "\<And>r. snd (rj_chunks json r) \<Longrightarrow>
      rj_from_slice json (concat (fst (rj_chunks json r)) @ [10]) = Inr r"
  shows "from_canonical_json json bs limits = Inr r \<longleftrightarrow> to_canonical_json json r limits = Inr bs"
proof
  assume "from_canonical_json json bs limits = Inr r"
  then show "to_canonical_json json r limits = Inr bs"
    by (auto simp: from_canonical_json_def to_canonical_json_def res_simps)
next
  assume enc: "to_canonical_json json r limits = Inr bs"
  then have v: "result_validate r limits = Inr ()" "encode_validated json r limits = Inr bs"
    by (auto simp: to_canonical_json_def res_simps)
  note e = encode_validated_Inr [OF v(2)]
  from assms [OF e(1)] e v show "from_canonical_json json bs limits = Inr r"
    by (simp add: from_canonical_json_def)
qed

definition sample_result :: compilation_result where
  "sample_result =
     \<lparr> cr_schema_version = V1, cr_imagination_id = ImaginationId 1, cr_scene_revision = INITIAL,
       cr_patch = None, cr_decisions = [],
       cr_unresolved = [\<lparr> un_code = RequiredEntityMissing, un_relation_index = None,
         un_constraint_index = Some 0, un_entity_key = None, un_related_key = None,
         un_entity_id = Some (StableEntityId 7) \<rparr>] \<rparr>"

definition sample_json :: result_json where
  "sample_json =
     \<lparr> rj_chunks = (\<lambda>r. if r = sample_result then ([[123], [125]], True) else ([], False)),
       rj_from_slice = (\<lambda>bs. if bs = [123, 125, 10] then Inr sample_result else Inl (Syntax, 1, 1)) \<rparr>"

lemma sample_encodes:
  "to_canonical_json sample_json sample_result (for_runtime_limits runtime_limits_default) = Inr [123, 125, 10]"
proof -
  have "result_validate sample_result (for_runtime_limits runtime_limits_default) = Inr ()"
    by (simp add: result_validate_def sample_result_def for_runtime_limits_def validate_outcome_def
        validate_decisions_def validate_unresolved_def unresolved_valid_def constraint_issue_shape_def
        result_text_bytes_def result_logical_size_bytes_def unresolved_logical_size_def
        optional_text_bytes_def when_some_def derived_decisions_def derived_unresolved_def
        derived_text_def derived_decoded_def saturating_mul_def runtime_limits_default_def arith_defs)
  moreover have "encode_validated sample_json sample_result (for_runtime_limits runtime_limits_default) =
      Inr [123, 125, 10]"
    by (simp add: encode_validated_def sample_json_def bounded_writer_new_def writer_write_def
        push_lf_def result_enforce_size_def result_enforce_nesting_def scan_byte_def scan_string_def
        nesting_start_def for_runtime_limits_def derived_encoded_def derived_nesting_def
        derived_decisions_def derived_unresolved_def derived_text_def saturating_mul_def
        runtime_limits_default_def arith_defs)
  ultimately show ?thesis by (simp add: to_canonical_json_def)
qed

theorem result_codec_canonical_witness:
  "from_canonical_json sample_json [123, 125, 10] (for_runtime_limits runtime_limits_default) =
     Inr sample_result"
  by (rule result_codec_canonical [THEN iffD2, OF _ sample_encodes])
    (simp add: sample_json_def split: if_splits)

end
