(* ===== verification/Compiler.thy ===== *)
theory Compiler
  imports Compilation_Result Hierarchy
begin

text \<open>
  The deterministic compiler (\<open>cogniform-compiler/src/compiler.rs\<close>): it turns a validated
  imagination into one patch, or into a list of relations and preconditions it could not
  resolve. SHA-256 is the argument \<open>sha\<close>, the JSON library the argument \<open>json\<close>. An index
  out of range, a missing map entry or a failed \<open>expect\<close> is \<open>Panic\<close> (\<open>None\<close> in the
  passes that return no error); the recursion over placement anchors, which follows data,
  is a partial function whose \<open>None\<close> means that it does not return.
\<close>

section \<open>Inputs\<close>

record compilation_scene_view =
  sv_revision :: scene_revision
  sv_entity_ids :: "stable_entity_id btree_set"

definition scene_view_new :: "scene_revision \<Rightarrow> stable_entity_id list \<Rightarrow> compilation_scene_view" where
  "scene_view_new revision ids = \<lparr> sv_revision = revision, sv_entity_ids = bs_of_list ids \<rparr>"

definition view_contains :: "compilation_scene_view \<Rightarrow> stable_entity_id \<Rightarrow> bool" where
  "view_contains scene i = bs_mem (sv_entity_ids scene) i"

record compiler_config =
  cc_runtime_limits :: runtime_limits
  cc_compilation_limits :: compilation_limits
  cc_max_entity_id_attempts :: u32

definition compiler_config_new :: "runtime_limits \<Rightarrow> compiler_config" where
  "compiler_config_new limits =
     \<lparr> cc_runtime_limits = limits, cc_compilation_limits = for_runtime_limits limits,
       cc_max_entity_id_attempts = 32 \<rparr>"

datatype compile_error =
    InvalidImagination validation_error
  | SceneRevisionMismatch scene_revision scene_revision
  | EntityIdDerivationExhausted u32 u32
  | InvalidNormalizedPatch validation_error
  | InvalidCompilationResult compilation_validation_error
  | InvalidCompilationEncoding compilation_codec_error

datatype placement_kind = Above f32 | RightOf f32

record placement =
  pl_relation_index :: u32
  pl_anchor :: scene_text
  pl_kind :: placement_kind

record entity_plan =
  ep_key :: scene_text
  ep_entity_id :: stable_entity_id
  ep_name :: scene_text
  ep_primitive :: primitive_component
  ep_transform :: local_transform
  ep_material :: material_component
  ep_parent :: "scene_text option"
  ep_parent_relation :: "u32 option"
  ep_placement :: "placement option"

type_synonym key_index = "(scene_text, nat) btree_map"

section \<open>Identities and defaults\<close>

definition ENTITY_ID_DOMAIN :: bytes where
  "ENTITY_ID_DOMAIN = map (of_nat \<circ> of_char) ''cogniform.imagination.entity.v1'' @ [0]"

definition entity_id_preimage :: "imagination_envelope \<Rightarrow> scene_text \<Rightarrow> u32 \<Rightarrow> bytes" where
  "entity_id_preimage v key attempt =
     ENTITY_ID_DOMAIN @ to_be_bytes (imagination_get (env_imagination_id v)) @ to_be_bytes (env_seed v)
       @ to_be_bytes (len_or_max (len_bytes key) :: u64) @ text_bytes_of key @ to_be_bytes attempt"

definition entity_id_candidate ::
    "(bytes \<Rightarrow> bytes) \<Rightarrow> imagination_envelope \<Rightarrow> scene_text \<Rightarrow> u32 \<Rightarrow> value_error + stable_entity_id" where
  "entity_id_candidate sha v key attempt =
     opaque_id_new StableEntityId (from_be_bytes (take 16 (sha (entity_id_preimage v key attempt))))"

definition id_available ::
    "compilation_scene_view \<Rightarrow> stable_entity_id btree_set \<Rightarrow> stable_entity_id \<Rightarrow> bool" where
  "id_available scene used i \<longleftrightarrow> \<not> view_contains scene i \<and> \<not> bs_mem used i"

function derive_attempts ::
    "(bytes \<Rightarrow> bytes) \<Rightarrow> compiler_config \<Rightarrow> imagination_envelope \<Rightarrow> scene_text \<Rightarrow> u32
       \<Rightarrow> compilation_scene_view \<Rightarrow> stable_entity_id btree_set \<Rightarrow> nat \<Rightarrow> compile_error + stable_entity_id" where
  "derive_attempts sha config v key entity_index scene used attempt =
     (if attempt < unat (cc_max_entity_id_attempts config)
      then (case entity_id_candidate sha v key (of_nat attempt) of
          Inr candidate \<Rightarrow>
            (if id_available scene used candidate then Inr candidate
             else derive_attempts sha config v key entity_index scene used (Suc attempt))
        | Inl _ \<Rightarrow> derive_attempts sha config v key entity_index scene used (Suc attempt))
      else Inl (EntityIdDerivationExhausted entity_index (cc_max_entity_id_attempts config)))"
  by pat_completeness auto
termination
  by (relation "measure (\<lambda>(sha, config, v, key, entity_index, scene, used, attempt).
      unat (cc_max_entity_id_attempts config) - attempt)") auto

declare derive_attempts.simps [simp del]

definition derive_entity_id ::
    "(bytes \<Rightarrow> bytes) \<Rightarrow> compiler_config \<Rightarrow> imagination_envelope \<Rightarrow> scene_text \<Rightarrow> u32
       \<Rightarrow> compilation_scene_view \<Rightarrow> stable_entity_id btree_set \<Rightarrow> compile_error + stable_entity_id" where
  "derive_entity_id sha config v key entity_index scene used =
     derive_attempts sha config v key entity_index scene used 0"

definition default_decision :: "compilation_decision_code \<Rightarrow> scene_text \<Rightarrow> compilation_decision" where
  "default_decision code key =
     \<lparr> dec_code = code, dec_entity_key = key, dec_relation_index = None, dec_entity_id = None \<rparr>"

definition identity_transform :: local_transform where
  "identity_transform =
     \<lparr> lt_translation = \<lparr> vec3_x = mk_finite_f32 0, vec3_y = mk_finite_f32 0, vec3_z = mk_finite_f32 0 \<rparr>,
       lt_rotation = \<lparr> quat_x = mk_finite_f32 0, quat_y = mk_finite_f32 0, quat_z = mk_finite_f32 0,
                       quat_w = mk_finite_f32 f32_one \<rparr>,
       lt_scale = \<lparr> pvec3_x = mk_positive_f32 f32_one, pvec3_y = mk_positive_f32 f32_one,
                    pvec3_z = mk_positive_f32 f32_one \<rparr> \<rparr>"

abbreviation f32_0_7 :: f32 where "f32_0_7 \<equiv> 0x3F333333"
abbreviation f32_0_8 :: f32 where "f32_0_8 \<equiv> 0x3F4CCCCD"
abbreviation f32_half :: f32 where "f32_half \<equiv> 0x3F000000"

definition neutral_material :: material_component where
  "neutral_material =
     \<lparr> mat_base_color = \<lparr> rgba_r = mk_unit_f32 f32_0_7, rgba_g = mk_unit_f32 f32_0_7,
                          rgba_b = mk_unit_f32 f32_0_7, rgba_a = mk_unit_f32 f32_one \<rparr>,
       mat_metallic = mk_unit_f32 0, mat_roughness = mk_unit_f32 f32_0_8 \<rparr>"

definition defaults_of :: "imagined_entity \<Rightarrow> compilation_decision list" where
  "defaults_of e =
     (if ie_name e = None then [default_decision DefaultName (ie_key e)] else []) @
     (if ie_transform e = None then [default_decision DefaultTransform (ie_key e)] else []) @
     (if ie_material e = None then [default_decision DefaultMaterial (ie_key e)] else [])"

definition plan_entity ::
    "imagined_entity \<Rightarrow> stable_entity_id \<Rightarrow> compilation_decision list
       \<Rightarrow> entity_plan \<times> compilation_decision list" where
  "plan_entity e i decisions =
     (\<lparr> ep_key = ie_key e, ep_entity_id = i,
        ep_name = (case ie_name e of Some name \<Rightarrow> name | None \<Rightarrow> ie_key e),
        ep_primitive = ie_primitive e,
        ep_transform = (case ie_transform e of Some t \<Rightarrow> t | None \<Rightarrow> identity_transform),
        ep_material = (case ie_material e of Some m \<Rightarrow> m | None \<Rightarrow> neutral_material),
        ep_parent = None, ep_parent_relation = None, ep_placement = None \<rparr>,
      decisions @ defaults_of e)"

definition id_decision :: "bool \<Rightarrow> scene_text \<Rightarrow> stable_entity_id \<Rightarrow> compilation_decision" where
  "id_decision substituted key i =
     \<lparr> dec_code = (if substituted then PreferredEntityIdSubstituted else GeneratedEntityId),
       dec_entity_key = key, dec_relation_index = None, dec_entity_id = Some i \<rparr>"

definition preferred_unavailable ::
    "compilation_scene_view \<Rightarrow> stable_entity_id btree_set \<Rightarrow> imagined_entity \<Rightarrow> bool" where
  "preferred_unavailable scene used e =
     (case ie_preferred_id e of None \<Rightarrow> False | Some i \<Rightarrow> view_contains scene i \<or> bs_mem used i)"

text \<open>The identity of one entity, with the decision that explains it.\<close>

definition choose_entity_id ::
    "(bytes \<Rightarrow> bytes) \<Rightarrow> compiler_config \<Rightarrow> imagination_envelope \<Rightarrow> compilation_scene_view
       \<Rightarrow> stable_entity_id btree_set \<Rightarrow> nat \<Rightarrow> imagined_entity
       \<Rightarrow> compile_error + (stable_entity_id \<times> compilation_decision list)" where
  "choose_entity_id sha config v scene used n e =
     (case ie_preferred_id e of
        Some preferred \<Rightarrow>
          (if preferred_unavailable scene used e
           then map_sum id (\<lambda>i. (i, [id_decision True (ie_key e) i]))
                  (derive_entity_id sha config v (ie_key e) (len_or_max n) scene used)
           else Inr (preferred, []))
      | None \<Rightarrow> map_sum id (\<lambda>i. (i, [id_decision False (ie_key e) i]))
                  (derive_entity_id sha config v (ie_key e) (len_or_max n) scene used))"

fun plan_loop ::
    "(bytes \<Rightarrow> bytes) \<Rightarrow> compiler_config \<Rightarrow> imagination_envelope \<Rightarrow> compilation_scene_view
       \<Rightarrow> nat \<Rightarrow> imagined_entity list \<Rightarrow> stable_entity_id btree_set
       \<Rightarrow> entity_plan list \<times> compilation_decision list
       \<Rightarrow> compile_error + (entity_plan list \<times> compilation_decision list)" where
  "plan_loop sha config v scene n [] used (entities, decisions) = Inr (entities, decisions)"
| "plan_loop sha config v scene n (e # es) used (entities, decisions) =
     bind_res (choose_entity_id sha config v scene used n e) (\<lambda>(i, chosen).
       (case plan_entity e i (decisions @ chosen) of (plan, decisions') \<Rightarrow>
          plan_loop sha config v scene (Suc n) es (bs_insert i used) (entities @ [plan], decisions')))"

definition key_cmp :: "imagined_entity \<Rightarrow> imagined_entity \<Rightarrow> ordering" where
  "key_cmp a b = cmp (ie_key a) (ie_key b)"

definition plan_entities ::
    "(bytes \<Rightarrow> bytes) \<Rightarrow> compiler_config \<Rightarrow> imagination_envelope \<Rightarrow> compilation_scene_view
       \<Rightarrow> compile_error + (entity_plan list \<times> compilation_decision list)" where
  "plan_entities sha config v scene =
     plan_loop sha config v scene 0 (sort_by key_cmp (env_entities v)) bs_empty ([], [])"

definition key_index_of :: "entity_plan list \<Rightarrow> key_index" where
  "key_index_of entities = bm_extend (zip (map ep_key entities) [0..<length entities]) bm_empty"

section \<open>Constraints and relations\<close>

definition relation_issue ::
    "unresolved_constraint_code \<Rightarrow> u32 \<Rightarrow> scene_text \<Rightarrow> scene_text \<Rightarrow> unresolved_constraint" where
  "relation_issue code relation_index entity related =
     \<lparr> un_code = code, un_relation_index = Some relation_index, un_constraint_index = None,
       un_entity_key = Some entity, un_related_key = Some related, un_entity_id = None \<rparr>"

definition unknown_reference :: "u32 \<Rightarrow> scene_text \<Rightarrow> scene_text \<Rightarrow> unresolved_constraint" where
  "unknown_reference relation_index entity related =
     relation_issue UnknownEntityReference relation_index entity related"

definition constraint_issue :: "unresolved_constraint_code \<Rightarrow> nat \<Rightarrow> stable_entity_id \<Rightarrow> unresolved_constraint" where
  "constraint_issue code index i =
     \<lparr> un_code = code, un_relation_index = None, un_constraint_index = Some (len_or_max index),
       un_entity_key = None, un_related_key = None, un_entity_id = Some i \<rparr>"

fun check_constraint ::
    "compilation_scene_view \<Rightarrow> nat \<Rightarrow> imagination_constraint \<Rightarrow> unresolved_constraint option" where
  "check_constraint scene index (EntityExists i) =
     (if \<not> view_contains scene i then Some (constraint_issue RequiredEntityMissing index i) else None)"
| "check_constraint scene index (EntityAbsent i) =
     (if view_contains scene i then Some (constraint_issue RequiredEntityPresent index i) else None)"

definition check_scene_constraints ::
    "imagination_envelope \<Rightarrow> compilation_scene_view \<Rightarrow> unresolved_constraint list" where
  "check_scene_constraints v scene =
     List.map_filter (\<lambda>(index, c). check_constraint scene index c)
       (zip [0..<length (env_constraints v)] (env_constraints v))"

text \<open>
  What one relation does: an issue, or the index of the plan it changes. The checks of a
  parent relation and of a placement are the same.
\<close>

definition check_relation ::
    "entity_plan list \<Rightarrow> key_index \<Rightarrow> u32 \<Rightarrow> scene_text \<Rightarrow> scene_text
       \<Rightarrow> (unresolved_constraint + nat) option" where
  "check_relation entities index relation_index subject anchor =
     (case bm_get index subject of
        None \<Rightarrow> Some (Inl (unknown_reference relation_index subject anchor))
      | Some subject_index \<Rightarrow>
          (if \<not> bm_contains index anchor then Some (Inl (unknown_reference relation_index subject anchor))
           else if subject = anchor
           then Some (Inl (relation_issue SelfRelation relation_index subject anchor))
           else if subject_index \<ge> length entities then None
           else if ep_parent (entities ! subject_index) \<noteq> None
                \<or> ep_placement (entities ! subject_index) \<noteq> None
           then Some (Inl (relation_issue ConflictingRelation relation_index subject anchor))
           else Some (Inr subject_index)))"

definition set_parent :: "scene_text \<Rightarrow> u32 \<Rightarrow> entity_plan \<Rightarrow> entity_plan" where
  "set_parent parent relation_index p =
     p\<lparr> ep_parent := Some parent, ep_parent_relation := Some relation_index \<rparr>"

definition set_placement :: "u32 \<Rightarrow> scene_text \<Rightarrow> placement_kind \<Rightarrow> entity_plan \<Rightarrow> entity_plan" where
  "set_placement relation_index anchor kind p =
     p\<lparr> ep_placement := Some \<lparr> pl_relation_index = relation_index, pl_anchor = anchor, pl_kind = kind \<rparr> \<rparr>"

definition relate ::
    "key_index \<Rightarrow> u32 \<Rightarrow> scene_text \<Rightarrow> scene_text \<Rightarrow> (entity_plan \<Rightarrow> entity_plan)
       \<Rightarrow> entity_plan list \<times> unresolved_constraint list
       \<Rightarrow> (entity_plan list \<times> unresolved_constraint list) option" where
  "relate index relation_index subject anchor update st =
     (case st of (entities, unresolved) \<Rightarrow>
        (case check_relation entities index relation_index subject anchor of
           None \<Rightarrow> None
         | Some (Inl issue) \<Rightarrow> Some (entities, unresolved @ [issue])
         | Some (Inr i) \<Rightarrow> Some (entities[i := update (entities ! i)], unresolved)))"

fun assign_relation ::
    "key_index \<Rightarrow> u32 \<Rightarrow> imagination_relation \<Rightarrow> entity_plan list \<times> unresolved_constraint list
       \<Rightarrow> (entity_plan list \<times> unresolved_constraint list) option" where
  "assign_relation index relation_index (RelParent child parent) st =
     relate index relation_index child parent (set_parent parent relation_index) st"
| "assign_relation index relation_index (RelAbove subject anchor clearance) st =
     relate index relation_index subject anchor
       (set_placement relation_index anchor (Above (non_negative_get clearance))) st"
| "assign_relation index relation_index (RelRightOf subject anchor gap) st =
     relate index relation_index subject anchor
       (set_placement relation_index anchor (RightOf (non_negative_get gap))) st"

fun assign_relations_from ::
    "key_index \<Rightarrow> nat \<Rightarrow> imagination_relation list \<Rightarrow> entity_plan list \<times> unresolved_constraint list
       \<Rightarrow> (entity_plan list \<times> unresolved_constraint list) option" where
  "assign_relations_from index n [] st = Some st"
| "assign_relations_from index n (r # rs) st =
     (case assign_relation index (len_or_max n) r st of
        None \<Rightarrow> None
      | Some st' \<Rightarrow> assign_relations_from index (Suc n) rs st')"

definition assign_relations ::
    "imagination_envelope \<Rightarrow> key_index \<Rightarrow> entity_plan list \<times> unresolved_constraint list
       \<Rightarrow> (entity_plan list \<times> unresolved_constraint list) option" where
  "assign_relations v index st = assign_relations_from index 0 (env_relations v) st"

fun reject_parented_anchors ::
    "entity_plan list \<Rightarrow> key_index \<Rightarrow> entity_plan list \<Rightarrow> unresolved_constraint list
       \<Rightarrow> unresolved_constraint list option" where
  "reject_parented_anchors entities index [] unresolved = Some unresolved"
| "reject_parented_anchors entities index (e # es) unresolved =
     (case ep_placement e of
        None \<Rightarrow> reject_parented_anchors entities index es unresolved
      | Some pl \<Rightarrow>
          (case bm_get index (pl_anchor pl) of
             None \<Rightarrow> None
           | Some a \<Rightarrow>
               (if a \<ge> length entities then None
                else reject_parented_anchors entities index es
                  (if ep_parent (entities ! a) \<noteq> None
                   then unresolved @ [relation_issue ConflictingRelation (pl_relation_index pl)
                                        (ep_key e) (pl_anchor pl)]
                   else unresolved))))"

definition reject_parented_placement_anchors ::
    "entity_plan list \<Rightarrow> key_index \<Rightarrow> unresolved_constraint list \<Rightarrow> unresolved_constraint list option" where
  "reject_parented_placement_anchors entities index unresolved =
     reject_parented_anchors entities index entities unresolved"

section \<open>Cycles\<close>

text \<open>
  \<open>next\<close> gives the related key and the relation of a plan; its outer \<open>None\<close> is the panic of
  the \<open>expect\<close> in the closure. The walk from one start ends at a plan without a relation,
  with the empty list, or at a plan it has visited, with the cycle it closed.
\<close>

type_synonym relation_of = "entity_plan \<Rightarrow> (scene_text \<times> u32) option option"

definition parent_next :: relation_of where
  "parent_next e =
     (case ep_parent e of
        None \<Rightarrow> Some None
      | Some parent \<Rightarrow> map_option (\<lambda>r. Some (parent, r)) (ep_parent_relation e))"

definition placement_next :: relation_of where
  "placement_next e = Some (map_option (\<lambda>pl. (pl_anchor pl, pl_relation_index pl)) (ep_placement e))"

function cycle_walk ::
    "entity_plan list \<Rightarrow> key_index \<Rightarrow> relation_of \<Rightarrow> nat list \<Rightarrow> (nat, nat) btree_map \<Rightarrow> nat
       \<Rightarrow> nat list option" where
  "cycle_walk entities index next path positions current =
     (case bm_get positions current of
        Some cycle_start \<Rightarrow> (if cycle_start \<le> length path then Some (drop cycle_start path) else None)
      | None \<Rightarrow>
          (if current \<ge> length entities then None
           else (case next (entities ! current) of
               None \<Rightarrow> None
             | Some None \<Rightarrow> Some []
             | Some (Some (related, _)) \<Rightarrow>
                 (case bm_get index related of
                    None \<Rightarrow> None
                  | Some i \<Rightarrow>
                      cycle_walk entities index next (path @ [current])
                        (bm_insert current (length path) positions) i))))"
  by pat_completeness auto
termination
proof (relation "measure (\<lambda>(entities, index, next, path, positions, current).
    card ({..<length entities} - dom (bm_get positions)))")
  fix entities :: "entity_plan list" and index :: key_index and "next" :: relation_of
    and path :: "nat list" and positions :: "(nat, nat) btree_map" and current i :: nat and x2 x2a x y
  assume new: "bm_get positions current = None" and range: "\<not> length entities \<le> current"
  have "{..<length entities} - dom (bm_get (bm_insert current (length path) positions)) \<subset>
      {..<length entities} - dom (bm_get positions)"
    using new range by auto
  then have "card ({..<length entities} - dom (bm_get (bm_insert current (length path) positions))) <
      card ({..<length entities} - dom (bm_get positions))"
    by (intro psubset_card_mono) simp_all
  then show "((entities, index, next, path @ [current], bm_insert current (length path) positions, i),
      (entities, index, next, path, positions, current)) \<in> measure (\<lambda>(entities, index, next, path, positions, current).
        card ({..<length entities} - dom (bm_get positions)))"
    by simp
qed simp

declare cycle_walk.simps [simp del]

fun report_cycle ::
    "entity_plan list \<Rightarrow> relation_of \<Rightarrow> unresolved_constraint_code \<Rightarrow> nat list
       \<Rightarrow> u32 btree_set \<times> unresolved_constraint list \<Rightarrow> (u32 btree_set \<times> unresolved_constraint list) option" where
  "report_cycle entities next code [] st = Some st"
| "report_cycle entities next code (i # rest) (reported, unresolved) =
     (if i \<ge> length entities then None
      else (case next (entities ! i) of
          None \<Rightarrow> None
        | Some None \<Rightarrow> report_cycle entities next code rest (reported, unresolved)
        | Some (Some (related, r)) \<Rightarrow>
            report_cycle entities next code rest
              (if bs_mem reported r then (reported, unresolved)
               else (bs_insert r reported,
                     unresolved @ [relation_issue code r (ep_key (entities ! i)) related]))))"

fun mark_starts ::
    "entity_plan list \<Rightarrow> key_index \<Rightarrow> relation_of \<Rightarrow> unresolved_constraint_code \<Rightarrow> nat list
       \<Rightarrow> u32 btree_set \<times> unresolved_constraint list \<Rightarrow> (u32 btree_set \<times> unresolved_constraint list) option" where
  "mark_starts entities index next code [] st = Some st"
| "mark_starts entities index next code (start # rest) st =
     Option.bind (cycle_walk entities index next [] bm_empty start) (\<lambda>cycle.
     Option.bind (report_cycle entities next code cycle st) (\<lambda>st'.
       mark_starts entities index next code rest st'))"

definition mark_relation_cycles ::
    "entity_plan list \<Rightarrow> key_index \<Rightarrow> relation_of \<Rightarrow> unresolved_constraint_code
       \<Rightarrow> unresolved_constraint list \<Rightarrow> unresolved_constraint list option" where
  "mark_relation_cycles entities index next code unresolved =
     map_option snd (mark_starts entities index next code [0..<length entities] (bs_empty, unresolved))"

definition mark_cycles ::
    "entity_plan list \<Rightarrow> key_index \<Rightarrow> unresolved_constraint list \<Rightarrow> unresolved_constraint list option" where
  "mark_cycles entities index unresolved =
     Option.bind (mark_relation_cycles entities index parent_next HierarchyCycleCode unresolved)
       (mark_relation_cycles entities index placement_next PlacementCycle)"

section \<open>Placements\<close>

datatype placement_resolution_failure =
  PlacementResolutionFailure (prf_code: unresolved_constraint_code) (prf_relation_index: u32)
    (prf_subject: scene_text) (prf_anchor: scene_text)

definition placement_failure ::
    "unresolved_constraint_code \<Rightarrow> entity_plan \<Rightarrow> placement \<Rightarrow> placement_resolution_failure" where
  "placement_failure code subject pl =
     PlacementResolutionFailure code (pl_relation_index pl) (ep_key subject) (pl_anchor pl)"

definition is_unrotated :: "local_transform \<Rightarrow> bool" where
  "is_unrotated t \<longleftrightarrow>
     f32_eq (finite_get (quat_x (lt_rotation t))) 0 \<and> f32_eq (finite_get (quat_y (lt_rotation t))) 0 \<and>
     f32_eq (finite_get (quat_z (lt_rotation t))) 0"

definition stacked_coordinate :: "f32 \<Rightarrow> f32 \<Rightarrow> f32 \<Rightarrow> f32 \<Rightarrow> f32 \<Rightarrow> f32 \<Rightarrow> f32" where
  "stacked_coordinate anchor anchor_dimension anchor_scale distance subject_dimension subject_scale =
     f32_add (f32_add (f32_add anchor (f32_mul (f32_mul anchor_dimension anchor_scale) f32_half)) distance)
       (f32_mul (f32_mul subject_dimension subject_scale) f32_half)"

definition placed_translation ::
    "placement_kind \<Rightarrow> entity_plan \<Rightarrow> entity_plan \<Rightarrow> value_error + vec3" where
  "placed_translation kind subject anchor =
     (let st = ep_transform subject; sd = prim_dimensions (ep_primitive subject);
          at = ep_transform anchor; ad = prim_dimensions (ep_primitive anchor) in
      case kind of
        Above clearance \<Rightarrow>
          map_sum id (\<lambda>y. \<lparr> vec3_x = vec3_x (lt_translation at), vec3_y = y, vec3_z = vec3_z (lt_translation at) \<rparr>)
            (finite_f32_new (stacked_coordinate (finite_get (vec3_y (lt_translation at)))
               (positive_get (pvec3_y ad)) (positive_get (pvec3_y (lt_scale at))) clearance
               (positive_get (pvec3_y sd)) (positive_get (pvec3_y (lt_scale st)))))
      | RightOf gap \<Rightarrow>
          map_sum id (\<lambda>x. \<lparr> vec3_x = x, vec3_y = vec3_y (lt_translation at), vec3_z = vec3_z (lt_translation at) \<rparr>)
            (finite_f32_new (stacked_coordinate (finite_get (vec3_x (lt_translation at)))
               (positive_get (pvec3_x ad)) (positive_get (pvec3_x (lt_scale at))) gap
               (positive_get (pvec3_x sd)) (positive_get (pvec3_x (lt_scale st))))))"

definition place_subject ::
    "entity_plan \<Rightarrow> placement \<Rightarrow> entity_plan \<Rightarrow> placement_resolution_failure + entity_plan" where
  "place_subject subject pl anchor =
     (if \<not> is_unrotated (ep_transform subject) \<or> \<not> is_unrotated (ep_transform anchor)
      then Inl (placement_failure UnsupportedSpatialRotation subject pl)
      else map_sum (\<lambda>_. placement_failure NonFinitePlacement subject pl)
             (\<lambda>t. subject\<lparr> ep_transform := (ep_transform subject)\<lparr> lt_translation := t \<rparr> \<rparr>)
             (placed_translation (pl_kind pl) subject anchor))"

text \<open>The plans and the flags are changed in place, also by a call that fails.\<close>

type_synonym placement_state = "entity_plan list \<times> bool list"

partial_function (option) resolve_placement ::
    "key_index \<Rightarrow> nat \<Rightarrow> placement_state
       \<Rightarrow> ((placement_resolution_failure fault + unit) \<times> placement_state) option" where
  "resolve_placement index i st =
     (if i \<ge> length (snd st) then Some (Inl Panic, st)
      else if snd st ! i then Some (Inr (), st)
      else if i \<ge> length (fst st) then Some (Inl Panic, st)
      else (case ep_placement (fst st ! i) of
          None \<Rightarrow> Some (Inr (), (fst st, (snd st)[i := True]))
        | Some pl \<Rightarrow>
            (case bm_get index (pl_anchor pl) of
               None \<Rightarrow> Some (Inl Panic, st)
             | Some a \<Rightarrow>
                 Option.bind (resolve_placement index a st) (\<lambda>(r, st').
                   case r of
                     Inl e \<Rightarrow> Some (Inl e, st')
                   | Inr _ \<Rightarrow>
                       (if a \<ge> length (fst st') \<or> i \<ge> length (fst st') \<or> i \<ge> length (snd st')
                        then Some (Inl Panic, st')
                        else (case place_subject (fst st' ! i) pl (fst st' ! a) of
                            Inl failure \<Rightarrow> Some (Inl (Err failure), st')
                          | Inr subject \<Rightarrow>
                              Some (Inr (), ((fst st')[i := subject], (snd st')[i := True]))))))))"

definition placement_issue :: "placement_resolution_failure \<Rightarrow> unresolved_constraint" where
  "placement_issue f =
     \<lparr> un_code = prf_code f, un_relation_index = Some (prf_relation_index f), un_constraint_index = None,
       un_entity_key = Some (prf_subject f), un_related_key = Some (prf_anchor f), un_entity_id = None \<rparr>"

fun resolve_each ::
    "key_index \<Rightarrow> nat list \<Rightarrow> placement_state \<Rightarrow> unresolved_constraint list
       \<Rightarrow> compile_error fault + (entity_plan list \<times> unresolved_constraint list)" where
  "resolve_each index [] st unresolved = Inr (fst st, unresolved)"
| "resolve_each index (i # rest) st unresolved =
     (case resolve_placement index i st of
        None \<Rightarrow> Inl Diverges
      | Some (Inr _, st') \<Rightarrow> resolve_each index rest st' unresolved
      | Some (Inl (Err failure), st') \<Rightarrow> resolve_each index rest st' (unresolved @ [placement_issue failure])
      | Some (Inl Panic, _) \<Rightarrow> Inl Panic
      | Some (Inl Diverges, _) \<Rightarrow> Inl Diverges)"

definition resolve_placements ::
    "entity_plan list \<Rightarrow> key_index \<Rightarrow> unresolved_constraint list
       \<Rightarrow> compile_error fault + (entity_plan list \<times> unresolved_constraint list)" where
  "resolve_placements entities index unresolved =
     resolve_each index [0..<length entities] (entities, replicate (length entities) False) unresolved"

section \<open>The patch\<close>

fun placement_decision_code :: "placement_kind \<Rightarrow> compilation_decision_code" where
  "placement_decision_code (Above _) = AboveRelationApplied"
| "placement_decision_code (RightOf _) = RightOfRelationApplied"

definition relation_decision :: "compilation_decision_code \<Rightarrow> scene_text \<Rightarrow> u32 \<Rightarrow> compilation_decision" where
  "relation_decision code key r =
     \<lparr> dec_code = code, dec_entity_key = key, dec_relation_index = Some r, dec_entity_id = None \<rparr>"

definition relation_decisions :: "entity_plan \<Rightarrow> compilation_decision list" where
  "relation_decisions e =
     (case ep_parent_relation e of None \<Rightarrow> []
      | Some r \<Rightarrow> [relation_decision ParentRelationApplied (ep_key e) r]) @
     (case ep_placement e of None \<Rightarrow> []
      | Some pl \<Rightarrow> [relation_decision (placement_decision_code (pl_kind pl)) (ep_key e) (pl_relation_index pl)])"

definition append_relation_decisions ::
    "entity_plan list \<Rightarrow> compilation_decision list \<Rightarrow> compilation_decision list" where
  "append_relation_decisions entities decisions = decisions @ concat (map relation_decisions entities)"

definition create_operation :: "entity_plan \<Rightarrow> scene_operation" where
  "create_operation e =
     Create \<lparr> create_entity_id = ep_entity_id e,
       create_components = [Name \<lparr> name_value = ep_name e \<rparr>, LocalTransform (ep_transform e),
         Primitive (ep_primitive e), Material (ep_material e)] \<rparr>"

fun reparent_operations :: "entity_plan list \<Rightarrow> entity_plan list \<Rightarrow> scene_operation list option" where
  "reparent_operations entities [] = Some []"
| "reparent_operations entities (e # es) =
     (case ep_parent e of
        None \<Rightarrow> reparent_operations entities es
      | Some parent \<Rightarrow>
          (case find (\<lambda>candidate. ep_key candidate = parent) entities of
             None \<Rightarrow> None
           | Some candidate \<Rightarrow>
               map_option ((#) (Reparent \<lparr> reparent_entity_id = ep_entity_id e,
                                           reparent_parent_id = Some (ep_entity_id candidate) \<rparr>))
                 (reparent_operations entities es)))"

definition build_patch :: "imagination_envelope \<Rightarrow> entity_plan list \<Rightarrow> scene_patch option" where
  "build_patch v entities =
     map_option (\<lambda>reparents.
         \<lparr> patch_schema_version = env_schema_version v, patch_transaction_id = env_transaction_id v,
           patch_idempotency_key = env_idempotency_key v, patch_base_revision = env_base_revision v,
           patch_conflict_policy = RequireExactBase, patch_delivery = env_delivery v,
           patch_declared_budget = ibudget_patch (env_declared_budget v),
           patch_operations = map create_operation entities @ reparents \<rparr>)
       (reparent_operations entities entities)"

section \<open>Compilation\<close>

definition validate_completed_result ::
    "result_json \<Rightarrow> compilation_result \<Rightarrow> compilation_limits \<Rightarrow> compile_error + unit" where
  "validate_completed_result json r limits =
     (case to_canonical_json json r limits of
        Inr _ \<Rightarrow> Inr ()
      | Inl (InvalidResult validation) \<Rightarrow> Inl (InvalidCompilationResult validation)
      | Inl e \<Rightarrow> Inl (InvalidCompilationEncoding e))"

definition completed_result ::
    "imagination_envelope \<Rightarrow> compilation_scene_view \<Rightarrow> scene_patch option \<Rightarrow> compilation_decision list
       \<Rightarrow> unresolved_constraint list \<Rightarrow> compilation_result" where
  "completed_result v scene patch decisions unresolved =
     \<lparr> cr_schema_version = V1, cr_imagination_id = env_imagination_id v, cr_scene_revision = sv_revision scene,
       cr_patch = patch, cr_decisions = decisions, cr_unresolved = unresolved \<rparr>"

text \<open>The passes over the relations: the plans and everything that is unresolved.\<close>

definition resolve_relations ::
    "imagination_envelope \<Rightarrow> compilation_scene_view \<Rightarrow> entity_plan list
       \<Rightarrow> compile_error fault + (entity_plan list \<times> unresolved_constraint list)" where
  "resolve_relations v scene entities =
     bind_res (ok_or Panic (assign_relations v (key_index_of entities)
                 (entities, check_scene_constraints v scene))) (\<lambda>(related, unresolved).
     bind_res (ok_or Panic (reject_parented_placement_anchors related (key_index_of entities) unresolved))
       (\<lambda>unresolved.
     bind_res (ok_or Panic (mark_cycles related (key_index_of entities) unresolved)) (\<lambda>unresolved.
       if unresolved = [] then resolve_placements related (key_index_of entities) unresolved
       else Inr (related, unresolved))))"

definition complete_unresolved ::
    "result_json \<Rightarrow> compiler_config \<Rightarrow> imagination_envelope \<Rightarrow> compilation_scene_view
       \<Rightarrow> compilation_decision list \<Rightarrow> unresolved_constraint list \<Rightarrow> compile_error + compilation_result" where
  "complete_unresolved json config v scene decisions unresolved =
     (let r = completed_result v scene None (sort_by decision_cmp decisions)
                (remdups_adj (sort_by unresolved_cmp unresolved)) in
      bind_res (validate_completed_result json r (cc_compilation_limits config)) (\<lambda>_. Inr r))"

definition complete_compiled ::
    "result_json \<Rightarrow> compiler_config \<Rightarrow> imagination_envelope \<Rightarrow> compilation_scene_view
       \<Rightarrow> entity_plan list \<Rightarrow> compilation_decision list \<Rightarrow> scene_patch \<Rightarrow> compile_error + compilation_result" where
  "complete_compiled json config v scene entities decisions patch =
     (let r = completed_result v scene (Some patch)
                (sort_by decision_cmp (append_relation_decisions entities decisions)) [] in
      bind_res (map_err InvalidNormalizedPatch (patch_validate patch (cc_runtime_limits config))) (\<lambda>_.
      bind_res (validate_completed_result json r (cc_compilation_limits config)) (\<lambda>_. Inr r)))"

definition compile_imagination ::
    "(bytes \<Rightarrow> bytes) \<Rightarrow> result_json \<Rightarrow> compiler_config \<Rightarrow> imagination_envelope \<Rightarrow> compilation_scene_view
       \<Rightarrow> compile_error fault + compilation_result" where
  "compile_imagination sha json config v scene =
     bind_res (map_err (\<lambda>e. Err (InvalidImagination e)) (envelope_validate v (cc_runtime_limits config))) (\<lambda>_.
       if env_base_revision v \<noteq> sv_revision scene
       then Inl (Err (SceneRevisionMismatch (env_base_revision v) (sv_revision scene)))
       else bind_res (map_err Err (plan_entities sha config v scene)) (\<lambda>(entities, decisions).
            bind_res (resolve_relations v scene entities) (\<lambda>(entities, unresolved).
              if unresolved \<noteq> []
              then map_err Err (complete_unresolved json config v scene decisions unresolved)
              else bind_res (ok_or Panic (build_patch v entities)) (\<lambda>patch.
                     map_err Err (complete_compiled json config v scene entities decisions patch)))))"

end
