(* ===== verification/Compiler_Plan.thy ===== *)
theory Compiler_Plan
  imports Compiler
begin

text \<open>
  What the passes of the compiler establish, one after the other: the planned entities with
  fresh and distinct identities, the relations assigned to them, the absence of cycles when
  nothing is reported, and the placements. The placement recursion with its flags, which
  changes the plans in place, is compared with a plain reference, and shown to return.
\<close>

section \<open>Planned entities\<close>

interpretation keys: comparator key_cmp ie_key
  by unfold_locales (rule key_cmp_def)

definition planned :: "imagined_entity \<Rightarrow> stable_entity_id \<Rightarrow> entity_plan" where
  "planned e i = fst (plan_entity e i [])"

lemma plan_entity_eq: "plan_entity e i ds = (planned e i, ds @ defaults_of e)"
  by (simp add: planned_def plan_entity_def)

lemma planned_fields [simp]:
  "ep_key (planned e i) = ie_key e" "ep_entity_id (planned e i) = i"
  "ep_primitive (planned e i) = ie_primitive e" "ep_name (planned e i) = entity_name e"
  "ep_parent (planned e i) = None" "ep_parent_relation (planned e i) = None"
  "ep_placement (planned e i) = None"
  by (simp_all add: planned_def plan_entity_def entity_name_def)

definition entity_decisions :: "imagined_entity \<Rightarrow> compilation_decision list \<Rightarrow> bool" where
  "entity_decisions e ds \<longleftrightarrow>
     (\<exists>chosen. (chosen = [] \<or> (\<exists>b i. chosen = [id_decision b (ie_key e) i])) \<and> ds = chosen @ defaults_of e)"

lemma derive_attempts_available:
  "derive_attempts sha config v key n scene used attempt = Inr i \<Longrightarrow> id_available scene used i"
proof (induction sha config v key n scene used attempt rule: derive_attempts.induct)
  case (1 sha config v key n scene used attempt)
  from "1.prems" show ?case
    unfolding derive_attempts.simps [of sha config v key n scene used attempt]
    using "1.IH" by (auto split: if_splits sum.splits)
qed

lemma choose_entity_id_ok:
  assumes "choose_entity_id sha config v scene used n e = Inr (i, chosen)"
  shows "id_available scene used i" "chosen = [] \<or> (\<exists>b. chosen = [id_decision b (ie_key e) i])"
proof -
  have derived: "id_available scene used j"
    if "derive_entity_id sha config v (ie_key e) (len_or_max n) scene used = Inr j" for j
    using that unfolding derive_entity_id_def by (rule derive_attempts_available)
  show "id_available scene used i"
    using assms derived
    by (cases "derive_entity_id sha config v (ie_key e) (len_or_max n) scene used")
      (auto simp: choose_entity_id_def preferred_unavailable_def id_available_def split: option.splits if_splits)
  show "chosen = [] \<or> (\<exists>b. chosen = [id_decision b (ie_key e) i])"
    using assms
    by (cases "derive_entity_id sha config v (ie_key e) (len_or_max n) scene used")
      (auto simp: choose_entity_id_def split: option.splits if_splits)
qed

lemma plan_loop_ok:
  assumes "plan_loop sha config v scene n xs used (es0, ds0) = Inr (es, ds)"
  shows "\<exists>ids dss. length ids = length xs \<and> es = es0 @ map2 planned xs ids \<and> distinct ids \<and>
    (\<forall>i\<in>set ids. id_available scene used i) \<and> ds = ds0 @ concat dss \<and> list_all2 entity_decisions xs dss"
  using assms
proof (induction xs arbitrary: n used es0 ds0)
  case (Cons e xs)
  from Cons.prems obtain i chosen where c: "choose_entity_id sha config v scene used n e = Inr (i, chosen)"
    and loop: "plan_loop sha config v scene (Suc n) xs (bs_insert i used)
      (es0 @ [planned e i], (ds0 @ chosen) @ defaults_of e) = Inr (es, ds)"
    by (auto simp: res_simps plan_entity_eq)
  note ok = choose_entity_id_ok [OF c]
  from Cons.IH [OF loop] obtain ids dss where *: "length ids = length xs"
      "es = (es0 @ [planned e i]) @ map2 planned xs ids" "distinct ids"
      "\<forall>j\<in>set ids. id_available scene (bs_insert i used) j"
      "ds = ((ds0 @ chosen) @ defaults_of e) @ concat dss" "list_all2 entity_decisions xs dss"
    by blast
  have "entity_decisions e (chosen @ defaults_of e)" using ok(2) by (auto simp: entity_decisions_def)
  with * ok(1) show ?case
    by (intro exI [of _ "i # ids"] exI [of _ "(chosen @ defaults_of e) # dss"])
      (auto simp: id_available_def)
qed simp

text \<open>The sorted entities of a validated imagination have strictly ascending keys.\<close>

lemma imagined_entities_validate_keys:
  "imagined_entities_validate es keys t u = Inr r \<Longrightarrow>
     distinct (map ie_key es) \<and> bs_set keys \<inter> set (map ie_key es) = {}"
  by (induction es keys t u rule: imagined_entities_validate.induct)
    (auto simp: res_simps bs_mem_iff simp del: bm_contains_iff)

definition sorted_entities :: "imagination_envelope \<Rightarrow> imagined_entity list" where
  "sorted_entities v = sort_by key_cmp (env_entities v)"

lemma set_sorted_entities [simp]: "set (sorted_entities v) = set (env_entities v)"
  by (simp add: sorted_entities_def)

lemma length_sorted_entities [simp]: "length (sorted_entities v) = length (env_entities v)"
  by (simp add: sorted_entities_def)

lemma mset_sorted_entities [simp]: "mset (sorted_entities v) = mset (env_entities v)"
  by (simp add: sorted_entities_def)

lemma envelope_validate_parts:
  assumes "envelope_validate v limits = Inr ()"
  shows "env_schema_version v = V1" "validate_collection_limits v limits = Inr ()"
    "validate_patch_budget (ibudget_patch (env_declared_budget v)) limits = Inr ()"
    "validate_entities_and_output v limits = Inr ()"
    "envelope_logical_size_bytes v \<le> max_decoded_bytes limits"
  using assms by (auto simp: envelope_validate_def validate_schema_def res_simps not_less split: if_splits)

lemma envelope_keys_distinct:
  assumes "envelope_validate v limits = Inr ()"
  shows "distinct (map ie_key (env_entities v))"
  using envelope_validate_parts(4) [OF assms]
  by (auto simp: validate_entities_and_output_def res_simps dest: imagined_entities_validate_keys)

lemma sorted_keys:
  assumes "envelope_validate v limits = Inr ()"
  shows "sorted_wrt (<) (map ie_key (sorted_entities v))"
  unfolding sorted_entities_def by (rule keys.distinct_sort_by [OF envelope_keys_distinct [OF assms]])

lemma plan_entities_ok:
  assumes "plan_entities sha config v scene = Inr (es, ds)"
  shows "\<exists>ids dss. length ids = length (env_entities v) \<and> es = map2 planned (sorted_entities v) ids \<and>
    distinct ids \<and> (\<forall>i\<in>set ids. \<not> view_contains scene i) \<and> ds = concat dss \<and>
    list_all2 entity_decisions (sorted_entities v) dss"
proof -
  from assms have "plan_loop sha config v scene 0 (sorted_entities v) bs_empty ([], []) = Inr (es, ds)"
    by (simp add: plan_entities_def sorted_entities_def)
  from plan_loop_ok [OF this] show ?thesis by (auto simp: id_available_def)
qed

section \<open>The key index\<close>

lemma map_of_zip_upt:
  assumes "distinct ks"
  shows "map_of (rev (zip ks [0..<length ks])) k = Some i \<longleftrightarrow> i < length ks \<and> ks ! i = k"
proof -
  have "distinct (map fst (rev (zip ks [0..<length ks])))" using assms by (simp add: rev_map [symmetric])
  then have "map_of (rev (zip ks [0..<length ks])) k = Some i \<longleftrightarrow> (k, i) \<in> set (zip ks [0..<length ks])"
    by (simp add: map_of_eq_Some_iff)
  then show ?thesis by (auto simp: in_set_zip)
qed

lemma key_index_get:
  assumes "distinct (map ep_key es)"
  shows "bm_get (key_index_of es) k = Some i \<longleftrightarrow> i < length es \<and> ep_key (es ! i) = k"
  using map_of_zip_upt [OF assms, of k i] by (auto simp: key_index_of_def bm_get_extend)

lemma key_index_None:
  assumes "distinct (map ep_key es)"
  shows "bm_get (key_index_of es) k = None \<longleftrightarrow> k \<notin> ep_key ` set es"
proof -
  have "bm_get (key_index_of es) k \<noteq> None \<longleftrightarrow> (\<exists>i<length es. ep_key (es ! i) = k)"
    using key_index_get [OF assms, of k] by auto
  moreover have "(\<exists>i<length es. ep_key (es ! i) = k) \<longleftrightarrow> k \<in> ep_key ` set es"
    unfolding set_conv_nth by blast
  ultimately show ?thesis by blast
qed

section \<open>Assigned relations\<close>

text \<open>
  \<open>unrelated p\<close> is a plan before its relation was assigned. Assigning relations changes
  nothing else, and leaves each plan with at most one relation, to another planned key.
\<close>

definition unrelated :: "entity_plan \<Rightarrow> entity_plan" where
  "unrelated p = p\<lparr> ep_parent := None, ep_parent_relation := None, ep_placement := None \<rparr>"

lemma unrelated_fields [simp]:
  "ep_key (unrelated p) = ep_key p" "ep_entity_id (unrelated p) = ep_entity_id p"
  "ep_name (unrelated p) = ep_name p" "ep_primitive (unrelated p) = ep_primitive p"
  "ep_transform (unrelated p) = ep_transform p" "ep_material (unrelated p) = ep_material p"
  by (simp_all add: unrelated_def)

lemma unrelated_set [simp]:
  "unrelated (set_parent k r p) = unrelated p" "unrelated (set_placement r k kind p) = unrelated p"
  by (simp_all add: unrelated_def set_parent_def set_placement_def)

lemma unrelated_planned [simp]: "unrelated (planned e i) = planned e i"
  by (simp add: unrelated_def planned_def plan_entity_def)

definition plan_related :: "scene_text set \<Rightarrow> entity_plan \<Rightarrow> bool" where
  "plan_related keys p \<longleftrightarrow>
     (ep_parent p = None \<longleftrightarrow> ep_parent_relation p = None) \<and> (ep_parent p = None \<or> ep_placement p = None) \<and>
     (\<forall>k. ep_parent p = Some k \<longrightarrow> k \<in> keys \<and> k \<noteq> ep_key p) \<and>
     (\<forall>pl. ep_placement p = Some pl \<longrightarrow> pl_anchor pl \<in> keys \<and> pl_anchor pl \<noteq> ep_key p)"

lemma same_keys: "map unrelated es = map unrelated es' \<Longrightarrow> map ep_key es = map ep_key es'"
proof -
  assume "map unrelated es = map unrelated es'"
  then have "map (ep_key \<circ> unrelated) es = map (ep_key \<circ> unrelated) es'"
    by (metis list.map_comp)
  then show ?thesis by (simp add: comp_def)
qed

lemma key_index_same: "map ep_key es = map ep_key es' \<Longrightarrow> key_index_of es = key_index_of es'"
  by (simp add: key_index_of_def) (metis length_map)

definition assigned :: "imagination_relation list \<Rightarrow> entity_plan \<Rightarrow> nat \<Rightarrow> bool" where
  "assigned rs p n \<longleftrightarrow> n < length rs \<and>
     (case rs ! n of
        RelParent child parent \<Rightarrow> ep_key p = child \<and> ep_parent p = Some parent \<and>
          ep_parent_relation p = Some (len_or_max n)
      | RelAbove subject anchor clearance \<Rightarrow> ep_key p = subject \<and> ep_placement p =
          Some \<lparr> pl_relation_index = len_or_max n, pl_anchor = anchor, pl_kind = Above (non_negative_get clearance) \<rparr>
      | RelRightOf subject anchor gap \<Rightarrow> ep_key p = subject \<and> ep_placement p =
          Some \<lparr> pl_relation_index = len_or_max n, pl_anchor = anchor, pl_kind = RightOf (non_negative_get gap) \<rparr>)"

definition issue_for :: "imagination_relation list \<Rightarrow> unresolved_constraint \<Rightarrow> nat \<Rightarrow> bool" where
  "issue_for rs u n \<longleftrightarrow> n < length rs \<and>
     (\<exists>code. u = relation_issue code (len_or_max n) (fst (relation_texts (rs ! n))) (snd (relation_texts (rs ! n))) \<and>
        code \<noteq> RequiredEntityMissing \<and> code \<noteq> RequiredEntityPresent)"

definition carries_relation :: "entity_plan \<Rightarrow> bool" where
  "carries_relation p \<longleftrightarrow> ep_parent p \<noteq> None \<or> ep_placement p \<noteq> None"

lemma assigned_subject: "assigned rs p n \<Longrightarrow> ep_key p = fst (relation_texts (rs ! n))"
  by (auto simp: assigned_def split: imagination_relation.splits)

lemma assigned_carries: "assigned rs p n \<Longrightarrow> carries_relation p"
  by (auto simp: assigned_def carries_relation_def split: imagination_relation.splits)

lemma assigned_append: "assigned rs p n \<Longrightarrow> assigned (rs @ qs) p n"
  by (auto simp: assigned_def nth_append)

lemma issue_for_append: "issue_for rs u n \<Longrightarrow> issue_for (rs @ qs) u n"
  by (auto simp: issue_for_def nth_append)

definition apply_relation :: "u32 \<Rightarrow> imagination_relation \<Rightarrow> entity_plan \<Rightarrow> entity_plan" where
  "apply_relation n r =
     (case r of
        RelParent child parent \<Rightarrow> set_parent parent n
      | RelAbove subject anchor clearance \<Rightarrow> set_placement n anchor (Above (non_negative_get clearance))
      | RelRightOf subject anchor gap \<Rightarrow> set_placement n anchor (RightOf (non_negative_get gap)))"

lemma assign_relation_relate:
  "assign_relation index n r st =
     relate index n (fst (relation_texts r)) (snd (relation_texts r)) (apply_relation n r) st"
  by (cases r) (simp_all add: apply_relation_def)

lemma apply_relation_fields [simp]:
  "unrelated (apply_relation n r p) = unrelated p" "ep_key (apply_relation n r p) = ep_key p"
  by (cases r; simp add: apply_relation_def set_parent_def set_placement_def unrelated_def)+

text \<open>One relation is either reported, or assigned to the one plan it names.\<close>

lemma relate_cases:
  assumes keys: "map ep_key es = map ep_key es0" "distinct (map ep_key es0)"
    and st: "relate (key_index_of es0) n subject anchor update (es, un) = res"
  obtains (issue) code where "res = Some (es, un @ [relation_issue code n subject anchor])"
      "code \<noteq> RequiredEntityMissing" "code \<noteq> RequiredEntityPresent"
    | (assign) i where "res = Some (es[i := update (es ! i)], un)" "i < length es"
      "ep_key (es ! i) = subject" "\<not> carries_relation (es ! i)" "anchor \<in> ep_key ` set es" "anchor \<noteq> subject"
proof -
  have idx: "key_index_of es0 = key_index_of es" by (rule key_index_same [OF keys(1) [symmetric]])
  have dist: "distinct (map ep_key es)" using keys by simp
  note get = key_index_get [OF dist] and none = key_index_None [OF dist]
  have contains: "bm_contains (key_index_of es) k \<longleftrightarrow> k \<in> ep_key ` set es" for k
    using none [of k] by (simp add: bm_contains_def del: bm_contains_iff)
  have res: "res = (case check_relation es (key_index_of es) n subject anchor of
      None \<Rightarrow> None
    | Some (Inl issue) \<Rightarrow> Some (es, un @ [issue])
    | Some (Inr i) \<Rightarrow> Some (es[i := update (es ! i)], un))"
    unfolding st [symmetric] relate_def idx by simp
  show thesis
  proof (cases "bm_get (key_index_of es) subject")
    case None
    then have "check_relation es (key_index_of es) n subject anchor =
        Some (Inl (relation_issue UnknownEntityReference n subject anchor))"
      by (simp add: check_relation_def unknown_reference_def)
    with res show ?thesis by (intro issue [of UnknownEntityReference]) simp_all
  next
    case (Some i)
    then have i: "i < length es" "ep_key (es ! i) = subject" using get by auto
    have check: "check_relation es (key_index_of es) n subject anchor =
       (if anchor \<notin> ep_key ` set es then Some (Inl (relation_issue UnknownEntityReference n subject anchor))
        else if subject = anchor then Some (Inl (relation_issue SelfRelation n subject anchor))
        else if carries_relation (es ! i) then Some (Inl (relation_issue ConflictingRelation n subject anchor))
        else Some (Inr i))"
      using i(1) unfolding check_relation_def Some option.case contains unknown_reference_def carries_relation_def
      by simp
    consider "anchor \<notin> ep_key ` set es" | "anchor \<in> ep_key ` set es" "subject = anchor"
      | "anchor \<in> ep_key ` set es" "subject \<noteq> anchor" "carries_relation (es ! i)"
      | "anchor \<in> ep_key ` set es" "subject \<noteq> anchor" "\<not> carries_relation (es ! i)" by blast
    then show ?thesis
    proof cases
      case 1
      then show ?thesis by (intro issue [of UnknownEntityReference]) (simp_all add: res check)
    next
      case 2
      with check show ?thesis by (intro issue [of SelfRelation]) (simp_all add: res)
    next
      case 3
      then show ?thesis by (intro issue [of ConflictingRelation]) (simp_all add: res check)
    next
      case 4
      then show ?thesis using i by (intro assign [of i]) (simp_all add: res check)
    qed
  qed
qed

text \<open>
  The state after the relations \<open>rs\<close>: every one is assigned or reported, and nothing else
  is. With the relation numbers in range, none is both, and none is reported twice.
\<close>

definition relations_inv ::
    "entity_plan list \<Rightarrow> imagination_relation list \<Rightarrow> entity_plan list \<Rightarrow> unresolved_constraint list \<Rightarrow> bool" where
  "relations_inv es0 rs es news \<longleftrightarrow>
     map unrelated es = map unrelated es0 \<and>
     (\<forall>p\<in>set es. plan_related (ep_key ` set es0) p \<and> (carries_relation p \<longrightarrow> (\<exists>n. assigned rs p n))) \<and>
     (\<forall>n<length rs. (\<exists>p\<in>set es. assigned rs p n) \<or> (\<exists>u\<in>set news. issue_for rs u n)) \<and>
     (\<forall>u\<in>set news. \<exists>n. issue_for rs u n)"

definition relation_number :: "entity_plan \<Rightarrow> u32 option" where
  "relation_number p =
     (case ep_parent_relation p of Some r \<Rightarrow> Some r | None \<Rightarrow> map_option pl_relation_index (ep_placement p))"

definition numbers_inv :: "entity_plan list \<Rightarrow> unresolved_constraint list \<Rightarrow> bool" where
  "numbers_inv es news \<longleftrightarrow>
     distinct (map un_relation_index news) \<and>
     (\<forall>u\<in>set news. \<forall>p\<in>set es. carries_relation p \<longrightarrow> un_relation_index u \<noteq> relation_number p)"

lemma assigned_number:
  "assigned rs p n \<Longrightarrow> plan_related keys p \<Longrightarrow> relation_number p = Some (len_or_max n)"
  by (cases "rs ! n") (auto simp: assigned_def plan_related_def relation_number_def)

lemma issue_number: "issue_for rs u n \<Longrightarrow> un_relation_index u = Some (len_or_max n)"
  by (auto simp: issue_for_def relation_issue_def)

lemma len_or_max_inject:
  "m < 2 ^ LENGTH('a::len) \<Longrightarrow> n < 2 ^ LENGTH('a) \<Longrightarrow> (len_or_max m :: 'a word) = len_or_max n \<longleftrightarrow> m = n"
  by (metis len_or_max_def unat_of_nat_small)

lemma apply_relation_related:
  assumes "\<not> carries_relation p" "plan_related keys p" "fst (relation_texts r) = ep_key p"
    "snd (relation_texts r) \<in> keys" "snd (relation_texts r) \<noteq> ep_key p"
  shows "plan_related keys (apply_relation m r p)"
  using assms
  by (cases r) (simp_all add: plan_related_def carries_relation_def apply_relation_def set_parent_def set_placement_def)

lemma apply_relation_assigned:
  "fst (relation_texts r) = ep_key p \<Longrightarrow> assigned (rs @ [r]) (apply_relation (len_or_max (length rs)) r p) (length rs)"
  by (cases r) (simp_all add: assigned_def apply_relation_def set_parent_def set_placement_def)

lemma relations_inv_issue:
  assumes inv: "relations_inv es0 rs es news"
    and code: "code \<noteq> RequiredEntityMissing" "code \<noteq> RequiredEntityPresent"
    and u: "u = relation_issue code (len_or_max (length rs)) (fst (relation_texts r)) (snd (relation_texts r))"
  shows "relations_inv es0 (rs @ [r]) es (news @ [u])"
    and "numbers_inv es news \<Longrightarrow> length rs < 2 ^ 32 \<Longrightarrow> numbers_inv es (news @ [u])"
proof -
  have new: "issue_for (rs @ [r]) u (length rs)" using code by (auto simp: issue_for_def u)
  have "(\<exists>p\<in>set es. assigned (rs @ [r]) p n) \<or> (\<exists>w\<in>set (news @ [u]). issue_for (rs @ [r]) w n)"
    if "n < length (rs @ [r])" for n
  proof (cases "n = length rs")
    case False
    then have "n < length rs" using that by simp
    then have "(\<exists>p\<in>set es. assigned rs p n) \<or> (\<exists>w\<in>set news. issue_for rs w n)"
      using inv by (simp add: relations_inv_def)
    then show ?thesis using assigned_append issue_for_append by fastforce
  qed (use new in auto)
  moreover have "\<exists>n. issue_for (rs @ [r]) w n" if "w \<in> set (news @ [u])" for w
    using that new inv issue_for_append by (auto simp: relations_inv_def) blast+
  ultimately show "relations_inv es0 (rs @ [r]) es (news @ [u])"
    using inv assigned_append unfolding relations_inv_def by blast
next
  assume num: "numbers_inv es news" and len: "length rs < 2 ^ 32"
  have "un_relation_index u \<noteq> un_relation_index w" if "w \<in> set news" for w
  proof -
    from that inv obtain n where n: "issue_for rs w n" by (auto simp: relations_inv_def)
    then have "n < length rs" by (simp add: issue_for_def)
    with issue_number [OF n] len show ?thesis
      using len_or_max_inject [of n "length rs", where 'a = 32] by (simp add: u relation_issue_def)
  qed
  moreover have "un_relation_index u \<noteq> relation_number p" if "p \<in> set es" "carries_relation p" for p
  proof -
    from that inv obtain n keys where n: "assigned rs p n" "plan_related keys p"
      by (auto simp: relations_inv_def)
    then have "n < length rs" by (simp add: assigned_def)
    with assigned_number [OF n] len show ?thesis
      using len_or_max_inject [of n "length rs", where 'a = 32] by (simp add: u relation_issue_def)
  qed
  ultimately show "numbers_inv es (news @ [u])" using num by (auto simp: numbers_inv_def)
qed

lemma in_set_update: "x \<in> set (xs[i := y]) \<Longrightarrow> x = y \<or> x \<in> set xs"
  using set_update_subset_insert by fastforce

lemma kept_in_update: "x \<in> set xs \<Longrightarrow> x \<noteq> xs ! i \<Longrightarrow> x \<in> set (xs[i := y])"
  by (metis in_set_conv_nth length_list_update nth_list_update_neq)

lemma relations_inv_assign:
  assumes inv: "relations_inv es0 rs es news" and i: "i < length es"
    and r: "ep_key (es ! i) = fst (relation_texts r)" "\<not> carries_relation (es ! i)"
      "snd (relation_texts r) \<in> ep_key ` set es0" "snd (relation_texts r) \<noteq> fst (relation_texts r)"
    and es': "es' = es[i := apply_relation (len_or_max (length rs)) r (es ! i)]"
  shows "relations_inv es0 (rs @ [r]) es' news"
    and "numbers_inv es news \<Longrightarrow> length rs < 2 ^ 32 \<Longrightarrow> numbers_inv es' news"
proof -
  let ?p = "apply_relation (len_or_max (length rs)) r (es ! i)"
  have old: "plan_related (ep_key ` set es0) p" "carries_relation p \<Longrightarrow> \<exists>n. assigned rs p n" if "p \<in> set es" for p
    using inv that by (auto simp: relations_inv_def)
  have new: "plan_related (ep_key ` set es0) ?p"
    by (rule apply_relation_related) (use r old(1) [OF nth_mem [OF i]] in simp_all)
  have asg: "assigned (rs @ [r]) ?p (length rs)" using r(1) by (intro apply_relation_assigned) simp
  have in': "?p \<in> set es'" using i by (simp add: es' set_update_memI)
  have "map unrelated es' = map unrelated es"
    unfolding es' map_update apply_relation_fields using i by (metis list_update_id nth_map)
  then have un: "map unrelated es' = map unrelated es0" using inv by (simp add: relations_inv_def)
  have plans: "plan_related (ep_key ` set es0) p \<and> (carries_relation p \<longrightarrow> (\<exists>n. assigned (rs @ [r]) p n))"
    if "p \<in> set es'" for p
    using in_set_update [OF that [unfolded es']] new asg old assigned_append by blast
  have cover: "(\<exists>p\<in>set es'. assigned (rs @ [r]) p n) \<or> (\<exists>w\<in>set news. issue_for (rs @ [r]) w n)"
    if "n < length (rs @ [r])" for n
  proof (cases "n = length rs")
    case True
    then show ?thesis using asg in' by blast
  next
    case False
    then have "n < length rs" using that by simp
    then consider p where "p \<in> set es" "assigned rs p n" | w where "w \<in> set news" "issue_for rs w n"
      using inv by (auto simp: relations_inv_def)
    then show ?thesis
    proof cases
      case 1
      then have "p \<in> set es'" unfolding es' using r(2) assigned_carries by (intro kept_in_update) auto
      then show ?thesis using 1 assigned_append by blast
    next
      case 2
      then show ?thesis using issue_for_append by blast
    qed
  qed
  have "\<exists>n. issue_for (rs @ [r]) w n" if "w \<in> set news" for w
    using inv that issue_for_append unfolding relations_inv_def by blast
  with un plans cover show "relations_inv es0 (rs @ [r]) es' news" unfolding relations_inv_def by blast
  assume num: "numbers_inv es news" and len: "length rs < 2 ^ 32"
  have "un_relation_index w \<noteq> relation_number ?p" if "w \<in> set news" for w
  proof -
    from that inv obtain n where n: "issue_for rs w n" by (auto simp: relations_inv_def)
    then have "n < length rs" by (simp add: issue_for_def)
    with issue_number [OF n] assigned_number [OF asg new] len show ?thesis
      using len_or_max_inject [of n "length rs", where 'a = 32] by simp
  qed
  then show "numbers_inv es' news"
    using num in_set_update [of _ es i ?p] unfolding numbers_inv_def es' by blast
qed

lemma assign_relations_from_inv:
  assumes "relations_inv es0 rs es news" "distinct (map ep_key es0)"
  shows "\<exists>es' news'. assign_relations_from (key_index_of es0) (length rs) qs (es, un @ news) = Some (es', un @ news') \<and>
    relations_inv es0 (rs @ qs) es' news' \<and>
    (numbers_inv es news \<longrightarrow> length (rs @ qs) \<le> 2 ^ 32 \<longrightarrow> numbers_inv es' news')"
  using assms(1)
proof (induction qs arbitrary: rs es news)
  case (Cons r qs)
  have keys: "map ep_key es = map ep_key es0"
    by (rule same_keys) (use Cons.prems in \<open>simp add: relations_inv_def\<close>)
  have sub: "ep_key ` set es = ep_key ` set es0" using keys by (metis list.set_map)
  let ?n = "len_or_max (length rs)"
  have step: "\<exists>es1 news1. assign_relation (key_index_of es0) ?n r (es, un @ news) = Some (es1, un @ news1) \<and>
      relations_inv es0 (rs @ [r]) es1 news1 \<and>
      (numbers_inv es news \<longrightarrow> length rs < 2 ^ 32 \<longrightarrow> numbers_inv es1 news1)"
  proof (rule relate_cases [OF keys assms(2) refl, of ?n "fst (relation_texts r)" "snd (relation_texts r)"
        "apply_relation ?n r" "un @ news"])
    fix code
    assume "relate (key_index_of es0) ?n (fst (relation_texts r)) (snd (relation_texts r)) (apply_relation ?n r)
        (es, un @ news) = Some (es, (un @ news) @ [relation_issue code ?n (fst (relation_texts r)) (snd (relation_texts r))])"
      "code \<noteq> RequiredEntityMissing" "code \<noteq> RequiredEntityPresent"
    then show ?thesis
      using relations_inv_issue [OF Cons.prems _ _ refl, of code r]
      unfolding assign_relation_relate append.assoc by blast
  next
    fix i
    assume "relate (key_index_of es0) ?n (fst (relation_texts r)) (snd (relation_texts r)) (apply_relation ?n r)
        (es, un @ news) = Some (es[i := apply_relation ?n r (es ! i)], un @ news)"
      "i < length es" "ep_key (es ! i) = fst (relation_texts r)" "\<not> carries_relation (es ! i)"
      "snd (relation_texts r) \<in> ep_key ` set es" "snd (relation_texts r) \<noteq> fst (relation_texts r)"
    then show ?thesis
      using relations_inv_assign [OF Cons.prems, of i r] unfolding sub assign_relation_relate by blast
  qed
  then obtain es1 news1 where 1: "assign_relation (key_index_of es0) ?n r (es, un @ news) = Some (es1, un @ news1)"
      "relations_inv es0 (rs @ [r]) es1 news1"
      "numbers_inv es news \<longrightarrow> length rs < 2 ^ 32 \<longrightarrow> numbers_inv es1 news1" by blast
  from Cons.IH [OF 1(2)] obtain es' news' where
      "assign_relations_from (key_index_of es0) (Suc (length rs)) qs (es1, un @ news1) = Some (es', un @ news')"
      "relations_inv es0 (rs @ r # qs) es' news'"
      "numbers_inv es1 news1 \<longrightarrow> length (rs @ r # qs) \<le> 2 ^ 32 \<longrightarrow> numbers_inv es' news'" by auto
  with 1(1,3) show ?case by auto
qed auto

section \<open>Parented anchors\<close>

definition anchor_parented :: "entity_plan list \<Rightarrow> key_index \<Rightarrow> entity_plan \<Rightarrow> bool" where
  "anchor_parented es index p \<longleftrightarrow>
     (\<exists>pl a. ep_placement p = Some pl \<and> bm_get index (pl_anchor pl) = Some a \<and> ep_parent (es ! a) \<noteq> None)"

definition anchor_issue :: "entity_plan \<Rightarrow> unresolved_constraint" where
  "anchor_issue p =
     relation_issue ConflictingRelation (pl_relation_index (the (ep_placement p))) (ep_key p)
       (pl_anchor (the (ep_placement p)))"

lemma reject_parented_anchors_eq:
  assumes "\<And>p pl. p \<in> set ps \<Longrightarrow> ep_placement p = Some pl \<Longrightarrow> \<exists>a<length es. bm_get index (pl_anchor pl) = Some a"
  shows "reject_parented_anchors es index ps un =
    Some (un @ map anchor_issue (filter (anchor_parented es index) ps))"
  using assms
proof (induction ps arbitrary: un)
  case (Cons p ps)
  have IH: "reject_parented_anchors es index ps un =
      Some (un @ map anchor_issue (filter (anchor_parented es index) ps))" for un
    by (rule Cons.IH) (rule Cons.prems, simp_all)
  show ?case
  proof (cases "ep_placement p")
    case None
    then have "\<not> anchor_parented es index p" by (simp add: anchor_parented_def)
    with None show ?thesis by (simp add: IH)
  next
    case (Some pl)
    with Cons.prems [of p pl] obtain a where a: "a < length es" "bm_get index (pl_anchor pl) = Some a" by auto
    then have "anchor_parented es index p \<longleftrightarrow> ep_parent (es ! a) \<noteq> None"
      using Some by (auto simp: anchor_parented_def)
    with Some a show ?thesis by (simp add: anchor_issue_def IH)
  qed
qed simp

section \<open>Cycles\<close>

definition next_index :: "entity_plan list \<Rightarrow> key_index \<Rightarrow> relation_of \<Rightarrow> nat \<rightharpoonup> nat" where
  "next_index es index next i =
     (if i < length es
      then (case next (es ! i) of Some (Some (k, _)) \<Rightarrow> bm_get index k | _ \<Rightarrow> None) else None)"

definition next_total :: "entity_plan list \<Rightarrow> key_index \<Rightarrow> relation_of \<Rightarrow> bool" where
  "next_total es index next \<longleftrightarrow>
     (\<forall>i<length es. next (es ! i) = Some None \<or>
        (\<exists>k r j. next (es ! i) = Some (Some (k, r)) \<and> bm_get index k = Some j \<and> j < length es))"

text \<open>A set of positions that the relation does not leave.\<close>

definition closed_under :: "(nat \<rightharpoonup> nat) \<Rightarrow> nat list \<Rightarrow> bool" where
  "closed_under f c \<longleftrightarrow> (\<forall>i\<in>set c. \<exists>j\<in>set c. f i = Some j)"

lemma closed_under_endless: "depth_of f i n \<Longrightarrow> closed_under f c \<Longrightarrow> i \<notin> set c"
proof (induction rule: depth_of.induct)
  case (depth_child x p n)
  then show ?case by (fastforce simp: closed_under_def)
qed (fastforce simp: closed_under_def)

definition walk_inv :: "(nat \<rightharpoonup> nat) \<Rightarrow> nat list \<Rightarrow> (nat, nat) btree_map \<Rightarrow> nat \<Rightarrow> bool" where
  "walk_inv f path positions current \<longleftrightarrow>
     (\<forall>x j. bm_get positions x = Some j \<longrightarrow> j < length path \<and> path ! j = x) \<and>
     (\<forall>j<length path. f (path ! j) = Some ((path @ [current]) ! Suc j))"

lemma walk_inv_closed:
  assumes "walk_inv f path positions current" "bm_get positions current = Some j"
  shows "j < length path" "closed_under f (drop j path)"
proof -
  have j: "j < length path" "path ! j = current" using assms by (auto simp: walk_inv_def)
  have "\<exists>y\<in>set (drop j path). f (drop j path ! m) = Some y" if m: "m < length (drop j path)" for m
  proof (cases "Suc (j + m) < length path")
    case True
    then have "f (path ! (j + m)) = Some (path ! Suc (j + m))"
      using assms(1) by (auto simp: walk_inv_def nth_append)
    moreover have "path ! Suc (j + m) \<in> set (drop j path)"
      using nth_mem [of "Suc m" "drop j path"] True by simp
    ultimately show ?thesis using m by simp
  next
    case False
    then have "f (path ! (j + m)) = Some current"
      using assms(1) m by (auto simp: walk_inv_def nth_append)
    moreover have "current \<in> set (drop j path)"
      using nth_mem [of 0 "drop j path"] j by simp
    ultimately show ?thesis using m by simp
  qed
  then have "\<exists>y\<in>set (drop j path). f x = Some y" if "x \<in> set (drop j path)" for x
    using that in_set_conv_nth [of x "drop j path"] by blast
  then show "closed_under f (drop j path)" by (simp add: closed_under_def)
  show "j < length path" by (rule j(1))
qed

lemma cycle_walk_ok:
  assumes "next_total es index next" "current < length es"
    and "walk_inv (next_index es index next) path positions current" "set path \<subseteq> {..<length es}"
  shows "\<exists>c. cycle_walk es index next path positions current = Some c \<and> set c \<subseteq> {..<length es} \<and>
    closed_under (next_index es index next) c \<and> (c = [] \<longrightarrow> (\<exists>n. depth_of (next_index es index next) current n))"
  using assms
proof (induction es index "next" path positions current rule: cycle_walk.induct)
  case (1 es index "next" path positions current)
  let ?f = "next_index es index next"
  show ?case
  proof (cases "bm_get positions current")
    case (Some j)
    note j = walk_inv_closed [OF "1.prems"(3) Some]
    then have "cycle_walk es index next path positions current = Some (drop j path)" "drop j path \<noteq> []"
      using Some by (simp_all add: cycle_walk.simps [of es index "next" path positions current])
    then show ?thesis using j(2) "1.prems"(4) set_drop_subset [of j path] by auto
  next
    case None
    from "1.prems"(1,2) consider "next (es ! current) = Some None"
      | k r i where "next (es ! current) = Some (Some (k, r))" "bm_get index k = Some i" "i < length es"
      by (auto simp: next_total_def)
    then show ?thesis
    proof cases
      case 1
      then have "?f current = None" using "1.prems"(2) by (simp add: next_index_def)
      then have "depth_of ?f current 0" by (rule depth_root)
      moreover have "cycle_walk es index next path positions current = Some []"
        using None 1 "1.prems"(2) by (simp add: cycle_walk.simps [of es index "next" path positions current])
      ultimately show ?thesis by (auto simp: closed_under_def)
    next
      case 2
      then have f: "?f current = Some i" using "1.prems"(2) by (simp add: next_index_def)
      have walk: "cycle_walk es index next path positions current =
          cycle_walk es index next (path @ [current]) (bm_insert current (length path) positions) i"
        using None 2 "1.prems"(2) by (simp add: cycle_walk.simps [of es index "next" path positions current])
      have "walk_inv ?f (path @ [current]) (bm_insert current (length path) positions) i"
        using "1.prems"(3) f by (auto simp: walk_inv_def nth_append less_Suc_eq split: if_splits)
      with "1.IH" [OF None _ 2(1) refl refl 2(2)] "1.prems" 2(3)
      obtain c where c: "cycle_walk es index next (path @ [current]) (bm_insert current (length path) positions) i = Some c"
          "set c \<subseteq> {..<length es}" "closed_under ?f c" "c = [] \<longrightarrow> (\<exists>n. depth_of ?f i n)"
        by auto
      then show ?thesis using depth_child [of ?f current i] f by (auto simp: walk)
    qed
  qed
qed

text \<open>What the report of a cycle adds: one issue per relation of the cycle that was not reported.\<close>

definition cycle_issue ::
    "entity_plan list \<Rightarrow> key_index \<Rightarrow> relation_of \<Rightarrow> unresolved_constraint_code \<Rightarrow> unresolved_constraint \<Rightarrow> bool" where
  "cycle_issue es index next code u \<longleftrightarrow>
     (\<exists>i<length es. \<exists>k r j. next (es ! i) = Some (Some (k, r)) \<and> u = relation_issue code r (ep_key (es ! i)) k \<and>
        bm_get index k = Some j \<and> next_index es index next j \<noteq> None)"

definition reports ::
    "entity_plan list \<Rightarrow> key_index \<Rightarrow> relation_of \<Rightarrow> unresolved_constraint_code
       \<Rightarrow> u32 btree_set \<Rightarrow> u32 btree_set \<Rightarrow> unresolved_constraint list \<Rightarrow> bool" where
  "reports es index next code rep rep' new \<longleftrightarrow>
     (\<forall>u\<in>set new. cycle_issue es index next code u) \<and> distinct (map un_relation_index new) \<and>
     Some ` bs_set rep \<inter> un_relation_index ` set new = {} \<and>
     Some ` bs_set rep' = Some ` bs_set rep \<union> un_relation_index ` set new"

lemma reports_refl: "reports es index next code rep rep []"
  by (simp add: reports_def)

lemma reports_trans:
  "reports es index next code rep rep1 new \<Longrightarrow> reports es index next code rep1 rep2 new1 \<Longrightarrow>
     reports es index next code rep rep2 (new @ new1)"
  unfolding reports_def by (auto simp: Int_Un_distrib2)

lemma reports_one:
  "cycle_issue es index next code (relation_issue code r k related) \<Longrightarrow> r \<notin> bs_set rep \<Longrightarrow>
     reports es index next code rep (bs_insert r rep) [relation_issue code r k related]"
  by (auto simp: reports_def relation_issue_def)

lemma report_cycle_ok:
  assumes "next_total es index next" "set c \<subseteq> {..<length es}"
    and "\<And>i. i \<in> set c \<Longrightarrow> \<exists>j. next_index es index next i = Some j \<and> next_index es index next j \<noteq> None"
  shows "\<exists>rep' new. report_cycle es next code c (rep, un) = Some (rep', un @ new) \<and>
    reports es index next code rep rep' new \<and> (c \<noteq> [] \<longrightarrow> bs_set rep' \<noteq> {})"
  using assms(2,3)
proof (induction c arbitrary: rep un)
  case Nil
  then show ?case using reports_refl [of es index "next" code rep] by auto
next
  case (Cons i c)
  then have i: "i < length es" by simp
  from Cons.prems(2) [of i] obtain j where j: "next_index es index next i = Some j" "next_index es index next j \<noteq> None"
    by auto
  from j(1) i assms(1) obtain k r where n: "next (es ! i) = Some (Some (k, r))" "bm_get index k = Some j"
    by (auto simp: next_index_def next_total_def)
  let ?u = "relation_issue code r (ep_key (es ! i)) k"
  have issue: "cycle_issue es index next code ?u" using i n j(2) unfolding cycle_issue_def by blast
  define rep1 where "rep1 = (if bs_mem rep r then rep else bs_insert r rep)"
  define un1 where "un1 = (if bs_mem rep r then [] else [?u])"
  have one: "reports es index next code rep rep1 un1"
    using reports_one [OF issue] reports_refl by (simp add: rep1_def un1_def bs_mem_iff del: bm_contains_iff)
  have ne: "bs_set rep1 \<noteq> {}" by (auto simp: rep1_def bs_mem_iff simp del: bm_contains_iff)
  have eq: "report_cycle es next code (i # c) (rep, un) = report_cycle es next code c (rep1, un @ un1)"
    using i n(1) by (simp add: rep1_def un1_def)
  from Cons.IH [of rep1 "un @ un1"] Cons.prems obtain rep' new where
      *: "report_cycle es next code c (rep1, un @ un1) = Some (rep', (un @ un1) @ new)"
      "reports es index next code rep1 rep' new" by auto
  have "bs_set rep' \<noteq> {}" using ne *(2) by (auto simp: reports_def)
  then show ?case using * reports_trans [OF one *(2)] unfolding eq by auto
qed

lemma mark_starts_ok:
  assumes "next_total es index next" "set starts \<subseteq> {..<length es}"
  shows "\<exists>rep' new. mark_starts es index next code starts (rep, un) = Some (rep', un @ new) \<and>
    reports es index next code rep rep' new \<and>
    (bs_set rep' = {} \<longrightarrow> (\<forall>i\<in>set starts. \<exists>n. depth_of (next_index es index next) i n))"
  using assms(2)
proof (induction starts arbitrary: rep un)
  case Nil
  then show ?case using reports_refl [of es index "next" code rep] by auto
next
  case (Cons i starts)
  let ?f = "next_index es index next"
  have "walk_inv ?f [] bm_empty i" by (simp add: walk_inv_def)
  with cycle_walk_ok [OF assms(1), of i "[]" bm_empty] Cons.prems
  obtain c where c: "cycle_walk es index next [] bm_empty i = Some c" "set c \<subseteq> {..<length es}"
      "closed_under ?f c" "c = [] \<longrightarrow> (\<exists>n. depth_of ?f i n)" by auto
  have "\<exists>j. ?f x = Some j \<and> ?f j \<noteq> None" if "x \<in> set c" for x
    using c(3) that unfolding closed_under_def by (metis option.simps(3))
  from report_cycle_ok [OF assms(1) c(2) this, of code rep un] obtain rep1 new1 where
      r1: "report_cycle es next code c (rep, un) = Some (rep1, un @ new1)"
      "reports es index next code rep rep1 new1" "c \<noteq> [] \<longrightarrow> bs_set rep1 \<noteq> {}" by blast
  from Cons.IH [of rep1 "un @ new1"] Cons.prems obtain rep' new where
      r2: "mark_starts es index next code starts (rep1, un @ new1) = Some (rep', (un @ new1) @ new)"
      "reports es index next code rep1 rep' new"
      "bs_set rep' = {} \<longrightarrow> (\<forall>i\<in>set starts. \<exists>n. depth_of ?f i n)" by auto
  have "bs_set rep1 = {}" if "bs_set rep' = {}" using that r2(2) by (auto simp: reports_def)
  then show ?case using c(1,4) r1 r2 reports_trans [OF r1(2) r2(2)] by auto
qed

text \<open>If the pass adds nothing, every walk ends.\<close>

lemma mark_relation_cycles_ok:
  assumes "next_total es index next"
  shows "\<exists>new. mark_relation_cycles es index next code un = Some (un @ new) \<and>
    (\<forall>u\<in>set new. cycle_issue es index next code u) \<and> distinct (map un_relation_index new) \<and>
    (new = [] \<longrightarrow> (\<forall>i<length es. \<exists>n. depth_of (next_index es index next) i n))"
proof -
  from mark_starts_ok [OF assms, of "[0..<length es]" code bs_empty un] obtain rep' new where
      *: "mark_starts es index next code [0..<length es] (bs_empty, un) = Some (rep', un @ new)"
      "reports es index next code bs_empty rep' new"
      "bs_set rep' = {} \<longrightarrow> (\<forall>i\<in>set [0..<length es]. \<exists>n. depth_of (next_index es index next) i n)"
    by (auto simp: atLeast0LessThan)
  have "bs_set rep' = {}" if "new = []" using *(2) that by (simp add: reports_def)
  with * show ?thesis by (auto simp: mark_relation_cycles_def reports_def)
qed

section \<open>Placements\<close>

text \<open>
  The reference for the placements: the plan of a subject after its anchor has been placed,
  read off the plans before any was changed. It is a relation because following the anchors
  need not end; where it does, there is one outcome.
\<close>

inductive placement_outcome ::
    "entity_plan list \<Rightarrow> key_index \<Rightarrow> nat \<Rightarrow> placement_resolution_failure + entity_plan \<Rightarrow> bool"
    for es index where
  unplaced: "ep_placement (es ! i) = None \<Longrightarrow> placement_outcome es index i (Inr (es ! i))"
| anchor_fails: "ep_placement (es ! i) = Some pl \<Longrightarrow> bm_get index (pl_anchor pl) = Some a \<Longrightarrow>
    placement_outcome es index a (Inl f) \<Longrightarrow> placement_outcome es index i (Inl f)"
| placed: "ep_placement (es ! i) = Some pl \<Longrightarrow> bm_get index (pl_anchor pl) = Some a \<Longrightarrow>
    placement_outcome es index a (Inr anchor) \<Longrightarrow>
    placement_outcome es index i (place_subject (es ! i) pl anchor)"

lemma placement_outcome_anchored:
  assumes "ep_placement (es ! i) = Some pl" "bm_get index (pl_anchor pl) = Some a"
  shows "placement_outcome es index i r \<longleftrightarrow>
    (\<exists>q. placement_outcome es index a q \<and>
       r = (case q of Inl f \<Rightarrow> Inl f | Inr anchor \<Rightarrow> place_subject (es ! i) pl anchor))"
proof
  assume "placement_outcome es index i r"
  then show "\<exists>q. placement_outcome es index a q \<and>
      r = (case q of Inl f \<Rightarrow> Inl f | Inr anchor \<Rightarrow> place_subject (es ! i) pl anchor)"
  proof (cases rule: placement_outcome.cases)
    case (anchor_fails pl' a' f)
    then show ?thesis using assms by (intro exI [of _ "Inl f"]) simp
  next
    case (placed pl' a' anchor)
    then show ?thesis using assms by (intro exI [of _ "Inr anchor"]) simp
  qed (use assms in simp)
next
  assume "\<exists>q. placement_outcome es index a q \<and>
      r = (case q of Inl f \<Rightarrow> Inl f | Inr anchor \<Rightarrow> place_subject (es ! i) pl anchor)"
  then obtain q where q: "placement_outcome es index a q"
      "r = (case q of Inl f \<Rightarrow> Inl f | Inr anchor \<Rightarrow> place_subject (es ! i) pl anchor)" by blast
  then show "placement_outcome es index i r"
    using anchor_fails [OF assms] placed [OF assms] by (cases q) simp_all
qed

lemma placement_outcome_unplaced:
  assumes "ep_placement (es ! i) = None"
  shows "placement_outcome es index i r \<longleftrightarrow> r = Inr (es ! i)"
proof
  assume "placement_outcome es index i r"
  then show "r = Inr (es ! i)" by (cases rule: placement_outcome.cases) (use assms in simp_all)
qed (use unplaced [OF assms] in simp)

lemma placement_outcome_unique:
  "placement_outcome es index i r \<Longrightarrow> placement_outcome es index i r' \<Longrightarrow> r' = r"
proof (induction arbitrary: r' rule: placement_outcome.induct)
  case (unplaced i)
  then show ?case by (simp add: placement_outcome_unplaced)
next
  case (anchor_fails i pl a f)
  from anchor_fails.prems anchor_fails.IH show ?case
    unfolding placement_outcome_anchored [OF anchor_fails.hyps(1,2)] by force
next
  case (placed i pl a anchor)
  from placed.prems placed.IH show ?case
    unfolding placement_outcome_anchored [OF placed.hyps(1,2)] by force
qed

lemma placement_outcome_exists:
  assumes "next_total es index placement_next" "depth_of (next_index es index placement_next) i n" "i < length es"
  shows "\<exists>r. placement_outcome es index i r"
  using assms(2,3)
proof (induction rule: depth_of.induct)
  case (depth_root i)
  then have "ep_placement (es ! i) = None"
    using assms(1) by (auto simp: next_index_def next_total_def placement_next_def)
  then show ?case using unplaced by blast
next
  case (depth_child i a n)
  then obtain pl where pl: "ep_placement (es ! i) = Some pl" "bm_get index (pl_anchor pl) = Some a" "a < length es"
    using assms(1) by (auto simp: next_index_def next_total_def placement_next_def)
  with depth_child obtain r where "placement_outcome es index a r" by auto
  then show ?case using anchor_fails [OF pl(1,2)] placed [OF pl(1,2)] by (cases r) blast+
qed

text \<open>
  The invariant of the recursion: a plan whose flag is set holds its outcome, every other
  one is unchanged.
\<close>

definition settled :: "entity_plan list \<Rightarrow> key_index \<Rightarrow> nat \<Rightarrow> bool \<Rightarrow> entity_plan \<Rightarrow> bool" where
  "settled es index i flag p = (if flag then placement_outcome es index i (Inr p) else p = es ! i)"

definition placement_inv :: "entity_plan list \<Rightarrow> key_index \<Rightarrow> placement_state \<Rightarrow> bool" where
  "placement_inv es index st \<longleftrightarrow>
     length (fst st) = length es \<and> length (snd st) = length es \<and>
     (\<forall>i<length es. settled es index i (snd st ! i) (fst st ! i))"

definition outcome_result :: "placement_resolution_failure + entity_plan \<Rightarrow> placement_resolution_failure fault + unit" where
  "outcome_result r = (case r of Inl f \<Rightarrow> Inl (Err f) | Inr _ \<Rightarrow> Inr ())"

lemma outcome_result_simps [simp]: "outcome_result (Inl f) = Inl (Err f)" "outcome_result (Inr p) = Inr ()"
  by (simp_all add: outcome_result_def)

lemma placement_inv_set:
  assumes "placement_inv es index (ps, flags)" "placement_outcome es index i (Inr p)"
  shows "placement_inv es index (ps[i := p], flags[i := True])"
proof -
  have "settled es index i True p" using assms(2) by (simp add: settled_def)
  then have "settled es index j (flags[i := True] ! j) (ps[i := p] ! j)" if "j < length es" for j
    using assms(1) that by (cases "j = i") (simp_all add: placement_inv_def)
  with assms(1) show ?thesis by (simp add: placement_inv_def)
qed

lemma placement_inv_nth:
  assumes "placement_inv es index (ps, flags)" "i < length es"
  shows "i < length ps" "i < length flags" "flags ! i \<Longrightarrow> placement_outcome es index i (Inr (ps ! i))"
    "\<not> flags ! i \<Longrightarrow> ps ! i = es ! i"
  using assms by (auto simp: placement_inv_def settled_def)

definition resolves :: "entity_plan list \<Rightarrow> key_index \<Rightarrow> nat \<Rightarrow> placement_state
    \<Rightarrow> placement_resolution_failure + entity_plan \<Rightarrow> bool" where
  "resolves es index i st r \<longleftrightarrow>
     (\<exists>st'. resolve_placement index i st = Some (outcome_result r, st') \<and> placement_inv es index st' \<and>
       (\<forall>p. r = Inr p \<longrightarrow> snd st' ! i) \<and> (\<forall>j. snd st ! j \<longrightarrow> snd st' ! j))"

lemma resolve_flagged:
  assumes "placement_inv es index (ps, flags)" "i < length es" "flags ! i" "placement_outcome es index i r"
  shows "resolves es index i (ps, flags) r"
proof -
  note nth = placement_inv_nth [OF assms(1,2)]
  have "r = Inr (ps ! i)" by (rule placement_outcome_unique [OF nth(3) [OF assms(3)] assms(4)])
  moreover have "resolve_placement index i (ps, flags) = Some (Inr (), (ps, flags))"
    using nth assms(3) by (simp add: resolve_placement.simps [of index i])
  ultimately show ?thesis using assms(1,3) by (simp add: resolves_def)
qed

lemma resolve_unplaced:
  assumes "placement_inv es index (ps, flags)" "i < length es" "\<not> flags ! i" "ep_placement (es ! i) = None"
  shows "resolves es index i (ps, flags) (Inr (es ! i))"
proof -
  note nth = placement_inv_nth [OF assms(1,2)]
  have eq: "ps ! i = es ! i" by (rule nth(4) [OF assms(3)])
  have "placement_inv es index (ps[i := es ! i], flags[i := True])"
    by (rule placement_inv_set [OF assms(1) placement_outcome.unplaced [OF assms(4)]])
  then have "placement_inv es index (ps, flags[i := True])" by (simp flip: eq)
  moreover have "resolve_placement index i (ps, flags) = Some (Inr (), (ps, flags[i := True]))"
    using nth(1,2) assms(3,4) eq by (simp add: resolve_placement.simps [of index i])
  ultimately show ?thesis using nth(2) by (simp add: resolves_def nth_list_update)
qed

text \<open>Placing a subject again changes nothing: only the rest of its transform is read.\<close>

lemma place_subject_again: "place_subject s pl p = Inr s' \<Longrightarrow> place_subject s' pl p = Inr s'"
  by (cases "pl_kind pl")
    (auto simp: place_subject_def placed_translation_def Let_def is_unrotated_def map_sum_def
      split: if_splits sum.splits)

lemma resolve_anchored:
  assumes inv: "placement_inv es index (ps, flags)" "i < length es" "\<not> flags ! i"
    and pl: "ep_placement (es ! i) = Some pl" "bm_get index (pl_anchor pl) = Some a" "a < length es"
    and anchor: "resolves es index a (ps, flags) r" "placement_outcome es index a r"
    and i: "placement_outcome es index i r'"
  shows "resolves es index i (ps, flags) r'"
proof -
  note nth = placement_inv_nth [OF inv(1,2)]
  have eq: "ps ! i = es ! i" by (rule nth(4) [OF inv(3)])
  from anchor(1) obtain qs flags' where q: "resolve_placement index a (ps, flags) = Some (outcome_result r, (qs, flags'))"
      "placement_inv es index (qs, flags')" "\<forall>p. r = Inr p \<longrightarrow> flags' ! a" "\<forall>j. flags ! j \<longrightarrow> flags' ! j"
    by (auto simp: resolves_def)
  have step: "resolve_placement index i (ps, flags) =
      (case outcome_result r of
         Inl e \<Rightarrow> Some (Inl e, (qs, flags'))
       | Inr _ \<Rightarrow>
           (if a \<ge> length qs \<or> i \<ge> length qs \<or> i \<ge> length flags' then Some (Inl Panic, (qs, flags'))
            else (case place_subject (qs ! i) pl (qs ! a) of
                Inl failure \<Rightarrow> Some (Inl (Err failure), (qs, flags'))
              | Inr subject \<Rightarrow> Some (Inr (), (qs[i := subject], flags'[i := True])))))"
    using nth(1,2) inv(3) pl(1,2) eq q(1)
    by (simp add: resolve_placement.simps [of index i] split: sum.split)
  show ?thesis
  proof (cases r)
    case (Inl f)
    then have "r' = Inl f"
      using placement_outcome_unique [OF anchor_fails [OF pl(1,2)] i] anchor(2) by blast
    with Inl step q(2,4) show ?thesis by (simp add: resolves_def)
  next
    case (Inr p)
    note qn = placement_inv_nth [OF q(2)]
    have p: "qs ! a = p"
      using qn(3) [OF pl(3)] q(3) Inr anchor(2) placement_outcome_unique by blast
    have outcome: "placement_outcome es index i (place_subject (es ! i) pl p)"
      using placed [OF pl(1,2)] anchor(2) Inr by blast
    then have r': "r' = place_subject (es ! i) pl p" using i by (rule placement_outcome_unique)
    show ?thesis
    proof (cases "flags' ! i")
      case True
      have "place_subject (es ! i) pl p = Inr (qs ! i)"
        by (rule placement_outcome_unique [OF qn(3) [OF inv(2) True] outcome])
      moreover have "flags'[i := True] = flags'"
        using True qn(2) [OF inv(2)] by (simp add: list_update_same_conv)
      ultimately show ?thesis
        using place_subject_again [of "es ! i" pl p] step Inr p qn(1) [OF pl(3)] qn(1,2) [OF inv(2)] r' q(2,4) True
        by (simp add: resolves_def)
    next
      case False
      then have "qs ! i = es ! i" by (rule qn(4) [OF inv(2)])
      with step Inr p qn(1) [OF pl(3)] qn(1,2) [OF inv(2)] placement_inv_set [OF q(2)] outcome r' q(2,4)
      show ?thesis by (cases "place_subject (es ! i) pl p") (auto simp: resolves_def nth_list_update)
    qed
  qed
qed

lemma placement_next_anchor:
  assumes "next_total es index placement_next" "i < length es" "ep_placement (es ! i) = Some pl"
  shows "\<exists>a<length es. bm_get index (pl_anchor pl) = Some a"
  using assms by (fastforce simp: next_total_def placement_next_def)

lemma resolve_placement_ok:
  assumes "placement_outcome es index i r" "next_total es index placement_next" "i < length es"
    and "placement_inv es index st"
  shows "resolves es index i st r"
  using assms(1,3,4)
proof (induction arbitrary: st rule: placement_outcome.induct)
  case (unplaced i)
  obtain ps flags where st: "st = (ps, flags)" by (cases st)
  show ?case
    using unplaced placement_outcome.unplaced [of es i index] resolve_flagged [of es index ps flags i]
      resolve_unplaced [of es index ps flags i] unfolding st by blast
next
  case (anchor_fails i pl a f)
  obtain ps flags where st: "st = (ps, flags)" by (cases st)
  have out: "placement_outcome es index i (Inl f)"
    using anchor_fails.hyps by (rule placement_outcome.anchor_fails)
  have "a < length es"
    using placement_next_anchor [OF assms(2) anchor_fails.prems(1) anchor_fails.hyps(1)] anchor_fails.hyps(2) by auto
  then show ?case
    using anchor_fails out resolve_flagged [of es index ps flags i] resolve_anchored [of es index ps flags i pl a "Inl f" "Inl f"]
    unfolding st by blast
next
  case (placed i pl a anchor)
  obtain ps flags where st: "st = (ps, flags)" by (cases st)
  have out: "placement_outcome es index i (place_subject (es ! i) pl anchor)"
    using placed.hyps by (rule placement_outcome.placed)
  have "a < length es"
    using placement_next_anchor [OF assms(2) placed.prems(1) placed.hyps(1)] placed.hyps(2) by auto
  then show ?case
    using placed out resolve_flagged [of es index ps flags i]
      resolve_anchored [of es index ps flags i pl a "Inr anchor" "place_subject (es ! i) pl anchor"]
    unfolding st by blast
qed

definition outcome_issues :: "placement_resolution_failure + entity_plan \<Rightarrow> unresolved_constraint list" where
  "outcome_issues r = (case r of Inl f \<Rightarrow> [placement_issue f] | Inr _ \<Rightarrow> [])"

lemma resolve_each_ok:
  assumes total: "next_total es index placement_next"
    and out: "\<And>i. i < length es \<Longrightarrow> placement_outcome es index i (outc i)"
    and "set is \<subseteq> {..<length es}" "placement_inv es index st"
  shows "\<exists>st'. resolve_each index is st un = Inr (fst st', un @ concat (map (\<lambda>i. outcome_issues (outc i)) is)) \<and>
    placement_inv es index st' \<and> (\<forall>i. snd st ! i \<longrightarrow> snd st' ! i) \<and>
    (\<forall>i\<in>set is. (\<exists>p. outc i = Inr p) \<longrightarrow> snd st' ! i)"
  using assms(3,4)
proof (induction "is" arbitrary: st un)
  case (Cons i "is")
  then have i: "i < length es" by simp
  from resolve_placement_ok [OF out [OF i] total i Cons.prems(2)] obtain st1 where
      st1: "resolve_placement index i st = Some (outcome_result (outc i), st1)" "placement_inv es index st1"
      "\<forall>p. outc i = Inr p \<longrightarrow> snd st1 ! i" "\<forall>j. snd st ! j \<longrightarrow> snd st1 ! j"
    by (auto simp: resolves_def)
  have eq: "resolve_each index (i # is) st un = resolve_each index is st1 (un @ outcome_issues (outc i))"
    by (cases "outc i") (simp_all add: st1(1) outcome_issues_def)
  have "set is \<subseteq> {..<length es}" using Cons.prems(1) by simp
  from Cons.IH [OF this st1(2), of "un @ outcome_issues (outc i)"] obtain st' where
      "resolve_each index is st1 (un @ outcome_issues (outc i)) =
         Inr (fst st', (un @ outcome_issues (outc i)) @ concat (map (\<lambda>i. outcome_issues (outc i)) is))"
      "placement_inv es index st'" "\<forall>i. snd st1 ! i \<longrightarrow> snd st' ! i"
      "\<forall>i\<in>set is. (\<exists>p. outc i = Inr p) \<longrightarrow> snd st' ! i"
    by blast
  with st1(3,4) show ?case unfolding eq by (intro exI [of _ st']) auto
qed auto

text \<open>
  All placements together: the issues are those of the reference, and without issues every
  plan is its outcome.
\<close>

lemma resolve_placements_ok:
  assumes total: "next_total es index placement_next"
    and ends: "\<And>i. i < length es \<Longrightarrow> \<exists>n. depth_of (next_index es index placement_next) i n"
  shows "\<exists>outc ps. (\<forall>i<length es. placement_outcome es index i (outc i)) \<and>
    resolve_placements es index un = Inr (ps, un @ concat (map (\<lambda>i. outcome_issues (outc i)) [0..<length es])) \<and>
    length ps = length es \<and>
    (concat (map (\<lambda>i. outcome_issues (outc i)) [0..<length es]) = [] \<longrightarrow> (\<forall>i<length es. outc i = Inr (ps ! i)))"
proof -
  have "\<forall>i. \<exists>r. i < length es \<longrightarrow> placement_outcome es index i r"
    using ends placement_outcome_exists [OF total] by blast
  then obtain outc where out: "\<And>i. i < length es \<Longrightarrow> placement_outcome es index i (outc i)" by metis
  have "placement_inv es index (es, replicate (length es) False)"
    by (simp add: placement_inv_def settled_def)
  moreover have "set [0..<length es] \<subseteq> {..<length es}" by auto
  ultimately obtain st' where
      st': "resolve_placements es index un = Inr (fst st', un @ concat (map (\<lambda>i. outcome_issues (outc i)) [0..<length es]))"
      "placement_inv es index st'" "\<forall>i\<in>set [0..<length es]. (\<exists>p. outc i = Inr p) \<longrightarrow> snd st' ! i"
    using resolve_each_ok [OF total out, of "[0..<length es]" _ un] unfolding resolve_placements_def by blast
  obtain ps flags where "st' = (ps, flags)" by (cases st')
  with st' have *: "resolve_placements es index un = Inr (ps, un @ concat (map (\<lambda>i. outcome_issues (outc i)) [0..<length es]))"
      "placement_inv es index (ps, flags)" "\<forall>i<length es. (\<exists>p. outc i = Inr p) \<longrightarrow> flags ! i"
    by simp_all
  have "outc i = Inr (ps ! i)" if i: "i < length es" and none: "outcome_issues (outc i) = []" for i
  proof -
    have "\<exists>p. outc i = Inr p" using none by (simp add: outcome_issues_def split: sum.splits)
    then have "placement_outcome es index i (Inr (ps ! i))"
      using *(3) i placement_inv_nth(3) [OF *(2) i] by blast
    from placement_outcome_unique [OF this out [OF i]] show ?thesis .
  qed
  then have "concat (map (\<lambda>i. outcome_issues (outc i)) [0..<length es]) = [] \<longrightarrow> (\<forall>i<length es. outc i = Inr (ps ! i))"
    by simp
  moreover have "length ps = length es" using *(2) by (simp add: placement_inv_def)
  ultimately show ?thesis using out *(1) by blast
qed

end
