(* ===== verification/Compiler_Issues.thy ===== *)
theory Compiler_Issues
  imports Compiler_Plan
begin

text \<open>
  The outcome of the relation passes as a whole. They always return; every issue they report
  names one relation of the request, and no relation is named by two different issues; and
  when they report nothing, the plans carry exactly the requested relations, without cycles,
  and are placed.
\<close>

section \<open>Plans with relations\<close>

definition related :: "imagination_relation list \<Rightarrow> entity_plan list \<Rightarrow> bool" where
  "related rs es \<longleftrightarrow>
     distinct (map ep_key es) \<and>
     (\<forall>p\<in>set es. plan_related (ep_key ` set es) p \<and> (carries_relation p \<longrightarrow> (\<exists>n. assigned rs p n)))"

lemma relations_inv_related:
  assumes "relations_inv es0 rs es news" "distinct (map ep_key es0)"
  shows "related rs es" "key_index_of es0 = key_index_of es"
proof -
  have keys: "map ep_key es = map ep_key es0"
    by (rule same_keys) (use assms(1) in \<open>simp add: relations_inv_def\<close>)
  then have "ep_key ` set es = ep_key ` set es0" by (metis list.set_map)
  with assms keys show "related rs es" by (simp add: related_def relations_inv_def)
  show "key_index_of es0 = key_index_of es" by (rule key_index_same [OF keys [symmetric]])
qed

lemma relatedD:
  assumes "related rs es" "p \<in> set es"
  shows "plan_related (ep_key ` set es) p" "carries_relation p \<Longrightarrow> \<exists>n. assigned rs p n"
  using assms by (auto simp: related_def)

lemma related_index:
  assumes "related rs es" "k \<in> ep_key ` set es"
  shows "\<exists>j<length es. bm_get (key_index_of es) k = Some j \<and> ep_key (es ! j) = k"
proof -
  have d: "distinct (map ep_key es)" using assms(1) by (simp add: related_def)
  from assms(2) key_index_None [OF d, of k] obtain j where "bm_get (key_index_of es) k = Some j" by blast
  then show ?thesis using key_index_get [OF d] by blast
qed

lemma related_parent_total: "related rs es \<Longrightarrow> next_total es (key_index_of es) parent_next"
  unfolding next_total_def
proof (intro allI impI)
  fix i
  assume r: "related rs es" and i: "i < length es"
  note pr = relatedD(1) [OF r nth_mem [OF i]]
  show "parent_next (es ! i) = Some None \<or>
      (\<exists>k r j. parent_next (es ! i) = Some (Some (k, r)) \<and> bm_get (key_index_of es) k = Some j \<and> j < length es)"
  proof (cases "ep_parent (es ! i)")
    case None
    then show ?thesis by (simp add: parent_next_def)
  next
    case (Some k)
    with pr obtain q where "ep_parent_relation (es ! i) = Some q" "k \<in> ep_key ` set es"
      by (auto simp: plan_related_def)
    with Some related_index [OF r] show ?thesis by (force simp: parent_next_def)
  qed
qed

lemma related_placement_total: "related rs es \<Longrightarrow> next_total es (key_index_of es) placement_next"
  unfolding next_total_def
proof (intro allI impI)
  fix i
  assume r: "related rs es" and i: "i < length es"
  note pr = relatedD(1) [OF r nth_mem [OF i]]
  show "placement_next (es ! i) = Some None \<or>
      (\<exists>k r j. placement_next (es ! i) = Some (Some (k, r)) \<and> bm_get (key_index_of es) k = Some j \<and> j < length es)"
  proof (cases "ep_placement (es ! i)")
    case None
    then show ?thesis by (simp add: placement_next_def)
  next
    case (Some pl)
    with pr have "pl_anchor pl \<in> ep_key ` set es" by (auto simp: plan_related_def)
    with Some related_index [OF r] show ?thesis by (force simp: placement_next_def)
  qed
qed

text \<open>The relation number of a plan identifies it.\<close>

lemma relation_number_inject:
  assumes r: "related rs es" "length rs \<le> 2 ^ 32" and p: "p \<in> set es" "carries_relation p"
    and q: "q \<in> set es" "carries_relation q" and eq: "relation_number p = relation_number q"
  shows "p = q"
proof -
  from relatedD [OF r(1) p(1)] p(2) obtain m where m: "assigned rs p m" by blast
  from relatedD [OF r(1) q(1)] q(2) obtain n where n: "assigned rs q n" by blast
  have "m < length rs" "n < length rs" using m n by (simp_all add: assigned_def)
  moreover have "(len_or_max m :: u32) = len_or_max n"
    using eq assigned_number [OF m relatedD(1) [OF r(1) p(1)]] assigned_number [OF n relatedD(1) [OF r(1) q(1)]]
    by simp
  ultimately have "m = n" using r(2) len_or_max_inject [of m n, where 'a = 32] by simp
  then have "ep_key p = ep_key q" using assigned_subject [OF m] assigned_subject [OF n] by simp
  then show ?thesis using r(1) p(1) q(1) by (auto simp: related_def distinct_map dest: inj_onD)
qed

section \<open>Issues that come from a plan\<close>

text \<open>An issue of a plan carries the number and the texts of the relation assigned to it.\<close>

definition plan_issue :: "unresolved_constraint_code \<Rightarrow> entity_plan \<Rightarrow> unresolved_constraint" where
  "plan_issue code p =
     relation_issue code (the (relation_number p)) (ep_key p)
       (case ep_parent p of Some parent \<Rightarrow> parent | None \<Rightarrow> pl_anchor (the (ep_placement p)))"

lemma plan_issue_for:
  assumes "plan_related keys p" "assigned rs p n" "code \<noteq> RequiredEntityMissing" "code \<noteq> RequiredEntityPresent"
  shows "issue_for rs (plan_issue code p) n"
proof (cases "rs ! n")
  case (RelParent child parent)
  with assms show ?thesis
    by (auto simp: assigned_number [OF assms(2,1)] plan_issue_def issue_for_def assigned_def)
next
  case (RelAbove subject anchor clearance)
  with assms have "ep_parent p = None" by (auto simp: assigned_def plan_related_def)
  with RelAbove assms show ?thesis
    by (auto simp: assigned_number [OF assms(2,1)] plan_issue_def issue_for_def assigned_def)
next
  case (RelRightOf subject anchor gap)
  with assms have "ep_parent p = None" by (auto simp: assigned_def plan_related_def)
  with RelRightOf assms show ?thesis
    by (auto simp: assigned_number [OF assms(2,1)] plan_issue_def issue_for_def assigned_def)
qed

lemma plan_issue_number:
  assumes "plan_related keys p" "carries_relation p"
  shows "un_relation_index (plan_issue code p) = relation_number p"
proof -
  have "relation_number p \<noteq> None"
    using assms by (auto simp: plan_related_def carries_relation_def relation_number_def split: option.splits)
  then show ?thesis by (simp add: plan_issue_def relation_issue_def)
qed

lemma anchor_issue_plan:
  assumes "plan_related keys p" "ep_placement p \<noteq> None"
  shows "anchor_issue p = plan_issue ConflictingRelation p"
  using assms by (auto simp: plan_related_def anchor_issue_def plan_issue_def relation_number_def)

lemma parent_cycle_issue_plan:
  assumes "related rs es" "cycle_issue es index parent_next code u"
  shows "\<exists>p\<in>set es. ep_parent p \<noteq> None \<and> u = plan_issue code p"
proof -
  from assms(2) obtain i k r where i: "i < length es" "parent_next (es ! i) = Some (Some (k, r))"
      "u = relation_issue code r (ep_key (es ! i)) k" by (auto simp: cycle_issue_def)
  then have "ep_parent (es ! i) = Some k" "ep_parent_relation (es ! i) = Some r"
    by (auto simp: parent_next_def split: option.splits)
  with i show ?thesis
    by (intro bexI [of _ "es ! i"]) (simp_all add: plan_issue_def relation_number_def)
qed

lemma placement_cycle_issue_plan:
  assumes "related rs es" "cycle_issue es (key_index_of es) placement_next code u"
  shows "\<exists>p\<in>set es. ep_placement p \<noteq> None \<and> \<not> anchor_parented es (key_index_of es) p \<and> u = plan_issue code p"
proof -
  from assms(2) obtain i k r j where i: "i < length es" "placement_next (es ! i) = Some (Some (k, r))"
      "u = relation_issue code r (ep_key (es ! i)) k" "bm_get (key_index_of es) k = Some j"
      "next_index es (key_index_of es) placement_next j \<noteq> None"
    unfolding cycle_issue_def by blast
  then obtain pl where pl: "ep_placement (es ! i) = Some pl" "k = pl_anchor pl" "r = pl_relation_index pl"
    by (auto simp: placement_next_def)
  have j: "j < length es" "ep_placement (es ! j) \<noteq> None"
    using i(5) by (auto simp: next_index_def placement_next_def split: if_splits option.splits)
  then have "ep_parent (es ! j) = None"
    using relatedD(1) [OF assms(1) nth_mem [OF j(1)]] by (auto simp: plan_related_def)
  then have "\<not> anchor_parented es (key_index_of es) (es ! i)"
    using pl i(4) by (auto simp: anchor_parented_def)
  moreover have "ep_parent (es ! i) = None" "ep_parent_relation (es ! i) = None"
    using pl relatedD(1) [OF assms(1) nth_mem [OF i(1)]] by (auto simp: plan_related_def)
  ultimately show ?thesis using i pl
    by (intro bexI [of _ "es ! i"]) (simp_all add: plan_issue_def relation_number_def)
qed

section \<open>One issue per relation\<close>

definition relation_issues :: "imagination_relation list \<Rightarrow> unresolved_constraint list \<Rightarrow> bool" where
  "relation_issues rs us \<longleftrightarrow>
     (\<forall>u\<in>set us. \<exists>n. issue_for rs u n) \<and>
     (length rs \<le> 2 ^ 32 \<longrightarrow> (\<forall>u\<in>set us. \<forall>w\<in>set us. un_relation_index u = un_relation_index w \<longrightarrow> u = w))"

text \<open>Issues of plans where the code is a function of the plan.\<close>

lemma plan_issues_ok:
  assumes r: "related rs es"
    and us: "\<And>u. u \<in> set us \<Longrightarrow> \<exists>p\<in>set es. carries_relation p \<and> u = plan_issue (code p) p"
    and code: "\<And>p. code p \<noteq> RequiredEntityMissing" "\<And>p. code p \<noteq> RequiredEntityPresent"
  shows "relation_issues rs us"
proof -
  have "\<exists>n. issue_for rs u n" if "u \<in> set us" for u
  proof -
    from us [OF that] obtain p where p: "p \<in> set es" "carries_relation p" "u = plan_issue (code p) p" by blast
    with relatedD [OF r p(1)] plan_issue_for code show ?thesis by blast
  qed
  moreover have "u = w" if len: "length rs \<le> 2 ^ 32" and u: "u \<in> set us" and w: "w \<in> set us"
    and eq: "un_relation_index u = un_relation_index w" for u w
  proof -
    from us [OF u] obtain p where p: "p \<in> set es" "carries_relation p" "u = plan_issue (code p) p" by blast
    from us [OF w] obtain q where q: "q \<in> set es" "carries_relation q" "w = plan_issue (code q) q" by blast
    have "relation_number p = relation_number q"
      using eq p(2,3) q(2,3) plan_issue_number [OF relatedD(1) [OF r p(1)]] plan_issue_number [OF relatedD(1) [OF r q(1)]]
      by simp
    from relation_number_inject [OF r len p(1,2) q(1,2) this] p(3) q(3) show ?thesis by simp
  qed
  ultimately show ?thesis unfolding relation_issues_def by blast
qed

lemma relation_issues_append:
  assumes "relation_issues rs us" "relation_issues rs ws"
    and "\<And>u w. length rs \<le> 2 ^ 32 \<Longrightarrow> u \<in> set us \<Longrightarrow> w \<in> set ws \<Longrightarrow> un_relation_index u \<noteq> un_relation_index w"
  shows "relation_issues rs (us @ ws)"
  using assms unfolding relation_issues_def set_append Ball_def Un_iff by metis

text \<open>The code with which the passes before the placements report a plan.\<close>

definition report_code :: "entity_plan list \<Rightarrow> entity_plan \<Rightarrow> unresolved_constraint_code" where
  "report_code es p =
     (if ep_parent p \<noteq> None then HierarchyCycleCode
      else if anchor_parented es (key_index_of es) p then ConflictingRelation else PlacementCycle)"

lemma marked_issues_ok:
  assumes inv: "relations_inv es0 rs es news" "length rs \<le> 2 ^ 32 \<longrightarrow> numbers_inv es news"
    and keys: "distinct (map ep_key es0)"
    and c1: "\<forall>u\<in>set c1. cycle_issue es (key_index_of es) parent_next HierarchyCycleCode u"
    and c2: "\<forall>u\<in>set c2. cycle_issue es (key_index_of es) placement_next PlacementCycle u"
  shows "relation_issues rs (news @ map anchor_issue (filter (anchor_parented es (key_index_of es)) es) @ c1 @ c2)"
proof -
  let ?plan = "map anchor_issue (filter (anchor_parented es (key_index_of es)) es) @ c1 @ c2"
  have r: "related rs es" by (rule relations_inv_related [OF inv(1) keys])
  have plan: "\<exists>p\<in>set es. carries_relation p \<and> u = plan_issue (report_code es p) p" if "u \<in> set ?plan" for u
  proof -
    from that consider p where "p \<in> set es" "anchor_parented es (key_index_of es) p" "u = anchor_issue p"
      | "u \<in> set c1" | "u \<in> set c2" by auto
    then show ?thesis
    proof cases
      case 1
      then have pl: "ep_placement p \<noteq> None" by (auto simp: anchor_parented_def)
      with relatedD(1) [OF r 1(1)] have "ep_parent p = None" by (auto simp: plan_related_def)
      with 1 pl anchor_issue_plan [OF relatedD(1) [OF r 1(1)] pl] show ?thesis
        by (intro bexI [of _ p]) (simp_all add: report_code_def carries_relation_def)
    next
      case 2
      with c1 parent_cycle_issue_plan [OF r] show ?thesis by (fastforce simp: report_code_def carries_relation_def)
    next
      case 3
      with c2 placement_cycle_issue_plan [OF r] obtain p where p: "p \<in> set es" "ep_placement p \<noteq> None"
          "\<not> anchor_parented es (key_index_of es) p" "u = plan_issue PlacementCycle p" by blast
      with relatedD(1) [OF r p(1)] have "ep_parent p = None" by (auto simp: plan_related_def)
      with p show ?thesis by (intro bexI [of _ p]) (simp_all add: report_code_def carries_relation_def)
    qed
  qed
  have "relation_issues rs news"
    using inv unfolding relation_issues_def relations_inv_def numbers_inv_def
    by (auto simp: distinct_map dest: inj_onD)
  moreover have "relation_issues rs ?plan"
    by (rule plan_issues_ok [OF r plan]) (simp_all add: report_code_def)
  moreover have "un_relation_index u \<noteq> un_relation_index w"
    if len: "length rs \<le> 2 ^ 32" and u: "u \<in> set news" and w: "w \<in> set ?plan" for u w
  proof -
    from plan [OF w] obtain p where p: "p \<in> set es" "carries_relation p" "w = plan_issue (report_code es p) p" by blast
    with plan_issue_number [OF relatedD(1) [OF r p(1)] p(2)] inv(2) len u show ?thesis
      by (auto simp: numbers_inv_def)
  qed
  ultimately show ?thesis by (rule relation_issues_append)
qed

section \<open>Issues of the placements\<close>

lemma place_subject_Inl:
  assumes "place_subject s pl p = Inl f"
  shows "\<exists>code. f = placement_failure code s pl \<and> code \<noteq> RequiredEntityMissing \<and> code \<noteq> RequiredEntityPresent"
  using assms by (auto simp: place_subject_def map_sum_def split: if_splits sum.splits)

text \<open>A failure is the failure of one plan, on the way from the start to it.\<close>

lemma placement_outcome_failure:
  assumes "placement_outcome es index i r" "next_total es index placement_next" "i < length es" "r = Inl f"
  shows "\<exists>s<length es. \<exists>pl code. ep_placement (es ! s) = Some pl \<and> placement_outcome es index s (Inl f) \<and>
    f = placement_failure code (es ! s) pl \<and> code \<noteq> RequiredEntityMissing \<and> code \<noteq> RequiredEntityPresent"
  using assms(1,3,4)
proof (induction rule: placement_outcome.induct)
  case (anchor_fails i pl a g)
  with placement_next_anchor [OF assms(2) anchor_fails.prems(1) anchor_fails.hyps(1)] show ?case by auto
next
  case (placed i pl a anchor)
  then have "placement_outcome es index i (Inl f)" using placement_outcome.placed by metis
  moreover from placed.prems(2) obtain code where
      "f = placement_failure code (es ! i) pl" "code \<noteq> RequiredEntityMissing" "code \<noteq> RequiredEntityPresent"
    using place_subject_Inl by blast
  ultimately show ?case using placed.hyps(1) placed.prems(1) by blast
qed simp

lemma placement_issue_plan:
  assumes "plan_related keys p" "ep_placement p = Some pl" "f = placement_failure code p pl"
  shows "placement_issue f = plan_issue (prf_code f) p"
  using assms
  by (auto simp: plan_related_def placement_failure_def placement_issue_def plan_issue_def
      relation_issue_def relation_number_def)

lemma placement_issues_ok:
  assumes r: "related rs es"
    and out: "\<And>i. i < length es \<Longrightarrow> placement_outcome es (key_index_of es) i (outc i)"
  shows "relation_issues rs (concat (map (\<lambda>i. outcome_issues (outc i)) [0..<length es]))"
proof -
  note total = related_placement_total [OF r]
  have d: "distinct (map ep_key es)" using r by (simp add: related_def)
  define code where "code p = (case outc (the (bm_get (key_index_of es) (ep_key p))) of
      Inl f \<Rightarrow> if prf_code f = RequiredEntityMissing \<or> prf_code f = RequiredEntityPresent
              then PlacementCycle else prf_code f
    | Inr _ \<Rightarrow> PlacementCycle)" for p :: entity_plan
  show ?thesis
  proof (rule plan_issues_ok [OF r, of _ code])
    fix u
    assume "u \<in> set (concat (map (\<lambda>i. outcome_issues (outc i)) [0..<length es]))"
    then obtain i where "i < length es" "u \<in> set (outcome_issues (outc i))" by auto
    then obtain f where i: "i < length es" "outc i = Inl f" "u = placement_issue f"
      by (cases "outc i") (simp_all add: outcome_issues_def)
    from placement_outcome_failure [OF out [OF i(1)] total i(1,2)] obtain s pl c where
        s: "s < length es" "ep_placement (es ! s) = Some pl" "placement_outcome es (key_index_of es) s (Inl f)"
        "f = placement_failure c (es ! s) pl" "c \<noteq> RequiredEntityMissing" "c \<noteq> RequiredEntityPresent"
      by blast
    have "outc s = Inl f" by (rule placement_outcome_unique [OF s(3) out [OF s(1)]])
    moreover have "bm_get (key_index_of es) (ep_key (es ! s)) = Some s" using key_index_get [OF d] s(1) by blast
    ultimately have "code (es ! s) = prf_code f"
      using s(4-6) by (simp add: code_def placement_failure_def)
    moreover have "u = plan_issue (prf_code f) (es ! s)"
      unfolding i(3) by (rule placement_issue_plan [OF relatedD(1) [OF r nth_mem [OF s(1)]] s(2,4)])
    ultimately show "\<exists>p\<in>set es. carries_relation p \<and> u = plan_issue (code p) p"
      using s(1,2) by (intro bexI [of _ "es ! s"]) (simp_all add: carries_relation_def)
  qed (auto simp: code_def split: sum.splits)
qed

section \<open>The passes together\<close>

text \<open>
  What the plans are when nothing was reported: the relations \<open>rs\<close> all assigned, the parents
  without a cycle, and every plan placed.
\<close>

definition resolved_plans ::
    "entity_plan list \<Rightarrow> imagination_relation list \<Rightarrow> entity_plan list \<Rightarrow> entity_plan list \<Rightarrow> bool" where
  "resolved_plans es0 rs es ps \<longleftrightarrow>
     relations_inv es0 rs es [] \<and> length ps = length es \<and>
     (\<forall>i<length es. \<exists>n. depth_of (next_index es (key_index_of es) parent_next) i n) \<and>
     (\<forall>i<length es. placement_outcome es (key_index_of es) i (Inr (ps ! i))) \<and>
     (\<forall>p\<in>set es. \<not> anchor_parented es (key_index_of es) p)"

definition fresh_plans :: "entity_plan list \<Rightarrow> bool" where
  "fresh_plans es \<longleftrightarrow>
     distinct (map ep_key es) \<and>
     (\<forall>p\<in>set es. ep_parent p = None \<and> ep_parent_relation p = None \<and> ep_placement p = None)"

lemma relations_inv_start: "fresh_plans es \<Longrightarrow> relations_inv es [] es []"
  by (auto simp: fresh_plans_def relations_inv_def plan_related_def carries_relation_def)

lemma resolve_relations_ok:
  assumes fresh: "fresh_plans es0"
  shows "\<exists>ps us. resolve_relations v scene es0 = Inr (ps, check_scene_constraints v scene @ us) \<and>
    relation_issues (env_relations v) us \<and>
    (check_scene_constraints v scene @ us = [] \<longrightarrow> (\<exists>es. resolved_plans es0 (env_relations v) es ps))"
proof -
  let ?rs = "env_relations v" and ?un = "check_scene_constraints v scene"
  have keys: "distinct (map ep_key es0)" using fresh by (simp add: fresh_plans_def)
  from assign_relations_from_inv [OF relations_inv_start [OF fresh] keys, of ?rs ?un] obtain es news where
      a: "assign_relations v (key_index_of es0) (es0, ?un) = Some (es, ?un @ news)" "relations_inv es0 ?rs es news"
      "length ?rs \<le> 2 ^ 32 \<longrightarrow> numbers_inv es news"
    by (auto simp: assign_relations_def numbers_inv_def)
  note r = relations_inv_related [OF a(2) keys]
  let ?ix = "key_index_of es" and ?A = "map anchor_issue (filter (anchor_parented es (key_index_of es)) es)"
  have "reject_parented_placement_anchors es ?ix (?un @ news) = Some ((?un @ news) @ ?A)"
    unfolding reject_parented_placement_anchors_def
    by (rule reject_parented_anchors_eq)
      (metis in_set_conv_nth placement_next_anchor [OF related_placement_total [OF r(1)]])
  moreover from mark_relation_cycles_ok [OF related_parent_total [OF r(1)], of HierarchyCycleCode "(?un @ news) @ ?A"]
  obtain c1 where c1: "mark_relation_cycles es ?ix parent_next HierarchyCycleCode ((?un @ news) @ ?A) = Some (((?un @ news) @ ?A) @ c1)"
      "\<forall>u\<in>set c1. cycle_issue es ?ix parent_next HierarchyCycleCode u"
      "c1 = [] \<longrightarrow> (\<forall>i<length es. \<exists>n. depth_of (next_index es ?ix parent_next) i n)" by blast
  moreover from mark_relation_cycles_ok [OF related_placement_total [OF r(1)], of PlacementCycle "((?un @ news) @ ?A) @ c1"]
  obtain c2 where c2: "mark_relation_cycles es ?ix placement_next PlacementCycle (((?un @ news) @ ?A) @ c1) = Some ((((?un @ news) @ ?A) @ c1) @ c2)"
      "\<forall>u\<in>set c2. cycle_issue es ?ix placement_next PlacementCycle u"
      "c2 = [] \<longrightarrow> (\<forall>i<length es. \<exists>n. depth_of (next_index es ?ix placement_next) i n)" by blast
  ultimately have res: "resolve_relations v scene es0 =
      (if ?un @ news @ ?A @ c1 @ c2 = [] then resolve_placements es ?ix []
       else Inr (es, ?un @ news @ ?A @ c1 @ c2))"
    using a(1) by (simp add: resolve_relations_def mark_cycles_def r(2))
  have marked: "relation_issues ?rs (news @ ?A @ c1 @ c2)"
    by (rule marked_issues_ok [OF a(2,3) keys c1(2) c2(2)])
  show ?thesis
  proof (cases "?un @ news @ ?A @ c1 @ c2 = []")
    case False
    with res marked show ?thesis by (intro exI [of _ es] exI [of _ "news @ ?A @ c1 @ c2"]) auto
  next
    case True
    then have none: "news = []" "?A = []" "c1 = []" "c2 = []" "?un = []" by auto
    from resolve_placements_ok [OF related_placement_total [OF r(1)], of "[]"] c2(3) none(4)
    obtain outc ps where out: "\<forall>i<length es. placement_outcome es ?ix i (outc i)"
        "resolve_placements es ?ix [] = Inr (ps, concat (map (\<lambda>i. outcome_issues (outc i)) [0..<length es]))"
        "length ps = length es"
        "concat (map (\<lambda>i. outcome_issues (outc i)) [0..<length es]) = [] \<longrightarrow> (\<forall>i<length es. outc i = Inr (ps ! i))"
      unfolding append_Nil by blast
    let ?us = "concat (map (\<lambda>i. outcome_issues (outc i)) [0..<length es])"
    have "resolved_plans es0 ?rs es ps" if "?us = []"
    proof -
      have "\<forall>i<length es. placement_outcome es ?ix i (Inr (ps ! i))" using out(1,4) that by metis
      moreover have "\<forall>p\<in>set es. \<not> anchor_parented es ?ix p" using none(2) by (simp add: filter_empty_conv)
      ultimately show ?thesis using a(2) none c1(3) out(3) by (simp add: resolved_plans_def)
    qed
    moreover have "relation_issues ?rs ?us" by (rule placement_issues_ok [OF r(1)]) (use out(1) in blast)
    ultimately show ?thesis using res True out(2) none(5)
      by (intro exI [of _ ps] exI [of _ ?us]) auto
  qed
qed

end
