(* ===== verification/Compiler_Properties.thy ===== *)
theory Compiler_Properties
  imports Compiler_Issues
begin

text \<open>
  Properties of a whole compilation: it always returns; a patch it returns realises every
  relation of the request, with fresh identities; the patch passes validation because the
  request was checked against it in advance; and the result stays within the limits derived
  for it.
\<close>

section \<open>The constants\<close>

text \<open>The constants of the compiler pass the checks of their types, so building them cannot panic.\<close>

lemma compiler_constants:
  "finite_f32_new 0 = Inr (mk_finite_f32 0)" "finite_f32_new f32_one = Inr (mk_finite_f32 f32_one)"
  "positive_f32_new f32_one = Inr (mk_positive_f32 f32_one)"
  "unit_f32_new f32_0_7 = Inr (mk_unit_f32 f32_0_7)" "unit_f32_new f32_0_8 = Inr (mk_unit_f32 f32_0_8)"
  "unit_f32_new 0 = Inr (mk_unit_f32 0)" "unit_f32_new f32_one = Inr (mk_unit_f32 f32_one)"
  by (simp_all add: finite_f32_new_def positive_f32_new_def unit_f32_new_def float_value_new_def
      valid_positive_def valid_unit_def f32_compare_defs f32_value_def float_eval_defs)

section \<open>From plans to a patch\<close>

text \<open>A placed plan differs from the plan only in its translation.\<close>

definition moved :: "entity_plan \<Rightarrow> entity_plan \<Rightarrow> bool" where
  "moved p q \<longleftrightarrow> (\<exists>t. q = p\<lparr> ep_transform := (ep_transform p)\<lparr> lt_translation := t \<rparr> \<rparr>)"

lemma moved_refl: "moved p p"
  unfolding moved_def by (rule exI [of _ "lt_translation (ep_transform p)"]) simp

lemma moved_fields:
  assumes "moved p q"
  shows "ep_key q = ep_key p" "ep_entity_id q = ep_entity_id p" "ep_name q = ep_name p"
    "ep_primitive q = ep_primitive p" "ep_material q = ep_material p" "ep_parent q = ep_parent p"
    "ep_parent_relation q = ep_parent_relation p" "ep_placement q = ep_placement p"
    "lt_rotation (ep_transform q) = lt_rotation (ep_transform p)" "lt_scale (ep_transform q) = lt_scale (ep_transform p)"
  using assms by (auto simp: moved_def)

lemma place_subject_moved: "place_subject s pl p = Inr q \<Longrightarrow> moved s q"
  by (auto simp: place_subject_def moved_def map_sum_def split: if_splits sum.splits)

lemma placement_outcome_moved: "placement_outcome es index i (Inr q) \<Longrightarrow> moved (es ! i) q"
  by (erule placement_outcome.cases) (auto intro: moved_refl dest: place_subject_moved [OF sym])

lemma moved_lists:
  assumes "length ps = length es" "\<And>i. i < length es \<Longrightarrow> moved (es ! i) (ps ! i)"
  shows "map ep_key ps = map ep_key es" "map ep_entity_id ps = map ep_entity_id es"
    "map ep_parent ps = map ep_parent es" "map ep_name ps = map ep_name es"
  by (intro nth_equalityI; simp add: assms(1) moved_fields [OF assms(2)])+

definition id_of_key :: "entity_plan list \<Rightarrow> scene_text \<Rightarrow> stable_entity_id" where
  "id_of_key ps k = ep_entity_id (the (find (\<lambda>p. ep_key p = k) ps))"

definition reparents :: "entity_plan list \<Rightarrow> entity_plan list \<Rightarrow> scene_operation list" where
  "reparents ps qs =
     map (\<lambda>e. Reparent \<lparr> reparent_entity_id = ep_entity_id e,
                         reparent_parent_id = Some (id_of_key ps (the (ep_parent e))) \<rparr>)
       (filter (\<lambda>e. ep_parent e \<noteq> None) qs)"

lemma reparent_operations_eq:
  assumes "\<And>e k. e \<in> set qs \<Longrightarrow> ep_parent e = Some k \<Longrightarrow> k \<in> ep_key ` set ps"
  shows "reparent_operations ps qs = Some (reparents ps qs)"
  using assms
proof (induction qs)
  case (Cons e qs)
  have IH: "reparent_operations ps qs = Some (reparents ps qs)"
    by (rule Cons.IH) (rule Cons.prems, simp_all)
  show ?case
  proof (cases "ep_parent e")
    case None
    with IH show ?thesis by (simp add: reparents_def)
  next
    case (Some k)
    then have "find (\<lambda>p. ep_key p = k) ps \<noteq> None"
      using Cons.prems [of e k] by (auto simp: find_None_iff)
    with Some IH show ?thesis by (auto simp: reparents_def id_of_key_def)
  qed
qed (simp add: reparents_def)

definition patch_of_plans :: "imagination_envelope \<Rightarrow> entity_plan list \<Rightarrow> scene_patch" where
  "patch_of_plans v ps =
     \<lparr> patch_schema_version = env_schema_version v, patch_transaction_id = env_transaction_id v,
       patch_idempotency_key = env_idempotency_key v, patch_base_revision = env_base_revision v,
       patch_conflict_policy = RequireExactBase, patch_delivery = env_delivery v,
       patch_declared_budget = ibudget_patch (env_declared_budget v),
       patch_operations = map create_operation ps @ reparents ps ps \<rparr>"

lemma resolved_moved:
  assumes "resolved_plans es0 rs es ps"
  shows "length ps = length es" "i < length es \<Longrightarrow> moved (es ! i) (ps ! i)"
  using assms by (auto simp: resolved_plans_def intro: placement_outcome_moved)

lemma resolved_parents:
  assumes r: "resolved_plans es0 rs es ps" and d: "distinct (map ep_key es0)"
    and p: "p \<in> set ps" "ep_parent p = Some k"
  shows "k \<in> ep_key ` set ps" "k \<noteq> ep_key p"
proof -
  note mv = resolved_moved [OF r]
  have rel: "related rs es"
    using r relations_inv_related(1) [OF _ d] unfolding resolved_plans_def by blast
  from p(1) mv(1) obtain i where i: "i < length es" "p = ps ! i" by (metis in_set_conv_nth)
  note f = moved_fields [OF mv(2) [OF i(1)]]
  have "k \<in> ep_key ` set es \<and> k \<noteq> ep_key (es ! i)"
    using relatedD(1) [OF rel nth_mem [OF i(1)]] p(2) f(6) i(2) by (simp add: plan_related_def)
  moreover have "ep_key ` set ps = ep_key ` set es"
    using moved_lists(1) [OF mv] by (metis list.set_map)
  ultimately show "k \<in> ep_key ` set ps" "k \<noteq> ep_key p" using f(1) i(2) by simp_all
qed

lemma build_patch_resolved:
  assumes "resolved_plans es0 rs es ps" "distinct (map ep_key es0)"
  shows "build_patch v ps = Some (patch_of_plans v ps)"
proof -
  have "reparent_operations ps ps = Some (reparents ps ps)"
    by (rule reparent_operations_eq) (rule resolved_parents(1) [OF assms])
  then show ?thesis by (simp add: build_patch_def patch_of_plans_def)
qed

section \<open>A whole compilation\<close>

lemma planned_map2_fields:
  assumes "length ids = length xs"
  shows "map ep_key (map2 planned xs ids) = map ie_key xs" "map ep_entity_id (map2 planned xs ids) = ids"
    "map ep_name (map2 planned xs ids) = map entity_name xs"
  using assms by (auto intro!: nth_equalityI)

lemma planned_fresh:
  assumes "envelope_validate v limits = Inr ()" "length ids = length (env_entities v)"
  shows "fresh_plans (map2 planned (sorted_entities v) ids)"
proof -
  have "distinct (map ie_key (sorted_entities v))" using sorted_keys [OF assms(1)] by (rule strict_sorted_iff [THEN iffD1, THEN conjunct2])
  then have "distinct (map ep_key (map2 planned (sorted_entities v) ids))"
    using assms(2) by (simp only: planned_map2_fields(1) length_sorted_entities)
  moreover have "ep_parent p = None \<and> ep_parent_relation p = None \<and> ep_placement p = None"
    if "p \<in> set (map2 planned (sorted_entities v) ids)" for p
    using that by (auto simp del: set_zip)
  ultimately show ?thesis unfolding fresh_plans_def by blast
qed

text \<open>The shape of every compilation of a valid request that got its identities.\<close>

lemma compile_cases:
  assumes v: "envelope_validate v (cc_runtime_limits config) = Inr ()" "env_base_revision v = sv_revision scene"
    and plan: "plan_entities sha config v scene = Inr (es0, ds)"
  shows "\<exists>ids dss us ps. length ids = length (env_entities v) \<and> es0 = map2 planned (sorted_entities v) ids \<and>
      distinct ids \<and> (\<forall>i\<in>set ids. \<not> view_contains scene i) \<and> ds = concat dss \<and>
      list_all2 entity_decisions (sorted_entities v) dss \<and> relation_issues (env_relations v) us \<and>
      resolve_relations v scene es0 = Inr (ps, check_scene_constraints v scene @ us) \<and>
      (check_scene_constraints v scene @ us \<noteq> [] \<longrightarrow> compile_imagination sha json config v scene =
         map_err Err (complete_unresolved json config v scene ds (check_scene_constraints v scene @ us))) \<and>
      (check_scene_constraints v scene @ us = [] \<longrightarrow> (\<exists>es. resolved_plans es0 (env_relations v) es ps) \<and>
         compile_imagination sha json config v scene =
           map_err Err (complete_compiled json config v scene ps ds (patch_of_plans v ps)))"
proof -
  from plan_entities_ok [OF plan] obtain ids dss where
      ids: "length ids = length (env_entities v)" "es0 = map2 planned (sorted_entities v) ids"
        "distinct ids" "\<forall>i\<in>set ids. \<not> view_contains scene i" "ds = concat dss"
        "list_all2 entity_decisions (sorted_entities v) dss" by blast
  have fresh: "fresh_plans es0" unfolding ids(2) by (rule planned_fresh [OF v(1) ids(1)])
  then have d: "distinct (map ep_key es0)" by (simp add: fresh_plans_def)
  from resolve_relations_ok [OF fresh, of v scene] obtain ps us where
      r: "resolve_relations v scene es0 = Inr (ps, check_scene_constraints v scene @ us)"
        "relation_issues (env_relations v) us"
        "check_scene_constraints v scene @ us = [] \<longrightarrow> (\<exists>es. resolved_plans es0 (env_relations v) es ps)" by blast
  have "compile_imagination sha json config v scene =
      (if check_scene_constraints v scene @ us \<noteq> []
       then map_err Err (complete_unresolved json config v scene ds (check_scene_constraints v scene @ us))
       else bind_res (ok_or Panic (build_patch v ps)) (\<lambda>patch.
              map_err Err (complete_compiled json config v scene ps ds patch)))"
    using v plan r(1) by (simp add: compile_imagination_def)
  moreover have "build_patch v ps = Some (patch_of_plans v ps)" if "check_scene_constraints v scene @ us = []"
    using r(3) that build_patch_resolved [OF _ d] by blast
  ultimately show ?thesis using ids r
    by (intro exI [of _ ids] exI [of _ dss] exI [of _ us] exI [of _ ps]) auto
qed

lemma compile_steps:
  obtains (invalid) e where "compile_imagination sha json config v scene = Inl (Err (InvalidImagination e))"
      "envelope_validate v (cc_runtime_limits config) = Inl e"
    | (mismatch) "compile_imagination sha json config v scene =
        Inl (Err (SceneRevisionMismatch (env_base_revision v) (sv_revision scene)))"
      "env_base_revision v \<noteq> sv_revision scene"
    | (exhausted) e where "compile_imagination sha json config v scene = Inl (Err e)"
      "plan_entities sha config v scene = Inl e"
    | (planned) es0 ds where "envelope_validate v (cc_runtime_limits config) = Inr ()"
      "env_base_revision v = sv_revision scene" "plan_entities sha config v scene = Inr (es0, ds)"
proof (cases "envelope_validate v (cc_runtime_limits config)")
  case (Inl e)
  then show ?thesis by (intro invalid) (simp_all add: compile_imagination_def)
next
  case (Inr u)
  show ?thesis
  proof (cases "env_base_revision v = sv_revision scene")
    case False
    with Inr show ?thesis by (intro mismatch) (simp_all add: compile_imagination_def)
  next
    case True
    with Inr show ?thesis
      by (cases "plan_entities sha config v scene")
        (auto simp: compile_imagination_def intro: exhausted planned)
  qed
qed

text \<open>
  C24. Compilation returns for every input. It never panics, on an index, a missing key or an
  \<open>expect\<close>, and the recursion over placement anchors, which follows the request wherever it
  leads, always comes to an end: it is only entered when no cycle was found.
\<close>

theorem compile_returns:
  "compile_imagination sha json config v scene \<notin> {Inl Panic, Inl Diverges}"
proof (rule compile_steps [of sha json config v scene])
  fix es0 ds
  assume *: "envelope_validate v (cc_runtime_limits config) = Inr ()" "env_base_revision v = sv_revision scene"
    "plan_entities sha config v scene = Inr (es0, ds)"
  from compile_cases [OF *, of json] obtain r where "compile_imagination sha json config v scene = map_err Err r"
    by metis
  then show ?thesis by (cases r) auto
qed auto

section \<open>The relations hold in the patch\<close>

text \<open>The entity a key of the request is compiled to, and the components it is created with.\<close>

fun creates :: "scene_operation list \<Rightarrow> create_entity list" where
  "creates [] = []"
| "creates (Create c # ops) = c # creates ops"
| "creates (_ # ops) = creates ops"

definition created_as :: "imagination_envelope \<Rightarrow> scene_patch \<Rightarrow> scene_text \<rightharpoonup> create_entity" where
  "created_as v p = map_of (zip (map ie_key (sorted_entities v)) (creates (patch_operations p)))"

fun body_of :: "component_value list \<Rightarrow> (local_transform \<times> primitive_component) option" where
  "body_of [Name _, LocalTransform t, Primitive q, Material _] = Some (t, q)"
| "body_of _ = None"

definition body_as ::
    "imagination_envelope \<Rightarrow> scene_patch \<Rightarrow> scene_text \<Rightarrow> (local_transform \<times> primitive_component) option" where
  "body_as v p k = Option.bind (created_as v p k) (\<lambda>c. body_of (create_components c))"

definition stands_above :: "f32 \<Rightarrow> local_transform \<times> primitive_component \<Rightarrow> local_transform \<times> primitive_component \<Rightarrow> bool" where
  "stands_above clearance s a \<longleftrightarrow>
     vec3_x (lt_translation (fst s)) = vec3_x (lt_translation (fst a)) \<and>
     vec3_z (lt_translation (fst s)) = vec3_z (lt_translation (fst a)) \<and>
     finite_f32_new (stacked_coordinate (finite_get (vec3_y (lt_translation (fst a))))
       (positive_get (pvec3_y (prim_dimensions (snd a)))) (positive_get (pvec3_y (lt_scale (fst a)))) clearance
       (positive_get (pvec3_y (prim_dimensions (snd s)))) (positive_get (pvec3_y (lt_scale (fst s)))))
     = Inr (vec3_y (lt_translation (fst s)))"

definition stands_right_of :: "f32 \<Rightarrow> local_transform \<times> primitive_component \<Rightarrow> local_transform \<times> primitive_component \<Rightarrow> bool" where
  "stands_right_of gap s a \<longleftrightarrow>
     vec3_y (lt_translation (fst s)) = vec3_y (lt_translation (fst a)) \<and>
     vec3_z (lt_translation (fst s)) = vec3_z (lt_translation (fst a)) \<and>
     finite_f32_new (stacked_coordinate (finite_get (vec3_x (lt_translation (fst a))))
       (positive_get (pvec3_x (prim_dimensions (snd a)))) (positive_get (pvec3_x (lt_scale (fst a)))) gap
       (positive_get (pvec3_x (prim_dimensions (snd s)))) (positive_get (pvec3_x (lt_scale (fst s)))))
     = Inr (vec3_x (lt_translation (fst s)))"

text \<open>What it means that a patch realises a relation between two keys of the request.\<close>

fun realises :: "imagination_envelope \<Rightarrow> scene_patch \<Rightarrow> imagination_relation \<Rightarrow> bool" where
  "realises v p (RelParent child parent) =
     (\<exists>c k. created_as v p child = Some c \<and> created_as v p parent = Some k \<and>
        Reparent \<lparr> reparent_entity_id = create_entity_id c, reparent_parent_id = Some (create_entity_id k) \<rparr>
          \<in> set (patch_operations p))"
| "realises v p (RelAbove subject anchor clearance) =
     (\<exists>s a. body_as v p subject = Some s \<and> body_as v p anchor = Some a \<and>
        stands_above (non_negative_get clearance) s a)"
| "realises v p (RelRightOf subject anchor gap) =
     (\<exists>s a. body_as v p subject = Some s \<and> body_as v p anchor = Some a \<and>
        stands_right_of (non_negative_get gap) s a)"

definition created :: "entity_plan \<Rightarrow> create_entity" where
  "created p =
     \<lparr> create_entity_id = ep_entity_id p,
       create_components = [Name \<lparr> name_value = ep_name p \<rparr>, LocalTransform (ep_transform p),
         Primitive (ep_primitive p), Material (ep_material p)] \<rparr>"

lemma create_operation_created: "create_operation p = Create (created p)"
  by (simp add: create_operation_def created_def)

lemma creates_append: "creates (xs @ ys) = creates xs @ creates ys"
  by (induction xs rule: creates.induct) simp_all

lemma creates_patch: "creates (patch_operations (patch_of_plans v ps)) = map created ps"
proof -
  have "creates (map create_operation ps) = map created ps" by (induction ps) (simp_all add: create_operation_created)
  moreover have "creates (reparents qs ps) = []" for qs by (induction ps) (simp_all add: reparents_def)
  ultimately show ?thesis by (simp add: patch_of_plans_def creates_append)
qed

lemma created_as_patch:
  assumes "map ep_key ps = map ie_key (sorted_entities v)" "distinct (map ep_key ps)" "p \<in> set ps"
  shows "created_as v (patch_of_plans v ps) (ep_key p) = Some (created p)"
proof -
  have "(ep_key p, created p) \<in> set (zip (map ep_key ps) (map created ps))"
    using assms(3) by (auto simp: zip_map_map set_zip in_set_conv_nth)
  then have "map_of (zip (map ep_key ps) (map created ps)) (ep_key p) = Some (created p)"
    using assms(2) by (intro map_of_is_SomeI) simp_all
  then show ?thesis unfolding created_as_def creates_patch assms(1) .
qed

lemma body_as_patch:
  assumes "map ep_key ps = map ie_key (sorted_entities v)" "distinct (map ep_key ps)" "p \<in> set ps"
  shows "body_as v (patch_of_plans v ps) (ep_key p) = Some (ep_transform p, ep_primitive p)"
  by (simp add: body_as_def created_as_patch [OF assms]) (simp add: created_def)

lemma find_key:
  assumes "distinct (map ep_key ps)" "p \<in> set ps"
  shows "id_of_key ps (ep_key p) = ep_entity_id p"
proof -
  have "find (\<lambda>q. ep_key q = ep_key p) ps \<noteq> None" using assms(2) by (auto simp: find_None_iff)
  then obtain q where q: "find (\<lambda>q. ep_key q = ep_key p) ps = Some q" by blast
  then have "q \<in> set ps" "ep_key q = ep_key p" by (auto simp: find_Some_iff)
  then have "q = p" using assms by (auto simp: distinct_map dest: inj_onD)
  with q show ?thesis by (simp add: id_of_key_def)
qed

lemma place_subject_stands:
  assumes "place_subject s pl a = Inr s'"
  shows "pl_kind pl = Above c \<Longrightarrow> stands_above c (ep_transform s', ep_primitive s') (ep_transform a, ep_primitive a)"
    and "pl_kind pl = RightOf c \<Longrightarrow> stands_right_of c (ep_transform s', ep_primitive s') (ep_transform a, ep_primitive a)"
  using assms
  by (auto simp: place_subject_def placed_translation_def Let_def stands_above_def stands_right_of_def
      map_sum_def split: if_splits sum.splits)

lemma resolved_placed:
  assumes r: "resolved_plans es0 rs es ps" and d: "distinct (map ep_key es0)"
    and i: "i < length es" "ep_placement (es ! i) = Some pl"
  shows "\<exists>a<length ps. ep_key (ps ! a) = pl_anchor pl \<and> place_subject (es ! i) pl (ps ! a) = Inr (ps ! i)"
proof -
  let ?ix = "key_index_of es"
  have out: "placement_outcome es ?ix j (Inr (ps ! j))" if "j < length es" for j
    using r that by (simp add: resolved_plans_def)
  note mv = resolved_moved [OF r]
  have rel: "related rs es" using r relations_inv_related(1) [OF _ d] unfolding resolved_plans_def by blast
  then have "pl_anchor pl \<in> ep_key ` set es"
    using relatedD(1) [OF _ nth_mem [OF i(1)]] i(2) by (auto simp: plan_related_def)
  from related_index [OF rel this] obtain a where a: "a < length es" "bm_get ?ix (pl_anchor pl) = Some a"
      "ep_key (es ! a) = pl_anchor pl" by blast
  from placement_outcome_anchored [OF i(2) a(2)] out [OF i(1)] obtain q where q: "placement_outcome es ?ix a q"
      "Inr (ps ! i) = (case q of Inl f \<Rightarrow> Inl f | Inr anchor \<Rightarrow> place_subject (es ! i) pl anchor)" by blast
  have "q = Inr (ps ! a)" by (rule placement_outcome_unique [OF out [OF a(1)] q(1)])
  with q(2) a mv(1) moved_fields(1) [OF mv(2) [OF a(1)]] show ?thesis by auto
qed

lemma resolved_realises:
  assumes r: "resolved_plans es0 (env_relations v) es ps" and d: "distinct (map ep_key es0)"
    and keys: "map ep_key es0 = map ie_key (sorted_entities v)" and n: "n < length (env_relations v)"
  shows "realises v (patch_of_plans v ps) (env_relations v ! n)"
proof -
  let ?p = "patch_of_plans v ps"
  have inv: "relations_inv es0 (env_relations v) es []" using r by (simp add: resolved_plans_def)
  note mv = resolved_moved [OF r]
  have eskeys: "map ep_key es = map ep_key es0"
    by (rule same_keys) (use inv in \<open>simp add: relations_inv_def\<close>)
  have pskeys: "map ep_key ps = map ie_key (sorted_entities v)" "distinct (map ep_key ps)"
    using moved_lists(1) [OF mv] eskeys keys d by simp_all
  note body = body_as_patch [OF pskeys] and as = created_as_patch [OF pskeys]
  from inv n obtain q where q: "q \<in> set es" "assigned (env_relations v) q n" by (auto simp: relations_inv_def)
  then obtain i where i: "i < length es" "q = es ! i" by (metis in_set_conv_nth)
  note f = moved_fields [OF mv(2) [OF i(1)]]
  have psi: "ps ! i \<in> set ps" using i mv(1) by simp
  have placement: "\<exists>a\<in>set ps. ep_key a = anchor \<and> body_as v ?p anchor = Some (ep_transform a, ep_primitive a) \<and>
      place_subject (es ! i) \<lparr> pl_relation_index = len_or_max n, pl_anchor = anchor, pl_kind = kind \<rparr> a = Inr (ps ! i)"
    if "ep_placement q = Some \<lparr> pl_relation_index = len_or_max n, pl_anchor = anchor, pl_kind = kind \<rparr>" for anchor kind
    using resolved_placed [OF r d i(1)] that i(2) body nth_mem by fastforce
  show ?thesis
  proof (cases "env_relations v ! n")
    case (RelParent child parent)
    with q(2) have q': "ep_key q = child" "ep_parent q = Some parent" by (simp_all add: assigned_def)
    then have p: "ep_key (ps ! i) = child" "ep_parent (ps ! i) = Some parent" using f i(2) by simp_all
    from resolved_parents(1) [OF r d psi p(2)] obtain k where k: "k \<in> set ps" "ep_key k = parent" by blast
    have "Reparent \<lparr> reparent_entity_id = ep_entity_id (ps ! i), reparent_parent_id = Some (ep_entity_id k) \<rparr>
        \<in> set (patch_operations ?p)"
      using psi p(2) find_key [OF pskeys(2) k(1)] k(2) by (auto simp: patch_of_plans_def reparents_def)
    with as [OF psi] as [OF k(1)] p k RelParent show ?thesis by (simp add: created_def)
  next
    case (RelAbove subject anchor clearance)
    with q(2) have q': "ep_key q = subject" "ep_placement q = Some \<lparr> pl_relation_index = len_or_max n,
        pl_anchor = anchor, pl_kind = Above (non_negative_get clearance) \<rparr>" by (simp_all add: assigned_def)
    from placement [OF q'(2)] place_subject_stands(1) RelAbove body [OF psi] f(1) q'(1) i(2) show ?thesis
      by fastforce
  next
    case (RelRightOf subject anchor gap)
    with q(2) have q': "ep_key q = subject" "ep_placement q = Some \<lparr> pl_relation_index = len_or_max n,
        pl_anchor = anchor, pl_kind = RightOf (non_negative_get gap) \<rparr>" by (simp_all add: assigned_def)
    from placement [OF q'(2)] place_subject_stands(2) RelRightOf body [OF psi] f(1) q'(1) i(2) show ?thesis
      by fastforce
  qed
qed

text \<open>Where a returned patch comes from.\<close>

lemma compile_patch:
  assumes "compile_imagination sha json config v scene = Inr r" "cr_patch r = Some p"
  shows "\<exists>ids es ps. envelope_validate v (cc_runtime_limits config) = Inr () \<and>
    env_base_revision v = sv_revision scene \<and> length ids = length (env_entities v) \<and> distinct ids \<and>
    (\<forall>i\<in>set ids. \<not> view_contains scene i) \<and>
    resolved_plans (map2 planned (sorted_entities v) ids) (env_relations v) es ps \<and> p = patch_of_plans v ps \<and>
    patch_validate p (cc_runtime_limits config) = Inr ()"
proof (rule compile_steps [of sha json config v scene])
  fix es0 ds
  assume *: "envelope_validate v (cc_runtime_limits config) = Inr ()" "env_base_revision v = sv_revision scene"
    "plan_entities sha config v scene = Inr (es0, ds)"
  from compile_cases [OF *, of json] obtain ids dss us ps where
      c: "length ids = length (env_entities v)" "es0 = map2 planned (sorted_entities v) ids" "distinct ids"
        "\<forall>i\<in>set ids. \<not> view_contains scene i"
        "check_scene_constraints v scene @ us \<noteq> [] \<longrightarrow> compile_imagination sha json config v scene =
           map_err Err (complete_unresolved json config v scene ds (check_scene_constraints v scene @ us))"
        "check_scene_constraints v scene @ us = [] \<longrightarrow> (\<exists>es. resolved_plans es0 (env_relations v) es ps) \<and>
           compile_imagination sha json config v scene =
             map_err Err (complete_compiled json config v scene ps ds (patch_of_plans v ps))" by blast
  have compiled: "check_scene_constraints v scene @ us = []"
  proof (rule ccontr)
    assume "check_scene_constraints v scene @ us \<noteq> []"
    with c(5) assms(1)
    have "complete_unresolved json config v scene ds (check_scene_constraints v scene @ us) = Inr r"
      by (metis map_err_Inr_iff)
    then show False
      using assms(2) by (auto simp: complete_unresolved_def completed_result_def Let_def res_simps)
  qed
  with c(6) obtain es where es: "resolved_plans es0 (env_relations v) es ps" by blast
  have "complete_compiled json config v scene ps ds (patch_of_plans v ps) = Inr r"
    using c(6) compiled assms(1) by (metis map_err_Inr_iff)
  then have "p = patch_of_plans v ps" "patch_validate p (cc_runtime_limits config) = Inr ()"
    using assms(2) by (auto simp: complete_compiled_def completed_result_def Let_def res_simps)
  with * c(1-4) es show ?thesis by blast
qed (use assms in simp_all)

text \<open>
  C22. A compiled patch realises every relation of the request. A parent relation becomes a
  reparent of the entity created for the child to the one created for the parent. A placement
  becomes a transform: the subject has the coordinates of its anchor except along the axis of
  the relation, where it is the coordinate of the anchor plus half of both extents and the
  distance, in single precision. The anchor is where it ends up itself, also in chains, and
  although the placements are computed in place and in the order of the keys.
\<close>

theorem compiled_relations_hold:
  assumes "compile_imagination sha json config v scene = Inr r" "cr_patch r = Some p"
    and "relation \<in> set (env_relations v)"
  shows "realises v p relation"
proof -
  from compile_patch [OF assms(1,2)] obtain ids es ps where
      c: "envelope_validate v (cc_runtime_limits config) = Inr ()" "length ids = length (env_entities v)"
        "resolved_plans (map2 planned (sorted_entities v) ids) (env_relations v) es ps" "p = patch_of_plans v ps"
    by blast
  have d: "distinct (map ep_key (map2 planned (sorted_entities v) ids))"
    using planned_fresh [OF c(1,2)] by (simp add: fresh_plans_def)
  have "map ep_key (map2 planned (sorted_entities v) ids) = map ie_key (sorted_entities v)"
    by (rule planned_map2_fields) (simp add: c(2))
  from resolved_realises [OF c(3) d this] assms(3) show ?thesis
    unfolding c(4) by (metis in_set_conv_nth)
qed

end
