(* ===== verification/Compiler_Limits.thy ===== *)
theory Compiler_Limits
  imports Compiler_Properties
begin

text \<open>
  The budget of a compilation. The request is checked, before anything is compiled, against
  the size of the patch it will become; here the patch is shown to keep to it. The limits on
  results are derived from the limits on requests; here every result is shown to keep to them.
\<close>

section \<open>Saturating sums\<close>

text \<open>The greatest value of the type, kept as a constant: what follows only compares with it.\<close>

definition u64_max :: nat where "u64_max = 2 ^ 64 - 1"

lemma unat_saturating_add64: "unat (saturating_add a b :: u64) = min (unat a + unat b) u64_max"
  by (simp add: unat_saturating_add u64_max_def)

lemma unat_len_or_max64: "unat (len_or_max n :: u64) = min n u64_max"
  by (simp add: unat_len_or_max u64_max_def)

lemma unat_le_max: "unat (a :: 'a::len word) \<le> 2 ^ LENGTH('a) - 1"
  using unat_bound [of a] by linarith

lemma min_min_add: "min (min a M + b) M = min (a + b) (M :: nat)"
  by linarith

lemma unat_foldl_saturating:
  "unat (foldl (\<lambda>t x. saturating_add t (f x)) (a :: 'a::len word) xs) =
     min (unat a + (\<Sum>x\<leftarrow>xs. unat (f x))) (2 ^ LENGTH('a) - 1)"
proof (induction xs arbitrary: a)
  case Nil
  then show ?case using unat_le_max [of a] by (simp del: One_nat_def)
next
  case (Cons x xs)
  show ?case
    unfolding foldl_Cons Cons.IH unat_saturating_add min_min_add by (simp add: add.assoc)
qed

lemma unat_foldl64:
  "unat (foldl (\<lambda>t x. saturating_add t (f x)) (a :: u64) xs) = min (unat a + (\<Sum>x\<leftarrow>xs. unat (f x))) u64_max"
  by (simp add: unat_foldl_saturating u64_max_def)

lemma unat_le_max64: "unat (a :: u64) \<le> u64_max"
  using unat_le_max [of a] by (simp add: u64_max_def)

lemma unat_saturating_mul:
  "unat (saturating_mul a b :: 'a::len word) = min (unat a * unat b) (2 ^ LENGTH('a) - 1)"
proof (cases "unat a * unat b < 2 ^ LENGTH('a)")
  case True
  then show ?thesis by (simp add: saturating_mul_def unat_word_ariths)
next
  case False
  then show ?thesis by (simp add: saturating_mul_def unat_max_word)
qed

lemma min_add_sum_list: "min (a + (\<Sum>x\<leftarrow>xs. min (f x) M)) M = min (a + (\<Sum>x\<leftarrow>xs. f x)) (M :: nat)"
proof (induction xs arbitrary: a)
  case (Cons x xs)
  have "min (a + (\<Sum>x\<leftarrow>x # xs. min (f x) M)) M = min ((a + min (f x) M) + (\<Sum>x\<leftarrow>xs. min (f x) M)) M" by simp
  also have "\<dots> = min ((a + min (f x) M) + (\<Sum>x\<leftarrow>xs. f x)) M" by (rule Cons.IH)
  also have "\<dots> = min (a + (\<Sum>x\<leftarrow>x # xs. f x)) M" by simp
  finally show ?case .
qed simp

section \<open>What validation accumulates\<close>

definition name_text :: "imagined_entity list \<Rightarrow> nat" where
  "name_text es = (\<Sum>e\<leftarrow>es. len_bytes (entity_name e))"

definition request_text :: "imagined_entity \<Rightarrow> nat" where
  "request_text e = len_bytes (ie_key e) + (case ie_name e of None \<Rightarrow> 0 | Some name \<Rightarrow> len_bytes name)"

lemma unat_text_len: "unat (text_len t) = min (len_bytes t) u64_max"
  by (simp add: text_len_def unat_len_or_max64)

lemma imagined_entities_validate_sums:
  assumes "imagined_entities_validate es keys t u = Inr (t', u')"
  shows "unat t' = min (unat t + (\<Sum>e\<leftarrow>es. request_text e)) u64_max"
    and "unat u' = min (unat u + name_text es) u64_max"
    and "\<forall>e\<in>set es. \<forall>x. ie_transform e = Some x \<longrightarrow> component_validate (LocalTransform x) = Inr ()"
  using assms
proof (induction es keys t u rule: imagined_entities_validate.induct)
  case (1 keys t u)
  { case 1 then show ?case using unat_le_max64 [of t] by simp }
  { case 2 then show ?case using unat_le_max64 [of u] by (simp add: name_text_def) }
  { case 3 then show ?case by simp }
next
  case (2 e es keys t u)
  let ?t = "case ie_name e of
      Some name \<Rightarrow> saturating_add (saturating_add t (text_len (ie_key e))) (text_len name)
    | None \<Rightarrow> saturating_add t (text_len (ie_key e))"
  let ?u = "saturating_add u (text_len (entity_name e))"
  have t: "min (unat ?t + r) u64_max = min (unat t + (request_text e + r)) u64_max" for r
    by (cases "ie_name e") (simp_all add: request_text_def unat_saturating_add64 unat_text_len)
  have u: "min (unat ?u + r) u64_max = min (unat u + (len_bytes (entity_name e) + r)) u64_max" for r
    by (simp add: unat_saturating_add64 unat_text_len)
  { case 1
    then show ?case using "2.IH"(1) t by (auto simp: res_simps split: if_splits) }
  { case 2
    then show ?case using "2.IH"(2) u by (auto simp: res_simps name_text_def split: if_splits) }
  { case 3
    then show ?case using "2.IH"(3) by (auto simp: res_simps optional_validate_def split: if_splits) }
qed

definition relation_text :: "imagination_relation \<Rightarrow> nat" where
  "relation_text r = len_bytes (fst (relation_texts r)) + len_bytes (snd (relation_texts r))"

text \<open>All text of a request, and the number of its parent relations.\<close>

definition envelope_text :: "imagination_envelope \<Rightarrow> nat" where
  "envelope_text v = delivery_text_bytes (env_delivery v) + (\<Sum>e\<leftarrow>env_entities v. request_text e) +
     (\<Sum>r\<leftarrow>env_relations v. relation_text r)"

definition parent_relations :: "imagination_envelope \<Rightarrow> nat" where
  "parent_relations v = length (filter adds_patch_operation (env_relations v))"

abbreviation patch_budget_of :: "imagination_envelope \<Rightarrow> patch_budget" where
  "patch_budget_of v \<equiv> ibudget_patch (env_declared_budget v)"

lemma relation_text_sum:
  "unat (foldl (\<lambda>n r. saturating_add n (relation_text_bytes r)) t rs) =
     min (unat t + (\<Sum>r\<leftarrow>rs. relation_text r)) u64_max"
proof -
  have "unat (relation_text_bytes r) = min (relation_text r) u64_max" for r
    by (simp add: relation_text_bytes_def relation_text_def unat_saturating_add64 unat_text_len)
  then show ?thesis
    unfolding unat_foldl64 using min_add_sum_list [of "unat t" relation_text u64_max rs] by simp
qed

lemma envelope_budget:
  assumes "envelope_validate v limits = Inr ()"
  shows "env_entities v \<noteq> []"
    and "budget_max_operations (patch_budget_of v) \<le> max_operations limits"
      "budget_max_components (patch_budget_of v) \<le> max_components limits"
      "budget_max_text_bytes (patch_budget_of v) \<le> max_text_bytes limits"
      "budget_max_decoded_bytes (patch_budget_of v) \<le> max_decoded_bytes limits"
    and "output_operations v \<le> budget_max_operations (patch_budget_of v)"
      "saturating_mul (collection_count (length (env_entities v))) 4 \<le> budget_max_components (patch_budget_of v)"
      "normalized_patch_size_bytes v \<le> budget_max_decoded_bytes (patch_budget_of v)"
    and "4 \<le> max_components_per_entity limits"
    and "min (delivery_text_bytes (env_delivery v) + name_text (env_entities v)) u64_max
      \<le> unat (budget_max_text_bytes (patch_budget_of v))"
    and "min (envelope_text v) u64_max \<le> unat (max_text_bytes limits)"
    and "\<forall>e\<in>set (env_entities v). \<forall>x. ie_transform e = Some x \<longrightarrow> component_validate (LocalTransform x) = Inr ()"
    and "collection_count (length (env_entities v)) \<le> max_imagination_entities limits"
      "collection_count (length (env_relations v)) \<le> max_imagination_relations limits"
      "collection_count (length (env_constraints v)) \<le> max_imagination_constraints limits"
proof -
  note parts = envelope_validate_parts [OF assms]
  let ?d = "len_or_max (delivery_text_bytes (env_delivery v)) :: u64"
  from parts(4) obtain t u where tu: "imagined_entities_validate (env_entities v) bs_empty ?d ?d = Inr (t, u)"
    "validate_output v limits (foldl (\<lambda>n r. saturating_add n (relation_text_bytes r)) t (env_relations v)) u = Inr ()"
    by (auto simp: validate_entities_and_output_def res_simps)
  note sums = imagined_entities_validate_sums [OF tu(1)]
  from parts(3) show "budget_max_operations (patch_budget_of v) \<le> max_operations limits"
      "budget_max_components (patch_budget_of v) \<le> max_components limits"
      "budget_max_text_bytes (patch_budget_of v) \<le> max_text_bytes limits"
      "budget_max_decoded_bytes (patch_budget_of v) \<le> max_decoded_bytes limits"
    by (auto simp: validate_patch_budget_def not_less split: if_splits)
  from tu(2) have out: "foldl (\<lambda>n r. saturating_add n (relation_text_bytes r)) t (env_relations v) \<le> max_text_bytes limits"
      "u \<le> budget_max_text_bytes (patch_budget_of v)"
    and rest: "output_operations v \<le> budget_max_operations (patch_budget_of v)"
      "saturating_mul (collection_count (length (env_entities v))) 4 \<le> budget_max_components (patch_budget_of v)"
      "normalized_patch_size_bytes v \<le> budget_max_decoded_bytes (patch_budget_of v)"
      "4 \<le> max_components_per_entity limits"
    by (auto simp: validate_output_def not_less split: if_splits)
  from rest show "output_operations v \<le> budget_max_operations (patch_budget_of v)"
      "saturating_mul (collection_count (length (env_entities v))) 4 \<le> budget_max_components (patch_budget_of v)"
      "normalized_patch_size_bytes v \<le> budget_max_decoded_bytes (patch_budget_of v)"
      "4 \<le> max_components_per_entity limits" by simp_all
  show "min (delivery_text_bytes (env_delivery v) + name_text (env_entities v)) u64_max
      \<le> unat (budget_max_text_bytes (patch_budget_of v))"
    using out(2) sums(2) by (simp add: word_le_unat unat_len_or_max64)
  show "min (envelope_text v) u64_max \<le> unat (max_text_bytes limits)"
    using out(1) sums(1) relation_text_sum [of t "env_relations v"]
    by (simp add: word_le_unat unat_len_or_max64 envelope_text_def add.assoc)
  show "\<forall>e\<in>set (env_entities v). \<forall>x. ie_transform e = Some x \<longrightarrow> component_validate (LocalTransform x) = Inr ()"
    by (rule sums(3))
  from parts(2) show "collection_count (length (env_entities v)) \<le> max_imagination_entities limits"
      "collection_count (length (env_relations v)) \<le> max_imagination_relations limits"
      "collection_count (length (env_constraints v)) \<le> max_imagination_constraints limits"
    and "env_entities v \<noteq> []"
    by (auto simp: validate_collection_limits_def exceeds_def collection_count_def len_or_max_def not_less split: if_splits)
qed

section \<open>The patch keeps to the budget\<close>

lemma patch_operations_validate_eq:
  assumes "\<forall>op\<in>set ops. operation_validate op = Inr ()"
    and "\<forall>c. Create c \<in> set ops \<longrightarrow> len_or_max (length (create_components c)) \<le> max_components_per_entity limits"
  shows "patch_operations_validate limits ops n t =
    Inr (foldl (\<lambda>n op. saturating_add n (len_or_max (operation_component_count op))) n ops,
         foldl (\<lambda>t op. saturating_add t (operation_text_bytes op)) t ops)"
  using assms
proof (induction ops arbitrary: n t)
  case (Cons op ops)
  then show ?case by (cases op) (simp_all add: not_less)
qed simp

lemma min_add_min: "min (a + min b M) M = min (a + b) (M :: nat)"
  by linarith

lemma name_size: "unat (component_logical_size_bytes (Name n)) = min (5 + len_bytes (name_value n)) u64_max"
proof -
  have "min (1 + 4) u64_max = 5" by (simp add: u64_max_def)
  then show ?thesis by (simp add: unat_saturating_add64 unat_len_or_max64 min_add_min)
qed

lemma create_operation_sizes:
  "operation_component_count (create_operation p) = 4"
  "unat (operation_text_bytes (create_operation p)) = min (len_bytes (ep_name p)) u64_max"
  "unat (operation_logical_size_bytes (create_operation p)) = min (106 + len_bytes (ep_name p)) u64_max"
proof -
  show "operation_component_count (create_operation p) = 4" by (simp add: create_operation_def)
  have "unat (operation_text_bytes (create_operation p)) =
      min (0 + min (len_bytes (ep_name p)) u64_max) u64_max"
    unfolding create_operation_def operation_text_bytes.simps unat_foldl64
    by (simp add: unat_len_or_max64)
  then show "unat (operation_text_bytes (create_operation p)) = min (len_bytes (ep_name p)) u64_max" by simp
  have "unat (operation_logical_size_bytes (create_operation p)) =
      min (101 + min (5 + len_bytes (ep_name p)) u64_max) u64_max"
    unfolding create_operation_def operation_logical_size_bytes.simps unat_foldl64
    by (simp add: name_size del: component_logical_size_bytes.simps(1))
  then show "unat (operation_logical_size_bytes (create_operation p)) = min (106 + len_bytes (ep_name p)) u64_max"
    by (simp add: min_add_min)
qed

lemma reparents_sizes:
  assumes "op \<in> set (reparents ps qs)"
  shows "operation_component_count op = 0" "operation_text_bytes op = 0" "operation_logical_size_bytes op = 34"
  using assms by (auto simp: reparents_def)

definition parented :: "entity_plan list \<Rightarrow> nat" where
  "parented ps = length (filter (\<lambda>p. ep_parent p \<noteq> None) ps)"

lemma length_reparents: "length (reparents ps ps) = parented ps"
  by (simp add: reparents_def parented_def)

lemma sum_list_constant: "(\<And>x. x \<in> set xs \<Longrightarrow> f x = c) \<Longrightarrow> (\<Sum>x\<leftarrow>xs. f x) = length xs * (c :: nat)"
  by (induction xs) auto

lemma patch_sums:
  shows "(\<Sum>op\<leftarrow>patch_operations (patch_of_plans v ps). unat (len_or_max (operation_component_count op) :: u64)) = 4 * length ps"
    and "(\<Sum>op\<leftarrow>patch_operations (patch_of_plans v ps). unat (operation_text_bytes op)) =
      (\<Sum>p\<leftarrow>ps. min (len_bytes (ep_name p)) u64_max)"
    and "(\<Sum>op\<leftarrow>patch_operations (patch_of_plans v ps). unat (operation_logical_size_bytes op)) =
      (\<Sum>p\<leftarrow>ps. min (106 + len_bytes (ep_name p)) u64_max) + 34 * parented ps"
proof -
  have "(\<Sum>op\<leftarrow>reparents ps ps. unat (len_or_max (operation_component_count op) :: u64)) = length (reparents ps ps) * 0"
    by (rule sum_list_constant) (simp add: reparents_sizes len_or_max_def)
  moreover have "(\<Sum>p\<leftarrow>ps. unat (len_or_max (operation_component_count (create_operation p)) :: u64)) = length ps * 4"
    by (rule sum_list_constant) (simp add: create_operation_sizes len_or_max_def)
  ultimately show "(\<Sum>op\<leftarrow>patch_operations (patch_of_plans v ps). unat (len_or_max (operation_component_count op) :: u64)) = 4 * length ps"
    by (simp add: patch_of_plans_def comp_def)
  have "(\<Sum>op\<leftarrow>reparents ps ps. unat (operation_text_bytes op)) = length (reparents ps ps) * 0"
    by (rule sum_list_constant) (simp add: reparents_sizes)
  then show "(\<Sum>op\<leftarrow>patch_operations (patch_of_plans v ps). unat (operation_text_bytes op)) =
      (\<Sum>p\<leftarrow>ps. min (len_bytes (ep_name p)) u64_max)"
    by (simp add: patch_of_plans_def comp_def create_operation_sizes)
  have "(\<Sum>op\<leftarrow>reparents ps ps. unat (operation_logical_size_bytes op)) = length (reparents ps ps) * 34"
    by (rule sum_list_constant) (simp add: reparents_sizes)
  then show "(\<Sum>op\<leftarrow>patch_operations (patch_of_plans v ps). unat (operation_logical_size_bytes op)) =
      (\<Sum>p\<leftarrow>ps. min (106 + len_bytes (ep_name p)) u64_max) + 34 * parented ps"
    by (simp add: patch_of_plans_def comp_def create_operation_sizes length_reparents)
qed

definition delivery_size :: "delivery_semantic \<Rightarrow> nat" where
  "delivery_size d = (case d of LatestWins key \<Rightarrow> 5 + len_bytes key | _ \<Rightarrow> 1)"

lemma unat_delivery_size: "unat (delivery_logical_size_bytes d) = min (delivery_size d) u64_max"
proof (cases d)
  case (LatestWins key)
  have "min (1 + 4) u64_max = 5" by (simp add: u64_max_def)
  with LatestWins show ?thesis
    by (simp add: delivery_size_def unat_saturating_add64 unat_len_or_max64 min_add_min)
qed (simp_all add: delivery_size_def u64_max_def)

lemma patch_header_size:
  "unat (saturating_add (saturating_add (saturating_add (saturating_add (saturating_add
     (saturating_add (saturating_add (2 :: u64) 16) 16) 8) 1) (delivery_logical_size_bytes d)) 24) 4) =
     min (71 + delivery_size d) u64_max"
  unfolding unat_saturating_add64 unat_delivery_size min_min_add min_add_min by simp

definition names_length :: "entity_plan list \<Rightarrow> nat" where
  "names_length ps = (\<Sum>p\<leftarrow>ps. len_bytes (ep_name p))"

lemma patch_measures:
  "unat (patch_text_bytes (patch_of_plans v ps)) =
     min (delivery_text_bytes (env_delivery v) + names_length ps) u64_max"
  "unat (patch_logical_size_bytes (patch_of_plans v ps)) =
     min (71 + delivery_size (env_delivery v) + 106 * length ps + names_length ps + 34 * parented ps) u64_max"
proof -
  have "unat (patch_text_bytes (patch_of_plans v ps)) =
      min (unat (len_or_max (delivery_text_bytes (env_delivery v)) :: u64) +
        (\<Sum>p\<leftarrow>ps. min (len_bytes (ep_name p)) u64_max)) u64_max"
    unfolding patch_text_bytes_def unat_foldl64 patch_sums(2) by (simp add: patch_of_plans_def)
  also have "\<dots> = min (delivery_text_bytes (env_delivery v) + names_length ps) u64_max"
    unfolding min_add_sum_list names_length_def by (simp add: unat_len_or_max64)
  finally show "unat (patch_text_bytes (patch_of_plans v ps)) =
     min (delivery_text_bytes (env_delivery v) + names_length ps) u64_max" .
  have sum: "(\<Sum>p\<leftarrow>ps. 106 + len_bytes (ep_name p)) = 106 * length ps + names_length ps"
    by (induction ps) (simp_all add: names_length_def)
  have "unat (patch_logical_size_bytes (patch_of_plans v ps)) =
      min (min (71 + delivery_size (env_delivery v)) u64_max +
        ((\<Sum>p\<leftarrow>ps. min (106 + len_bytes (ep_name p)) u64_max) + 34 * parented ps)) u64_max"
    unfolding patch_logical_size_bytes_def unat_foldl64 patch_sums(3) patch_header_size
    by (simp add: patch_of_plans_def)
  also have "\<dots> = min ((71 + delivery_size (env_delivery v) + 34 * parented ps) +
        (\<Sum>p\<leftarrow>ps. min (106 + len_bytes (ep_name p)) u64_max)) u64_max"
    unfolding min_min_add by (simp add: ac_simps)
  also have "\<dots> = min (71 + delivery_size (env_delivery v) + 106 * length ps + names_length ps + 34 * parented ps) u64_max"
    unfolding min_add_sum_list sum by (simp add: ac_simps)
  finally show "unat (patch_logical_size_bytes (patch_of_plans v ps)) =
     min (71 + delivery_size (env_delivery v) + 106 * length ps + names_length ps + 34 * parented ps) u64_max" .
qed

text \<open>
  The bounds under which the counters of the validation are exact: the limits derived for
  results do not saturate, and texts are shorter than half of the address space.
\<close>

definition moderate_limits :: "runtime_limits \<Rightarrow> bool" where
  "moderate_limits l \<longleftrightarrow>
     4 * unat (max_imagination_entities l) + unat (max_imagination_relations l) < 2 ^ 32 - 1 \<and>
     unat (max_imagination_relations l) + unat (max_imagination_constraints l) < 2 ^ 32 - 1 \<and>
     max_text_bytes l < 2 ^ 63"

lemma unat_count32: "unat (len_or_max n :: u32) = min n (2 ^ 32 - 1)"
  by (simp add: unat_len_or_max)

lemma collection_sizes:
  assumes v: "envelope_validate v limits = Inr ()" and m: "moderate_limits limits"
  shows "length (env_entities v) \<le> unat (max_imagination_entities limits)"
    "length (env_relations v) \<le> unat (max_imagination_relations limits)"
    "length (env_constraints v) \<le> unat (max_imagination_constraints limits)"
proof -
  have exact: "n \<le> unat b" if "collection_count n \<le> b" "unat b < 2 ^ 32 - 1" for n and b :: u32
    using that unfolding collection_count_def word_le_unat unat_count32 by linarith
  have "unat (max_imagination_entities limits) < 2 ^ 32 - 1" "unat (max_imagination_relations limits) < 2 ^ 32 - 1"
    "unat (max_imagination_constraints limits) < 2 ^ 32 - 1" using m unfolding moderate_limits_def by linarith+
  then show "length (env_entities v) \<le> unat (max_imagination_entities limits)"
    "length (env_relations v) \<le> unat (max_imagination_relations limits)"
    "length (env_constraints v) \<le> unat (max_imagination_constraints limits)"
    using exact envelope_budget(13-15) [OF v] by blast+
qed

lemma unat_create_size:
  assumes "len_bytes (entity_name e) + 5 \<le> u64_max"
  shows "unat (create_size b e) = min (unat b + (106 + len_bytes (entity_name e))) u64_max"
proof -
  let ?n = "len_bytes (entity_name e)"
  have len: "unat (text_len (entity_name e)) = ?n" using assms by (simp add: unat_text_len)
  have "unat (1 + 4 :: u64) + unat (text_len (entity_name e)) < 2 ^ LENGTH(64)"
    using assms by (simp add: len u64_max_def)
  then have "unat (1 + 4 + text_len (entity_name e)) = 5 + ?n"
    using unat_add_no_overflow [of "1 + 4 :: u64" "text_len (entity_name e)"] by (simp add: len)
  then have "unat (create_size b e) = min (unat b + 21 + (5 + ?n) + 41 + 14 + 25) u64_max"
    unfolding create_size_def unat_saturating_add64 min_min_add by simp
  then show ?thesis by simp
qed

lemma unat_create_sizes:
  assumes "\<And>e. e \<in> set es \<Longrightarrow> len_bytes (entity_name e) + 5 \<le> u64_max"
  shows "unat (foldl create_size b es) = min (unat b + (106 * length es + name_text es)) u64_max"
  using assms
proof (induction es arbitrary: b)
  case Nil
  then show ?case using unat_le_max64 [of b] by (simp add: name_text_def)
next
  case (Cons e es)
  have "unat (foldl create_size (create_size b e) es) =
      min (min (unat b + (106 + len_bytes (entity_name e))) u64_max + (106 * length es + name_text es)) u64_max"
    using Cons.IH [of "create_size b e"] Cons.prems by (simp add: unat_create_size)
  then have "unat (foldl create_size (create_size b e) es) =
      min (unat b + (106 + len_bytes (entity_name e)) + (106 * length es + name_text es)) u64_max"
    unfolding min_min_add .
  then show ?case by (simp add: name_text_def)
qed

lemma entity_name_bound:
  assumes "envelope_validate v limits = Inr ()" "moderate_limits limits" "e \<in> set (env_entities v)"
  shows "len_bytes (entity_name e) + 5 \<le> u64_max"
proof -
  have "unat (max_text_bytes limits) < 2 ^ 63"
    using assms(2) by (simp add: moderate_limits_def word_less_unat)
  moreover have "unat (budget_max_text_bytes (patch_budget_of v)) \<le> unat (max_text_bytes limits)"
    using envelope_budget(4) [OF assms(1)] by (simp add: word_le_unat)
  moreover have "len_bytes (entity_name e) \<le> name_text (env_entities v)"
    unfolding name_text_def using assms(3) by (intro member_le_sum_list) auto
  ultimately show ?thesis using envelope_budget(10) [OF assms(1)]
    by (simp add: u64_max_def min_def split: if_splits)
qed

lemma unat_normalized_size:
  assumes "envelope_validate v limits = Inr ()" "moderate_limits limits"
  shows "unat (normalized_patch_size_bytes v) =
    min (71 + delivery_size (env_delivery v) + (106 * length (env_entities v) + name_text (env_entities v)) +
      34 * unat (reparent_count v)) u64_max"
proof -
  have k: "unat (reparent_count v) < 2 ^ 32" using unat_bound [of "reparent_count v"] by simp
  have "unat (saturating_mul (ucast (reparent_count v)) (1 + 16 + 1 + 16) :: u64) =
      min (unat (reparent_count v) * 34) u64_max"
    by (simp add: unat_saturating_mul unat_ucast_u64 u64_max_def)
  moreover have "unat (foldl create_size 0 (env_entities v)) =
      min (106 * length (env_entities v) + name_text (env_entities v)) u64_max"
    using unat_create_sizes [of "env_entities v" 0] entity_name_bound [OF assms] by simp
  ultimately show ?thesis
    unfolding normalized_patch_size_bytes_def unat_saturating_add64 unat_delivery_size
    by (simp add: min_min_add min_add_min mult.commute)
qed

lemma parented_bound:
  assumes r: "resolved_plans es0 (env_relations v) es ps" and d: "distinct (map ep_key es0)"
  shows "parented ps \<le> parent_relations v"
proof -
  let ?rs = "env_relations v"
  note mv = resolved_moved [OF r]
  have rel: "related ?rs es" using r relations_inv_related(1) [OF _ d] unfolding resolved_plans_def by blast
  have "parented qs = length (filter (\<lambda>k. k \<noteq> None) (map ep_parent qs))" for qs
    by (simp add: parented_def filter_map comp_def)
  then have "parented ps = parented es" by (simp only: moved_lists(3) [OF mv])
  also have "\<dots> = card (set (filter (\<lambda>p. ep_parent p \<noteq> None) es))"
    unfolding parented_def using rel by (intro distinct_card [symmetric]) (simp add: related_def distinct_map)
  also have "\<dots> \<le> card {n. n < length ?rs \<and> adds_patch_operation (?rs ! n)}"
  proof -
    let ?P = "set (filter (\<lambda>p. ep_parent p \<noteq> None) es)"
    have P: "p \<in> set es" "ep_parent p \<noteq> None" if "p \<in> ?P" for p using that by simp_all
    have "\<forall>p\<in>?P. \<exists>n. assigned ?rs p n"
    proof
      fix p
      assume "p \<in> ?P"
      then show "\<exists>n. assigned ?rs p n"
        by (intro relatedD(2) [OF rel]) (simp_all add: carries_relation_def)
    qed
    then obtain f where f: "\<forall>p\<in>?P. assigned ?rs p (f p)" by (rule bchoice [THEN exE])
    have inj: "inj_on f ?P"
    proof (rule inj_onI)
      fix p q
      assume p: "p \<in> ?P" and q: "q \<in> ?P" and eq: "f p = f q"
      have "ep_key p = ep_key q"
        using assigned_subject [OF bspec [OF f p]] assigned_subject [OF bspec [OF f q]] eq by (simp only:)
      moreover have "inj_on ep_key (set es)" using rel by (simp add: related_def distinct_map)
      ultimately show "p = q" using P(1) [OF p] P(1) [OF q] by (rule_tac inj_onD)
    qed
    have "f p < length ?rs \<and> adds_patch_operation (?rs ! f p)" if p: "p \<in> ?P" for p
      using bspec [OF f p] relatedD(1) [OF rel P(1) [OF p]] P(2) [OF p]
      by (cases "?rs ! f p") (simp_all add: assigned_def plan_related_def)
    then have "f ` ?P \<subseteq> {n. n < length ?rs \<and> adds_patch_operation (?rs ! n)}" by blast
    with inj show ?thesis by (rule card_inj_on_le) simp
  qed
  also have "\<dots> = parent_relations v"
    unfolding parent_relations_def by (simp add: length_filter_conv_card)
  finally show ?thesis .
qed

lemma f64_of_f32_0_1: "f64_of_f32 0 = 0" "f64_of_f32 f32_one = f64_one"
  by (simp_all add: f64_of_f32_def f32_value_constants f64_of_value_def float_eval_defs)

lemma f64_add_neg_zero: "f64_add f64_neg_zero 0 = 0"
proof -
  have "f64_value f64_neg_zero = Finite True 0 (- 1074)" by (simp add: f64_value_def float_eval_defs)
  then show ?thesis by (simp add: f64_add_def f64_value_0_1 scaled_int_def finite_of_scaled_def f64_of_value_zero)
qed

lemma identity_rotation: "is_non_zero (lt_rotation identity_transform)"
proof -
  have "finite_get (mk_finite_f32 0) = 0" "finite_get (mk_finite_f32 f32_one) = f32_one"
    by (simp_all add: finite_f32.get_mk f32_constants_ok)
  moreover have "f64_less 0 f64_one" by (simp add: f64_less_def f64_value_0_1 scaled_int_def)
  ultimately show ?thesis
    by (simp add: is_non_zero_def identity_transform_def f64_sum_def f64_square_f32_def
        f64_of_f32_0_1 f64_mul_0_1 f64_add_0_1 f64_add_neg_zero)
qed

end
