(* ===== verification/Compiler_Validity.thy ===== *)
theory Compiler_Validity
  imports Compiler_Limits
begin

text \<open>
  The output of a compilation is valid: the patch passes the validation of patches because the
  request was checked against its size in advance, and the result passes the validation of
  results because its limits are derived from those of the request.
\<close>

section \<open>The patch\<close>

lemma name_text_plans:
  assumes "length ids = length (env_entities v)"
  shows "names_length (map2 planned (sorted_entities v) ids) = name_text (env_entities v)"
proof -
  have "names_length (map2 planned (sorted_entities v) ids) =
      sum_list (map len_bytes (map ep_name (map2 planned (sorted_entities v) ids)))"
    by (simp add: names_length_def comp_def)
  also have "\<dots> = sum_list (map (\<lambda>e. len_bytes (entity_name e)) (sorted_entities v))"
    using assms by (subst planned_map2_fields(3)) (simp_all add: comp_def)
  also have "\<dots> = sum_mset (image_mset (\<lambda>e. len_bytes (entity_name e)) (mset (sorted_entities v)))"
    by (simp only: mset_map [symmetric] sum_mset_sum_list)
  also have "\<dots> = name_text (env_entities v)"
    unfolding mset_sorted_entities name_text_def by (simp only: mset_map [symmetric] sum_mset_sum_list)
  finally show ?thesis .
qed

text \<open>What the plans of a valid request are like when every relation is resolved.\<close>

lemma resolved_facts:
  assumes v: "envelope_validate v limits = Inr ()" and n: "length ids = length (env_entities v)"
    and r: "resolved_plans (map2 planned (sorted_entities v) ids) (env_relations v) es ps"
  shows "length ps = length (env_entities v)" "map ep_key ps = map ie_key (sorted_entities v)"
    "map ep_entity_id ps = ids" "names_length ps = name_text (env_entities v)"
    "parented ps \<le> parent_relations v"
    "\<And>p. p \<in> set ps \<Longrightarrow> is_non_zero (lt_rotation (ep_transform p))"
proof -
  let ?es0 = "map2 planned (sorted_entities v) ids"
  have fresh: "fresh_plans ?es0" by (rule planned_fresh [OF v n])
  then have d: "distinct (map ep_key ?es0)" by (simp add: fresh_plans_def)
  note mv = resolved_moved [OF r]
  have inv: "relations_inv ?es0 (env_relations v) es []" using r by (simp add: resolved_plans_def)
  have un: "map unrelated es = map unrelated ?es0" using inv by (simp add: relations_inv_def)
  have len: "length es = length ?es0" using arg_cong [OF un, of length] by simp
  have field: "map f es = map f ?es0" if "\<And>p. f (unrelated p) = f p" for f :: "entity_plan \<Rightarrow> 'b"
    using arg_cong [OF un, of "map f"] that by (simp add: comp_def)
  show "length ps = length (env_entities v)" using mv(1) len n by simp
  show "map ep_key ps = map ie_key (sorted_entities v)"
    using moved_lists(1) [OF mv] field [of ep_key] planned_map2_fields(1) [of ids "sorted_entities v"] n
    by simp
  show "map ep_entity_id ps = ids"
    using moved_lists(2) [OF mv] field [of ep_entity_id] planned_map2_fields(2) [of ids "sorted_entities v"] n
    by simp
  have "names_length qs = sum_list (map len_bytes (map ep_name qs))" for qs
    by (simp add: names_length_def comp_def)
  then show "names_length ps = name_text (env_entities v)"
    unfolding name_text_plans [OF n, symmetric]
    by (simp only: moved_lists(4) [OF mv] field [of ep_name, OF unrelated_fields(3)])
  show "parented ps \<le> parent_relations v" by (rule parented_bound [OF r d])
  fix p
  assume "p \<in> set ps"
  then obtain i where i: "i < length es" "p = ps ! i" using mv(1) by (auto simp: in_set_conv_nth)
  have "ep_transform (es ! i) = ep_transform (planned (sorted_entities v ! i) (ids ! i))"
    using arg_cong [OF field [of ep_transform], of "\<lambda>xs. xs ! i"] i len n by simp
  then have t: "lt_rotation (ep_transform p) = lt_rotation (ep_transform (planned (sorted_entities v ! i) (ids ! i)))"
    using moved_fields(9) [OF mv(2) [OF i(1)]] i(2) by simp
  have "sorted_entities v ! i \<in> set (env_entities v)"
    using i len n nth_mem [of i "sorted_entities v"] mset_eq_setD [OF mset_sorted_entities] by simp
  then show "is_non_zero (lt_rotation (ep_transform p))"
    using envelope_budget(12) [OF v] identity_rotation unfolding t
    by (cases "ie_transform (sorted_entities v ! i)") (auto simp: planned_def plan_entity_def split: if_splits)
qed

lemma create_operation_valid:
  assumes "is_non_zero (lt_rotation (ep_transform p))"
  shows "operation_validate (create_operation p) = Inr ()"
  using assms by (simp add: create_operation_def bs_mem_iff)

lemma reparents_valid:
  assumes "\<And>p k. p \<in> set ps \<Longrightarrow> ep_parent p = Some k \<Longrightarrow> k \<in> ep_key ` set ps \<and> k \<noteq> ep_key p"
    and d: "distinct (map ep_key ps)" "distinct (map ep_entity_id ps)" and op: "op \<in> set (reparents ps ps)"
  shows "operation_validate op = Inr ()"
proof -
  from op obtain p k where p: "p \<in> set ps" "ep_parent p = Some k"
      "op = Reparent \<lparr> reparent_entity_id = ep_entity_id p, reparent_parent_id = Some (id_of_key ps k) \<rparr>"
    by (auto simp: reparents_def)
  from assms(1) [OF p(1,2)] obtain q where q: "q \<in> set ps" "ep_key q = k" "ep_key q \<noteq> ep_key p" by blast
  then have "ep_entity_id q \<noteq> ep_entity_id p" using d(2) p(1) by (auto simp: distinct_map dest: inj_onD)
  then show ?thesis using find_key [OF d(1) q(1)] q(2) p(3) by simp
qed

lemma length_patch: "length (patch_operations (patch_of_plans v ps)) = length ps + parented ps"
  by (simp add: patch_of_plans_def length_reparents)

lemma output_counts:
  assumes v: "envelope_validate v limits = Inr ()" and m: "moderate_limits limits"
  shows "unat (output_operations v) = min (length (env_entities v) + parent_relations v) (2 ^ 32 - 1)"
    "unat (reparent_count v) = parent_relations v"
    "4 * length (env_entities v) \<le> unat (budget_max_components (patch_budget_of v))"
proof -
  note b = envelope_budget [OF v] and c = collection_sizes [OF v m]
  show "unat (output_operations v) = min (length (env_entities v) + parent_relations v) (2 ^ 32 - 1)"
    unfolding output_operations_def unat_saturating_add reparent_count_def parent_relations_def collection_count_def
      unat_count32 by simp
  have "parent_relations v \<le> length (env_relations v)" by (simp add: parent_relations_def)
  moreover have "unat (max_imagination_relations limits) < 2 ^ 32 - 1"
    "4 * unat (max_imagination_entities limits) < 2 ^ 32 - 1" using m unfolding moderate_limits_def by linarith+
  ultimately have r: "parent_relations v < 2 ^ 32 - 1" and e: "4 * length (env_entities v) < 2 ^ 32 - 1"
    using c by linarith+
  show "unat (reparent_count v) = parent_relations v"
    using r unfolding reparent_count_def parent_relations_def collection_count_def unat_count32 by linarith
  have "unat (saturating_mul (collection_count (length (env_entities v))) 4) = 4 * length (env_entities v)"
    unfolding unat_saturating_mul collection_count_def unat_count32 using e by simp
  then show "4 * length (env_entities v) \<le> unat (budget_max_components (patch_budget_of v))"
    using b(7) by (simp add: word_le_unat)
qed

text \<open>The patch as validation counts it, against the budget the request was accepted with.\<close>

lemma patch_counts_fit:
  assumes v: "envelope_validate v limits = Inr ()" and m: "moderate_limits limits"
    and ps: "length ps = length (env_entities v)" "names_length ps = name_text (env_entities v)"
      "parented ps \<le> parent_relations v"
  shows "len_or_max (length (patch_operations (patch_of_plans v ps))) \<le> budget_max_operations (patch_budget_of v)"
    and "4 * length ps \<le> unat (budget_max_components (patch_budget_of v))"
    and "patch_text_bytes (patch_of_plans v ps) \<le> budget_max_text_bytes (patch_budget_of v)"
    and "patch_logical_size_bytes (patch_of_plans v ps) \<le> budget_max_decoded_bytes (patch_budget_of v)"
proof -
  note b = envelope_budget [OF v] and c = output_counts [OF v m]
  have "unat (len_or_max (length (patch_operations (patch_of_plans v ps))) :: u32) \<le> unat (output_operations v)"
    unfolding unat_count32 length_patch c(1) using ps by simp
  then show "len_or_max (length (patch_operations (patch_of_plans v ps))) \<le> budget_max_operations (patch_budget_of v)"
    using b(6) by (simp add: word_le_unat)
  show "4 * length ps \<le> unat (budget_max_components (patch_budget_of v))" using c(3) ps(1) by simp
  show "patch_text_bytes (patch_of_plans v ps) \<le> budget_max_text_bytes (patch_budget_of v)"
    unfolding word_le_unat patch_measures ps(2) by (rule b(10))
  have "unat (patch_logical_size_bytes (patch_of_plans v ps)) \<le> unat (normalized_patch_size_bytes v)"
    unfolding patch_measures unat_normalized_size [OF v m] c(2) using ps by (intro min.mono) simp_all
  then show "patch_logical_size_bytes (patch_of_plans v ps) \<le> budget_max_decoded_bytes (patch_budget_of v)"
    using b(8) by (simp add: word_le_unat)
qed

lemma compiled_patch_valid:
  assumes v: "envelope_validate v limits = Inr ()" and m: "moderate_limits limits"
    and n: "length ids = length (env_entities v)" and d: "distinct ids"
    and r: "resolved_plans (map2 planned (sorted_entities v) ids) (env_relations v) es ps"
  shows "patch_validate (patch_of_plans v ps) limits = Inr ()"
proof -
  let ?p = "patch_of_plans v ps"
  note f = resolved_facts [OF v n r] and b = envelope_budget [OF v]
  note fit = patch_counts_fit [OF v m f(1,4,5)]
  have d0: "distinct (map ep_key (map2 planned (sorted_entities v) ids))"
    using planned_fresh [OF v n] by (simp add: fresh_plans_def)
  have keys: "distinct (map ep_key ps)" using f(2) sorted_keys [OF v] by (simp add: strict_sorted_iff)
  have reparent: "operation_validate op = Inr ()" if "op \<in> set (reparents ps ps)" for op
    using resolved_parents [OF r d0] keys d that f(3) by (intro reparents_valid [of ps]) auto
  have "operation_validate op = Inr ()" if "op \<in> set (patch_operations ?p)" for op
    using that create_operation_valid f(6) reparent by (auto simp: patch_of_plans_def)
  moreover have "len_or_max (length (create_components c)) \<le> max_components_per_entity limits"
    if "Create c \<in> set (patch_operations ?p)" for c
  proof -
    have "length (create_components c) = 4"
      using that by (auto simp: patch_of_plans_def reparents_def create_operation_def)
    then show ?thesis using b(9) by (simp add: len_or_max_def)
  qed
  ultimately have ops: "patch_operations_validate limits (patch_operations ?p) 0
      (len_or_max (delivery_text_bytes (patch_delivery ?p))) =
    Inr (foldl (\<lambda>n op. saturating_add n (len_or_max (operation_component_count op))) 0 (patch_operations ?p),
         patch_text_bytes ?p)"
    unfolding patch_text_bytes_def by (intro patch_operations_validate_eq) blast+
  let ?c = "foldl (\<lambda>n op. saturating_add n (len_or_max (operation_component_count op))) 0 (patch_operations ?p) :: u64"
  have "unat ?c \<le> 4 * length ps" unfolding unat_foldl64 patch_sums(1) by simp
  then have c: "?c \<le> ucast (budget_max_components (patch_budget_of v))"
    using fit(2) by (simp add: word_le_unat unat_ucast_u64)
  moreover have "ucast (budget_max_components (patch_budget_of v)) \<le> (ucast (max_components limits) :: u64)"
    using b(3) by (simp add: word_le_unat unat_ucast_u64)
  ultimately have "\<not> ?c > ucast (max_components limits)" by (simp add: not_less)
  moreover have "\<not> patch_text_bytes ?p > max_text_bytes limits" "\<not> patch_logical_size_bytes ?p > max_decoded_bytes limits"
    "\<not> len_or_max (length (patch_operations ?p)) > max_operations limits"
    using fit b(2,4,5) by (simp_all add: not_less order_trans)
  moreover have "(len_or_max (length (patch_operations ?p)) :: u32) \<noteq> 0"
  proof -
    have "unat (len_or_max (length (patch_operations ?p)) :: u32) \<noteq> 0"
      unfolding unat_count32 length_patch f(1) using b(1) by simp
    then show ?thesis by (auto simp: unat_eq_zero)
  qed
  ultimately show ?thesis
    using ops c fit b(2-5) envelope_validate_parts(1) [OF v]
    unfolding patch_validate_def
    by (simp add: validate_schema_def patch_validate_operation_count_def patch_validate_counts_def
        not_less patch_of_plans_def)
qed

end
