(* ===== verification/Compiler_Outcome.thy ===== *)
theory Compiler_Outcome
  imports Compiler_Validity
begin

text \<open>
  The result of a compilation passes the validation of results: its decisions and issues are
  well formed, in canonical order and without duplicates, and their number, text and size stay
  within the limits derived from those of the request.
\<close>

section \<open>What a result measures\<close>

lemma saturating_add_assoc64: "saturating_add (saturating_add a b) c = saturating_add a (saturating_add b (c :: u64))"
  by (simp add: word_unat_eq_iff unat_saturating_add64 min_min_add min_add_min add.assoc)

definition option_text :: "scene_text option \<Rightarrow> nat" where
  "option_text t = (case t of None \<Rightarrow> 0 | Some text \<Rightarrow> len_bytes text)"

definition issue_text :: "unresolved_constraint \<Rightarrow> nat" where
  "issue_text u = option_text (un_entity_key u) + option_text (un_related_key u)"

definition decisions_text :: "compilation_decision list \<Rightarrow> nat" where
  "decisions_text ds = (\<Sum>d\<leftarrow>ds. len_bytes (dec_entity_key d))"

definition issues_text :: "unresolved_constraint list \<Rightarrow> nat" where
  "issues_text us = (\<Sum>u\<leftarrow>us. issue_text u)"

lemma unat_optional_text: "unat (optional_text_bytes t) = min (option_text t) u64_max"
  by (cases t) (simp_all add: optional_text_bytes_def option_text_def unat_len_or_max64)

abbreviation result_patch_text :: "compilation_result \<Rightarrow> nat" where
  "result_patch_text r \<equiv> unat (case cr_patch r of None \<Rightarrow> 0 | Some p \<Rightarrow> patch_text_bytes p)"

abbreviation result_patch_size :: "compilation_result \<Rightarrow> nat" where
  "result_patch_size r \<equiv> unat (case cr_patch r of None \<Rightarrow> 0 | Some p \<Rightarrow> patch_logical_size_bytes p)"

lemma unat_result_text:
  "unat (result_text_bytes r) =
     min (result_patch_text r + decisions_text (cr_decisions r) + issues_text (cr_unresolved r)) u64_max"
proof -
  have d: "unat (foldl (\<lambda>total d. saturating_add total (len_or_max (len_bytes (dec_entity_key d)))) 0 ds :: u64) =
      min (decisions_text ds) u64_max" for ds
    using min_add_sum_list [of 0 "\<lambda>d. len_bytes (dec_entity_key d)" u64_max ds]
    by (simp add: unat_foldl64 unat_len_or_max64 decisions_text_def)
  have u: "unat (saturating_add (optional_text_bytes (un_entity_key u)) (optional_text_bytes (un_related_key u))) =
      min (issue_text u) u64_max" for u
    by (simp add: unat_saturating_add64 unat_optional_text issue_text_def min_min_add min_add_min)
  show ?thesis
    unfolding result_text_bytes_def saturating_add_assoc64 unat_foldl64 u min_add_sum_list issues_text_def [symmetric]
    unfolding unat_saturating_add64 d min_min_add min_add_min by (simp add: min_min_add min_add_min)
qed

lemma unat_when_some: "unat (when_some x n) = (if x = None then 0 else unat n)"
  by (simp add: when_some_def)

lemma decision_size_bound:
  assumes "decision_valid d"
  shows "unat (decision_logical_size d) \<le> min (27 + len_bytes (dec_entity_key d)) u64_max"
proof -
  have "dec_relation_index d = None \<or> dec_entity_id d = None"
    using assms by (cases "dec_code d") (auto simp: decision_valid_def)
  then have "unat (when_some (dec_relation_index d) 4) + unat (when_some (dec_entity_id d) 16) \<le> 16"
    by (auto simp: unat_when_some)
  then show ?thesis
    unfolding decision_logical_size_def unat_saturating_add64 unat_len_or_max64 min_min_add min_add_min by simp
qed

lemma issue_size_bound: "unat (unresolved_logical_size u) \<le> min (38 + issue_text u) u64_max"
proof -
  have "unat (when_some (un_relation_index u) 4) \<le> 4" "unat (when_some (un_constraint_index u) 4) \<le> 4"
    "unat (when_some (un_entity_id u) 16) \<le> 16" by (simp_all add: unat_when_some)
  then show ?thesis
    unfolding unresolved_logical_size_def unat_saturating_add64 unat_optional_text min_min_add min_add_min issue_text_def
    by simp
qed

lemma sum_list_bound:
  assumes "\<And>x. x \<in> set xs \<Longrightarrow> f x \<le> c + g x"
  shows "(\<Sum>x\<leftarrow>xs. f x) \<le> c * length xs + (\<Sum>x\<leftarrow>xs. g x :: nat)"
  using assms
proof (induction xs)
  case (Cons x xs)
  have "f x \<le> c + g x" "(\<Sum>x\<leftarrow>xs. f x) \<le> c * length xs + (\<Sum>x\<leftarrow>xs. g x)"
    using Cons by simp_all
  then show ?case by simp
qed simp

lemma unat_result_size:
  assumes "list_all decision_valid (cr_decisions r)"
  shows "unat (result_logical_size_bytes r) \<le>
    min (35 + result_patch_size r + (27 * length (cr_decisions r) + decisions_text (cr_decisions r)) +
      (38 * length (cr_unresolved r) + issues_text (cr_unresolved r))) u64_max"
proof -
  let ?ds = "cr_decisions r" and ?us = "cr_unresolved r"
  have "(\<Sum>d\<leftarrow>?ds. unat (decision_logical_size d)) \<le> 27 * length ?ds + decisions_text ?ds"
    unfolding decisions_text_def using assms decision_size_bound by (intro sum_list_bound) (force simp: list_all_iff)
  moreover have "(\<Sum>u\<leftarrow>?us. unat (unresolved_logical_size u)) \<le> 38 * length ?us + issues_text ?us"
    unfolding issues_text_def using issue_size_bound by (intro sum_list_bound) force
  ultimately show ?thesis
    unfolding result_logical_size_bytes_def unat_foldl64 unat_saturating_add64 min_min_add min_add_min
    by (simp add: min_min_add min_add_min)
qed

section \<open>The derived limits\<close>

lemma unat_derived:
  assumes "moderate_limits l"
  shows "unat (derived_decisions l) = 4 * unat (max_imagination_entities l) + unat (max_imagination_relations l)"
    and "unat (derived_unresolved l) = unat (max_imagination_relations l) + unat (max_imagination_constraints l)"
    and "unat (derived_text l) = min (6 * unat (max_text_bytes l)) u64_max"
    and "unat (derived_decoded l) = min (unat (max_decoded_bytes l) + 6 * unat (max_text_bytes l) +
      27 * unat (derived_decisions l) + 38 * unat (derived_unresolved l) + 35) u64_max"
proof -
  show "unat (derived_decisions l) = 4 * unat (max_imagination_entities l) + unat (max_imagination_relations l)"
    "unat (derived_unresolved l) = unat (max_imagination_relations l) + unat (max_imagination_constraints l)"
    using assms
    by (simp_all add: derived_decisions_def derived_unresolved_def unat_saturating_add unat_saturating_mul
        moderate_limits_def mult.commute)
  have mul: "unat (saturating_mul a b :: u64) = min (unat a * unat b) u64_max" for a b
    by (simp add: unat_saturating_mul u64_max_def)
  show txt6: "unat (derived_text l) = min (6 * unat (max_text_bytes l)) u64_max"
    by (simp add: derived_text_def mul mult.commute)
  show "unat (derived_decoded l) = min (unat (max_decoded_bytes l) + 6 * unat (max_text_bytes l) +
      27 * unat (derived_decisions l) + 38 * unat (derived_unresolved l) + 35) u64_max"
    unfolding derived_decoded_def unat_saturating_add64 mul txt6 min_min_add min_add_min
    by (simp add: unat_ucast_u64 mult.commute min_min_add min_add_min)
qed

text \<open>Counts and texts within those of a request give a result within the derived limits.\<close>

lemma result_within:
  assumes m: "moderate_limits l" and shape: "list_all decision_valid (cr_decisions r)"
    and ds: "length (cr_decisions r) \<le> unat (derived_decisions l)"
    and us: "length (cr_unresolved r) \<le> unat (derived_unresolved l)"
    and words: "result_patch_text r + decisions_text (cr_decisions r) + issues_text (cr_unresolved r)
      \<le> 6 * unat (max_text_bytes l)"
    and size: "result_patch_size r \<le> unat (max_decoded_bytes l)"
  shows "result_text_bytes r \<le> derived_text l" "result_logical_size_bytes r \<le> derived_decoded l"
    "len_or_max (length (cr_decisions r)) \<le> derived_decisions l"
    "len_or_max (length (cr_unresolved r)) \<le> derived_unresolved l"
proof -
  show "result_text_bytes r \<le> derived_text l"
    unfolding word_le_unat unat_result_text unat_derived(3) [OF m] using words by (rule min.mono) simp
  have "27 * length (cr_decisions r) \<le> 27 * unat (derived_decisions l)"
    "38 * length (cr_unresolved r) \<le> 38 * unat (derived_unresolved l)" using ds us by simp_all
  then have "35 + result_patch_size r + (27 * length (cr_decisions r) + decisions_text (cr_decisions r)) +
      (38 * length (cr_unresolved r) + issues_text (cr_unresolved r)) \<le>
    unat (max_decoded_bytes l) + 6 * unat (max_text_bytes l) +
      27 * unat (derived_decisions l) + 38 * unat (derived_unresolved l) + 35"
    using words size by linarith
  from order_trans [OF unat_result_size [OF shape] min.mono [OF this order_refl]]
  show "result_logical_size_bytes r \<le> derived_decoded l"
    unfolding word_le_unat unat_derived(4) [OF m] .
  show "len_or_max (length (cr_decisions r)) \<le> derived_decisions l"
    "len_or_max (length (cr_unresolved r)) \<le> derived_unresolved l"
    using ds us by (simp_all add: word_le_unat unat_count32 min.coboundedI1)
qed

section \<open>Counting by relation\<close>

text \<open>What every relation accounts for at most once is bounded by a sum over the relations.\<close>

lemma sum_by_relation:
  assumes S: "finite S" and P: "\<And>x. x \<in> S \<Longrightarrow> \<exists>n. n < length rs \<and> P x n"
    and inj: "\<And>x y n. x \<in> S \<Longrightarrow> y \<in> S \<Longrightarrow> P x n \<Longrightarrow> P y n \<Longrightarrow> x = y"
    and le: "\<And>x n. x \<in> S \<Longrightarrow> n < length rs \<Longrightarrow> P x n \<Longrightarrow> f x \<le> g (rs ! n)"
  shows "sum f S \<le> (\<Sum>r\<leftarrow>rs. g r :: nat)"
proof -
  from P have "\<forall>x\<in>S. \<exists>n. n < length rs \<and> P x n" by blast
  then obtain h where h: "\<forall>x\<in>S. h x < length rs \<and> P x (h x)" by (rule bchoice [THEN exE])
  have hinj: "inj_on h S"
  proof (rule inj_onI)
    fix x y
    assume "x \<in> S" "y \<in> S" "h x = h y"
    then show "x = y" using inj h by metis
  qed
  have "sum f S \<le> sum (\<lambda>x. g (rs ! h x)) S" using h le by (intro sum_mono) blast
  also have "\<dots> = sum (\<lambda>n. g (rs ! n)) (h ` S)" by (simp add: sum.reindex [OF hinj])
  also have "\<dots> \<le> sum (\<lambda>n. g (rs ! n)) {0..<length rs}" using h by (intro sum_mono2) auto
  also have "\<dots> = (\<Sum>r\<leftarrow>rs. g r)" by (simp add: sum_list_sum_nth)
  finally show ?thesis .
qed

lemma sum_list_distinct: "distinct xs \<Longrightarrow> (\<Sum>x\<leftarrow>xs. f x :: nat) = sum f (set xs)"
  by (rule sum_list_distinct_conv_sum_set)

section \<open>Decisions\<close>

abbreviation decision_key :: "compilation_decision \<Rightarrow> (scene_text \<times> u8) \<times> u32 option" where
  "decision_key d \<equiv> ((dec_entity_key d, decision_rank (dec_code d)), dec_relation_index d)"

lemma validate_decisions_sorted:
  assumes "distinct (map decision_key ds)" "list_all decision_valid ds"
  shows "validate_decisions (sort_by decision_cmp ds) = Inr ()"
proof -
  have "list_all decision_valid (sort_by decision_cmp ds)" using assms(2) by (simp add: list_all_iff)
  then show ?thesis
    unfolding validate_decisions_def
    using decisions.distinct_sort_by [OF assms(1)] validate_order_iff [of decision_cmp, OF decisions.f_Less_iff]
    by simp
qed

lemma decisions_text_mset: "mset xs = mset ys \<Longrightarrow> decisions_text xs = decisions_text ys"
  unfolding decisions_text_def by (metis mset_map sum_mset_sum_list)

lemma decisions_text_append: "decisions_text (xs @ ys) = decisions_text xs + decisions_text ys"
  by (simp add: decisions_text_def)

text \<open>The decisions about one entity.\<close>

lemma entity_decisions_facts:
  assumes "entity_decisions e ds"
  shows "length ds \<le> 4" "list_all decision_valid ds" "distinct (map decision_key ds)"
    "\<forall>d\<in>set ds. dec_entity_key d = ie_key e \<and> decision_rank (dec_code d) < 5"
  using assms by (auto simp: entity_decisions_def defaults_of_def default_decision_def id_decision_def decision_valid_def)

lemma relation_decisions_facts:
  assumes "plan_related keys p"
  shows "length (relation_decisions p) = (if carries_relation p then 1 else 0)"
    "list_all decision_valid (relation_decisions p)" "distinct (map decision_key (relation_decisions p))"
    "\<forall>d\<in>set (relation_decisions p). dec_entity_key d = ep_key p \<and> \<not> decision_rank (dec_code d) < 5"
proof -
  have *: "(ep_parent p = None \<longleftrightarrow> ep_parent_relation p = None) \<and> (ep_parent p = None \<or> ep_placement p = None)"
    using assms unfolding plan_related_def by (elim conjE) (intro conjI)
  have "(relation_decisions p = [] \<and> \<not> carries_relation p) \<or>
      (\<exists>r code. relation_decisions p = [relation_decision code (ep_key p) r] \<and> carries_relation p \<and>
        code \<in> {ParentRelationApplied, AboveRelationApplied, RightOfRelationApplied})"
  proof (cases "ep_parent_relation p")
    case None
    show ?thesis
    proof (cases "ep_placement p")
      case (Some pl)
      with None have "carries_relation p" "relation_decisions p =
          [relation_decision (placement_decision_code (pl_kind pl)) (ep_key p) (pl_relation_index pl)]"
        by (simp_all add: relation_decisions_def carries_relation_def)
      moreover have "placement_decision_code (pl_kind pl)
          \<in> {ParentRelationApplied, AboveRelationApplied, RightOfRelationApplied}"
        by (cases "pl_kind pl") simp_all
      ultimately show ?thesis by blast
    qed (use * None in \<open>simp add: relation_decisions_def carries_relation_def\<close>)
  next
    case (Some r)
    with * have "ep_placement p = None" "ep_parent p \<noteq> None" by auto
    with Some have "relation_decisions p = [relation_decision ParentRelationApplied (ep_key p) r]" "carries_relation p"
      by (simp_all add: relation_decisions_def carries_relation_def)
    then show ?thesis by blast
  qed
  then consider "relation_decisions p = []" "\<not> carries_relation p"
    | r code where "relation_decisions p = [relation_decision code (ep_key p) r]" "carries_relation p"
        "code \<in> {ParentRelationApplied, AboveRelationApplied, RightOfRelationApplied}" by blast
  note C = this
  show "length (relation_decisions p) = (if carries_relation p then 1 else 0)" by (rule C) simp_all
  show "list_all decision_valid (relation_decisions p)"
    by (rule C) (auto simp: relation_decision_def decision_valid_def)
  show "distinct (map decision_key (relation_decisions p))" by (rule C) simp_all
  show "\<forall>d\<in>set (relation_decisions p). dec_entity_key d = ep_key p \<and> \<not> decision_rank (dec_code d) < 5"
    by (rule C) (auto simp: relation_decision_def)
qed

text \<open>Lists of decisions, one for each of several different keys.\<close>

lemma distinct_by_key:
  assumes "distinct ks" "length dss = length ks" "\<And>ds. ds \<in> set dss \<Longrightarrow> distinct (map decision_key ds)"
    and "\<And>i d. i < length ks \<Longrightarrow> d \<in> set (dss ! i) \<Longrightarrow> dec_entity_key d = ks ! i"
  shows "distinct (map decision_key (concat dss))"
  using assms
proof (induction dss arbitrary: ks)
  case (Cons ds dss)
  then obtain k ks' where ks: "ks = k # ks'" by (cases ks) auto
  have key: "dec_entity_key d = k" if "d \<in> set ds" for d using Cons.prems(4) [of 0 d] that ks by simp
  have rest: "dec_entity_key d = ks' ! i" if "i < length ks'" "d \<in> set (dss ! i)" for i d
    using Cons.prems(4) [of "Suc i" d] that ks by simp
  have "distinct (map decision_key (concat dss))"
    using Cons.prems(1-3) rest ks by (intro Cons.IH [of ks']) auto
  moreover have "dec_entity_key d \<noteq> k" if "d \<in> set (concat dss)" for d
  proof -
    from that obtain ds' where ds': "ds' \<in> set dss" "d \<in> set ds'" by auto
    then obtain i where "i < length dss" "dss ! i = ds'" by (auto simp: in_set_conv_nth)
    with ds'(2) show ?thesis using rest [of i d] Cons.prems(1,2) ks by auto
  qed
  then have "decision_key ` set ds \<inter> decision_key ` set (concat dss) = {}" using key by fastforce
  moreover have "distinct (map decision_key ds)" using Cons.prems(3) by simp
  ultimately show ?case unfolding concat.simps map_append distinct_append set_map by blast
qed simp

text \<open>The decisions about the entities of a request.\<close>

definition key_text :: "imagined_entity list \<Rightarrow> nat" where
  "key_text es = (\<Sum>e\<leftarrow>es. len_bytes (ie_key e))"

lemma decisions_text_bound:
  "(\<And>d. d \<in> set ds \<Longrightarrow> dec_entity_key d = k) \<Longrightarrow> decisions_text ds = length ds * len_bytes k"
  unfolding decisions_text_def by (rule sum_list_constant) simp

lemma entities_decisions_facts:
  assumes "list_all2 entity_decisions es dss" "distinct (map ie_key es)"
  shows "length (concat dss) \<le> 4 * length es" "decisions_text (concat dss) \<le> 4 * key_text es"
    "list_all decision_valid (concat dss)" "distinct (map decision_key (concat dss))"
    "\<forall>d\<in>set (concat dss). decision_rank (dec_code d) < 5"
proof -
  have "length (concat dss) \<le> 4 * length es \<and> decisions_text (concat dss) \<le> 4 * key_text es \<and>
      list_all decision_valid (concat dss) \<and> (\<forall>d\<in>set (concat dss). decision_rank (dec_code d) < 5)"
    using assms(1)
  proof (induction rule: list_all2_induct)
    case (Cons e es ds dss)
    note f = entity_decisions_facts [OF Cons.hyps(1)]
    have "decisions_text ds = length ds * len_bytes (ie_key e)" using f(4) by (intro decisions_text_bound) blast
    also have "\<dots> \<le> 4 * len_bytes (ie_key e)" using f(1) by (rule mult_le_mono1)
    finally have "decisions_text ds \<le> 4 * len_bytes (ie_key e)" .
    moreover have "list_all decision_valid (ds @ concat dss)" using f(2) Cons.IH by simp
    moreover have "\<forall>d\<in>set (ds @ concat dss). decision_rank (dec_code d) < 5"
      using f(4) Cons.IH unfolding set_append by blast
    ultimately show ?case using f(1) Cons.IH by (simp add: decisions_text_append key_text_def)
  qed (simp add: decisions_text_def key_text_def)
  then show "length (concat dss) \<le> 4 * length es" "decisions_text (concat dss) \<le> 4 * key_text es"
    "list_all decision_valid (concat dss)" "\<forall>d\<in>set (concat dss). decision_rank (dec_code d) < 5" by blast+
  note nth = list_all2_nthD [OF assms(1)] and len = list_all2_lengthD [OF assms(1)]
  show "distinct (map decision_key (concat dss))"
  proof (rule distinct_by_key [OF assms(2)])
    show "length dss = length (map ie_key es)" using len by simp
  next
    fix ds
    assume "ds \<in> set dss"
    then obtain i where "i < length dss" "ds = dss ! i" unfolding in_set_conv_nth by blast
    then show "distinct (map decision_key ds)"
      using entity_decisions_facts(3) [OF nth [of i]] len by simp
  next
    fix i d
    assume "i < length (map ie_key es)" "d \<in> set (dss ! i)"
    then show "dec_entity_key d = map ie_key es ! i" using entity_decisions_facts(4) [OF nth [of i]] by simp
  qed
qed

text \<open>The decisions about the relations of a request.\<close>

lemma no_relation_decisions:
  assumes "related rs es" "p \<in> set es" "\<not> carries_relation p"
  shows "relation_decisions p = []"
  using relation_decisions_facts(1) [OF relatedD(1) [OF assms(1,2)]] assms(3) by simp

lemma relation_decisions_sum:
  assumes rel: "related rs es" and f: "f [] = 0"
    and le: "\<And>p n. p \<in> set es \<Longrightarrow> carries_relation p \<Longrightarrow> assigned rs p n \<Longrightarrow> f (relation_decisions p) \<le> g (rs ! n)"
  shows "(\<Sum>p\<leftarrow>es. f (relation_decisions p)) \<le> (\<Sum>r\<leftarrow>rs. g r :: nat)"
proof -
  let ?S = "{p \<in> set es. carries_relation p}"
  have keys: "inj_on ep_key (set es)" and d: "distinct es" using rel by (simp_all add: related_def distinct_map)
  have "(\<Sum>p\<leftarrow>es. f (relation_decisions p)) = sum (\<lambda>p. f (relation_decisions p)) (set es)"
    by (rule sum_list_distinct [OF d])
  also have "\<dots> = sum (\<lambda>p. f (relation_decisions p)) ?S"
  proof (rule sum.mono_neutral_right)
    show "\<forall>p\<in>set es - ?S. f (relation_decisions p) = 0"
    proof
      fix p
      assume "p \<in> set es - ?S"
      then have "relation_decisions p = []" by (intro no_relation_decisions [OF rel]) simp_all
      then show "f (relation_decisions p) = 0" by (simp only: f)
    qed
  qed simp_all
  also have "\<dots> \<le> (\<Sum>r\<leftarrow>rs. g r)"
  proof (rule sum_by_relation [where P = "assigned rs"])
    fix p
    assume "p \<in> ?S"
    then obtain n where "assigned rs p n" using relatedD(2) [OF rel, of p] by blast
    then show "\<exists>n. n < length rs \<and> assigned rs p n" by (intro exI [of _ n]) (simp add: assigned_def)
  next
    fix p q n
    assume "p \<in> ?S" "q \<in> ?S" "assigned rs p n" "assigned rs q n"
    then show "p = q" using assigned_subject [of rs p n] assigned_subject [of rs q n]
      by (intro inj_onD [OF keys]) simp_all
  next
    fix p n
    assume "p \<in> ?S" "assigned rs p n"
    then show "f (relation_decisions p) \<le> g (rs ! n)" by (intro le) simp_all
  qed simp
  finally show ?thesis .
qed

lemma relations_decisions_facts:
  assumes rel: "related rs es"
  shows "length (concat (map relation_decisions es)) \<le> length rs"
    "decisions_text (concat (map relation_decisions es)) \<le> (\<Sum>r\<leftarrow>rs. relation_text r)"
    "list_all decision_valid (concat (map relation_decisions es))"
    "distinct (map decision_key (concat (map relation_decisions es)))"
    "\<forall>d\<in>set (concat (map relation_decisions es)). \<not> decision_rank (dec_code d) < 5"
proof -
  note facts = relation_decisions_facts [OF relatedD(1) [OF rel]]
  have keys: "distinct (map ep_key es)" using rel by (simp add: related_def)
  have "length (concat (map relation_decisions es)) = (\<Sum>p\<leftarrow>es. length (relation_decisions p))"
    by (simp add: length_concat comp_def)
  also have "\<dots> \<le> (\<Sum>r\<leftarrow>rs. 1)" by (rule relation_decisions_sum [OF rel]) (simp_all add: facts(1))
  finally show "length (concat (map relation_decisions es)) \<le> length rs" by (simp add: sum_list_triv)
  have "decisions_text (concat (map relation_decisions es)) = (\<Sum>p\<leftarrow>es. decisions_text (relation_decisions p))"
    by (induction es) (simp_all add: decisions_text_def)
  also have "\<dots> \<le> (\<Sum>r\<leftarrow>rs. relation_text r)"
  proof (rule relation_decisions_sum [OF rel])
    fix p n
    assume p: "p \<in> set es" "carries_relation p" "assigned rs p n"
    have "decisions_text (relation_decisions p) = length (relation_decisions p) * len_bytes (ep_key p)"
      by (rule decisions_text_bound) (rule bspec [OF facts(4) [OF p(1)], THEN conjunct1])
    then show "decisions_text (relation_decisions p) \<le> relation_text (rs ! n)"
      using facts(1) [OF p(1)] p(2) assigned_subject [OF p(3)] by (simp add: relation_text_def)
  qed (simp add: decisions_text_def)
  finally show "decisions_text (concat (map relation_decisions es)) \<le> (\<Sum>r\<leftarrow>rs. relation_text r)" .
  show "list_all decision_valid (concat (map relation_decisions es))" using facts(2) by (simp add: list_all_iff)
  show "\<forall>d\<in>set (concat (map relation_decisions es)). \<not> decision_rank (dec_code d) < 5"
    using facts(4) by simp
  show "distinct (map decision_key (concat (map relation_decisions es)))"
  proof (rule distinct_by_key [OF keys])
    fix ds
    assume "ds \<in> set (map relation_decisions es)"
    then obtain p where "p \<in> set es" "ds = relation_decisions p" unfolding set_map by blast
    then show "distinct (map decision_key ds)" using facts(3) by (simp only:)
  next
    fix i d
    assume "i < length (map ep_key es)" "d \<in> set (map relation_decisions es ! i)"
    then show "dec_entity_key d = map ep_key es ! i" using facts(4) [OF nth_mem [of i es]] by simp
  qed simp
qed

end
