(* ===== verification/Compiler_Complete.thy ===== *)
theory Compiler_Complete
  imports Compiler_Outcome
begin

text \<open>
  The outcome of a compilation under limits derived from those of the request: the issues fit,
  every result is valid, and the only reasons for which a valid request is refused are those the
  compiler cannot foresee.
\<close>

section \<open>Issues\<close>

abbreviation issue_key where
  "issue_key u \<equiv> (((((un_relation_index u, un_constraint_index u), unresolved_rank (un_code u)),
     un_entity_key u), un_related_key u), un_entity_id u)"

lemma canonical_issues:
  defines "canonical us \<equiv> remdups_adj (sort_by unresolved_cmp us)"
  shows "sorted_wrt (<) (map issue_key (canonical us))" "distinct (canonical us)" "set (canonical us) = set us"
proof -
  have "map issue_key (canonical us) = remdups_adj (map issue_key (sort_by unresolved_cmp us))"
    unfolding canonical_def by (rule map_remdups_adj_inj [OF issue_key_inject])
  then show "sorted_wrt (<) (map issue_key (canonical us))"
    using sorted_remdups_adj_strict [OF issues.sorted_sort_by] by simp
  then show "distinct (canonical us)" by (simp add: strict_sorted_iff distinct_map)
  show "set (canonical us) = set us" by (simp add: canonical_def)
qed

lemma validate_unresolved_canonical:
  assumes "\<forall>u\<in>set us. unresolved_valid u"
  shows "validate_unresolved (remdups_adj (sort_by unresolved_cmp us)) = Inr ()"
proof -
  have "list_all unresolved_valid (remdups_adj (sort_by unresolved_cmp us))"
    using assms by (simp add: list_all_iff)
  then show ?thesis
    unfolding validate_unresolved_def
    using canonical_issues(1) [of us] validate_order_iff [of unresolved_cmp, OF issues.f_Less_iff] by simp
qed

lemma issue_for_facts:
  assumes "issue_for rs u n"
  shows "n < length rs" "unresolved_valid u" "un_relation_index u = Some (len_or_max n)"
    "issue_text u = relation_text (rs ! n)"
  using assms
  by (auto simp: issue_for_def relation_issue_def unresolved_valid_def relation_issue_shape_def
      issue_text_def option_text_def relation_text_def)

lemma relation_issues_bound:
  assumes r: "relation_issues rs us" and len: "length rs \<le> 2 ^ 32"
  shows "card (set us) \<le> length rs" "sum issue_text (set us) \<le> (\<Sum>r\<leftarrow>rs. relation_text r)"
proof -
  have ex: "\<exists>n. n < length rs \<and> issue_for rs u n" if "u \<in> set us" for u
    using r that issue_for_facts(1) unfolding relation_issues_def by blast
  have inj: "u = w" if "u \<in> set us" "w \<in> set us" "issue_for rs u n" "issue_for rs w n" for u w n
    using r len that(1,2) issue_for_facts(3) [OF that(3)] issue_for_facts(3) [OF that(4)]
    unfolding relation_issues_def by simp
  have "sum (\<lambda>_. 1) (set us) \<le> (\<Sum>r\<leftarrow>rs. 1 :: nat)"
    by (rule sum_by_relation [where P = "issue_for rs"]) (use ex inj in auto)
  then show "card (set us) \<le> length rs" by (simp add: sum_list_triv)
  show "sum issue_text (set us) \<le> (\<Sum>r\<leftarrow>rs. relation_text r)"
    by (rule sum_by_relation [where P = "issue_for rs"]) (use ex inj issue_for_facts(4) in auto)
qed

lemma constraint_issues:
  "length (check_scene_constraints v scene) \<le> length (env_constraints v)"
  "u \<in> set (check_scene_constraints v scene) \<Longrightarrow> unresolved_valid u \<and> issue_text u = 0"
proof -
  have "length (check_scene_constraints v scene) \<le> length (zip [0..<length (env_constraints v)] (env_constraints v))"
    unfolding check_scene_constraints_def List.map_filter_def length_map by (rule length_filter_le)
  then show "length (check_scene_constraints v scene) \<le> length (env_constraints v)" by simp
  have "unresolved_valid u \<and> issue_text u = 0" if "check_constraint scene i c = Some u" for i c
    using that by (cases c) (auto simp: constraint_issue_def unresolved_valid_def constraint_issue_shape_def
        issue_text_def option_text_def split: if_splits)
  then show "u \<in> set (check_scene_constraints v scene) \<Longrightarrow> unresolved_valid u \<and> issue_text u = 0"
    by (auto simp: check_scene_constraints_def List.map_filter_def)
qed

lemma unresolved_bound:
  fixes scene :: compilation_scene_view
  assumes r: "relation_issues (env_relations v) us" and len: "length (env_relations v) \<le> 2 ^ 32"
  defines "all \<equiv> remdups_adj (sort_by unresolved_cmp (check_scene_constraints v scene @ us))"
  shows "length all \<le> length (env_relations v) + length (env_constraints v)"
    "issues_text all \<le> (\<Sum>r\<leftarrow>env_relations v. relation_text r)"
    "validate_unresolved all = Inr ()"
proof -
  let ?c = "check_scene_constraints v scene"
  note can = canonical_issues(2,3) [of "?c @ us", folded all_def] and b = relation_issues_bound [OF r len]
  have "length all = card (set ?c \<union> set us)" using can by (simp add: distinct_card [symmetric])
  also have "\<dots> \<le> card (set ?c) + card (set us)" by (rule card_Un_le)
  also have "\<dots> \<le> length (env_constraints v) + length (env_relations v)"
    using b(1) card_length [of ?c] constraint_issues(1) [of v scene] by linarith
  finally show "length all \<le> length (env_relations v) + length (env_constraints v)" by simp
  have "issues_text all = sum issue_text (set ?c \<union> set us)"
    unfolding issues_text_def sum_list_distinct [OF can(1)] can(2) by simp
  also have "\<dots> \<le> sum issue_text (set ?c) + sum issue_text (set us)"
    by (simp add: sum_Un_nat)
  also have "\<dots> = sum issue_text (set us)" using constraint_issues(2) by simp
  finally show "issues_text all \<le> (\<Sum>r\<leftarrow>env_relations v. relation_text r)" using b(2) by simp
  have "unresolved_valid u" if "u \<in> set us" for u
    using r that issue_for_facts(2) unfolding relation_issues_def by blast
  then show "validate_unresolved all = Inr ()"
    unfolding all_def by (intro validate_unresolved_canonical) (use constraint_issues(2) in auto)
qed

section \<open>Results are valid\<close>

lemma request_text_sums: "key_text es \<le> (\<Sum>e\<leftarrow>es. request_text e)" "name_text es \<le> (\<Sum>e\<leftarrow>es. request_text e)"
proof -
  show "key_text es \<le> (\<Sum>e\<leftarrow>es. request_text e)"
    unfolding key_text_def by (rule sum_list_mono) (simp add: request_text_def)
  show "name_text es \<le> (\<Sum>e\<leftarrow>es. request_text e)"
    unfolding name_text_def
    by (rule sum_list_mono) (simp add: request_text_def entity_name_def split: option.split)
qed

lemma key_text_sorted: "key_text (sorted_entities v) = key_text (env_entities v)"
proof -
  have "key_text es = sum_mset (image_mset (\<lambda>e. len_bytes (ie_key e)) (mset es))" for es
    by (simp only: key_text_def mset_map [symmetric] sum_mset_sum_list)
  then show ?thesis by (simp only: mset_sorted_entities)
qed

lemma envelope_text_bound:
  assumes "envelope_validate v limits = Inr ()" "moderate_limits limits"
  shows "envelope_text v \<le> unat (max_text_bytes limits)"
proof -
  have "unat (max_text_bytes limits) < 2 ^ 63" using assms(2) by (simp add: moderate_limits_def word_less_unat)
  then have "unat (max_text_bytes limits) < u64_max" by (simp add: u64_max_def)
  then show ?thesis using envelope_budget(11) [OF assms(1)] by linarith
qed

text \<open>A result within the bounds of the request passes the validation under the derived limits.\<close>

lemma result_valid_within:
  assumes m: "moderate_limits l" and r: "r = completed_result v scene patch (sort_by decision_cmp ds) us"
    and outcome: "validate_outcome r (for_runtime_limits l) = Inr ()"
    and ds: "distinct (map decision_key ds)" "list_all decision_valid ds" and us: "validate_unresolved us = Inr ()"
    and counts: "length ds \<le> 4 * unat (max_imagination_entities l) + unat (max_imagination_relations l)"
      "length us \<le> unat (max_imagination_relations l) + unat (max_imagination_constraints l)"
    and words: "result_patch_text r + decisions_text ds + issues_text us \<le> 6 * unat (max_text_bytes l)"
    and size: "result_patch_size r \<le> unat (max_decoded_bytes l)"
  shows "result_validate r (for_runtime_limits l) = Inr ()"
proof -
  have f: "cr_schema_version r = V1" "cr_decisions r = sort_by decision_cmp ds" "cr_unresolved r = us"
    unfolding r completed_result_def by simp_all
  have "decisions_text (sort_by decision_cmp ds) = decisions_text ds" by (rule decisions_text_mset) simp
  with words have words': "result_patch_text r + decisions_text (cr_decisions r) + issues_text (cr_unresolved r)
      \<le> 6 * unat (max_text_bytes l)" unfolding f by simp
  have shape: "list_all decision_valid (cr_decisions r)" using ds(2) unfolding f by (simp add: list_all_iff)
  have "length (cr_decisions r) \<le> unat (derived_decisions l)" "length (cr_unresolved r) \<le> unat (derived_unresolved l)"
    using counts unfolding f unat_derived(1,2) [OF m] by simp_all
  note within = result_within [OF m shape this words' size]
  show ?thesis
    using outcome within us validate_decisions_sorted [OF ds]
    unfolding result_validate_def f by (simp add: for_runtime_limits_def not_less)
qed

lemma unresolved_result_valid:
  assumes v: "envelope_validate v l = Inr ()" and m: "moderate_limits l"
    and ds: "list_all2 entity_decisions (sorted_entities v) dss"
    and us: "relation_issues (env_relations v) us" "check_scene_constraints v scene @ us \<noteq> []"
  shows "result_validate (completed_result v scene None (sort_by decision_cmp (concat dss))
    (remdups_adj (sort_by unresolved_cmp (check_scene_constraints v scene @ us)))) (for_runtime_limits l) = Inr ()"
    (is "result_validate ?r _ = _")
proof -
  let ?all = "remdups_adj (sort_by unresolved_cmp (check_scene_constraints v scene @ us))"
  note c = collection_sizes [OF v m]
  have keys: "distinct (map ie_key (sorted_entities v))" using sorted_keys [OF v] by (simp add: strict_sorted_iff)
  note df = entities_decisions_facts [OF ds keys]
  have "unat (max_imagination_relations l) < 2 ^ 32 - 1" using m unfolding moderate_limits_def by linarith
  then have "length (env_relations v) \<le> 2 ^ 32" using c(2) by linarith
  note uf = unresolved_bound [OF us(1) this, of scene]
  have "?all \<noteq> []" using canonical_issues(3) [of "check_scene_constraints v scene @ us"] us(2) by (metis set_empty)
  then have outcome: "validate_outcome ?r (for_runtime_limits l) = Inr ()"
    by (simp add: validate_outcome_def completed_result_def)
  have patch: "result_patch_text ?r = 0" "result_patch_size ?r = 0" by (simp_all add: completed_result_def)
  have "decisions_text (concat dss) + issues_text ?all \<le> 6 * unat (max_text_bytes l)"
    using df(2) uf(2) request_text_sums(1) [of "env_entities v"] envelope_text_bound [OF v m]
    unfolding envelope_text_def key_text_sorted by linarith
  then show ?thesis
    using df(1) uf(1) c patch
    by (intro result_valid_within [OF m refl outcome df(4,3) uf(3)]) simp_all
qed

lemma moved_decisions: "moved p q \<Longrightarrow> relation_decisions q = relation_decisions p"
  by (simp only: relation_decisions_def moved_fields)

lemma decision_keys_disjoint:
  assumes "\<forall>d\<in>A. decision_rank (dec_code d) < 5" "\<forall>d\<in>B. \<not> decision_rank (dec_code d) < 5"
  shows "decision_key ` A \<inter> decision_key ` B = {}"
proof (rule equals0I)
  fix k
  assume "k \<in> decision_key ` A \<inter> decision_key ` B"
  then obtain a b where "a \<in> A" "b \<in> B" "k = decision_key a" "k = decision_key b" by (elim IntE imageE)
  then show False using bspec [OF assms(1)] bspec [OF assms(2)] by force
qed

lemma compiled_result_valid:
  assumes v: "envelope_validate v l = Inr ()" and rev: "env_base_revision v = sv_revision scene"
    and m: "moderate_limits l" and n: "length ids = length (env_entities v)" and d: "distinct ids"
    and ds: "list_all2 entity_decisions (sorted_entities v) dss"
    and r: "resolved_plans (map2 planned (sorted_entities v) ids) (env_relations v) es ps"
  shows "result_validate (completed_result v scene (Some (patch_of_plans v ps))
    (sort_by decision_cmp (append_relation_decisions ps (concat dss))) []) (for_runtime_limits l) = Inr ()"
    (is "result_validate ?r _ = _")
proof -
  let ?p = "patch_of_plans v ps" and ?rd = "concat (map relation_decisions ps)"
  note c = collection_sizes [OF v m] and f = resolved_facts [OF v n r] and mv = resolved_moved [OF r]
  have keys: "distinct (map ie_key (sorted_entities v))" using sorted_keys [OF v] by (simp add: strict_sorted_iff)
  note df = entities_decisions_facts [OF ds keys]
  have d0: "distinct (map ep_key (map2 planned (sorted_entities v) ids))"
    using planned_fresh [OF v n] by (simp add: fresh_plans_def)
  have rel: "related (env_relations v) es"
    using r relations_inv_related(1) [OF _ d0] unfolding resolved_plans_def by blast
  have "map relation_decisions ps = map relation_decisions es"
    by (rule nth_equalityI) (simp_all add: mv(1) moved_decisions [OF mv(2)])
  note rf = relations_decisions_facts [OF rel, folded this]
  have all: "append_relation_decisions ps (concat dss) = concat dss @ ?rd" by (simp add: append_relation_decisions_def)
  have "decision_key ` set (concat dss) \<inter> decision_key ` set ?rd = {}"
    by (rule decision_keys_disjoint [OF df(5) rf(5)])
  then have dist: "distinct (map decision_key (append_relation_decisions ps (concat dss)))"
    unfolding all map_append distinct_append set_map using df(4) rf(4) by blast
  have shape: "list_all decision_valid (append_relation_decisions ps (concat dss))"
    unfolding all using df(3) rf(3) by (simp only: list_all_append)
  have p: "patch_validate ?p l = Inr ()" by (rule compiled_patch_valid [OF v m n d r])
  have outcome: "validate_outcome ?r (for_runtime_limits l) = Inr ()"
    using p rev envelope_validate_parts(1) [OF v]
    by (simp add: validate_outcome_def completed_result_def for_runtime_limits_def patch_of_plans_def)
  note fit = patch_counts_fit [OF v m f(1,4,5)]
  have "result_patch_size ?r \<le> unat (max_decoded_bytes l)"
    using fit(4) envelope_budget(5) [OF v] by (simp add: completed_result_def word_le_unat)
  moreover have "result_patch_text ?r \<le> delivery_text_bytes (env_delivery v) + name_text (env_entities v)"
    by (simp add: completed_result_def patch_measures f(4))
  then have "result_patch_text ?r + decisions_text (concat dss @ ?rd) + issues_text [] \<le> 6 * unat (max_text_bytes l)"
    using df(2) rf(2) request_text_sums [of "env_entities v"] envelope_text_bound [OF v m]
    unfolding envelope_text_def key_text_sorted decisions_text_append issues_text_def by simp
  moreover have "length (concat dss @ ?rd) \<le> 4 * unat (max_imagination_entities l) + unat (max_imagination_relations l)"
    using df(1) rf(1) c unfolding length_append by simp
  ultimately show ?thesis
    by (intro result_valid_within [OF m refl outcome dist shape]) (simp_all add: all validate_unresolved_def)
qed

end
