(* ===== verification/Compiler_Theorems.thy ===== *)
theory Compiler_Theorems
  imports Compiler_Complete
begin

text \<open>
  When a compilation succeeds, and the reasons for which it does not, with an example request
  on which the properties of the compiler are instantiated.
\<close>

section \<open>The outcome of a compilation\<close>

lemma derive_attempts_error:
  "derive_attempts sha config v key n scene used attempt = Inl e \<Longrightarrow>
     e = EntityIdDerivationExhausted n (cc_max_entity_id_attempts config)"
proof (induction sha config v key n scene used attempt rule: derive_attempts.induct)
  case (1 sha config v key n scene used attempt)
  from "1.prems" show ?case
    unfolding derive_attempts.simps [of sha config v key n scene used attempt]
    using "1.IH" by (auto split: if_splits sum.splits)
qed

lemma choose_entity_id_error:
  assumes "choose_entity_id sha config v scene used n e = Inl err"
  shows "err = EntityIdDerivationExhausted (len_or_max n) (cc_max_entity_id_attempts config)"
  using assms derive_attempts_error
  by (auto simp: choose_entity_id_def derive_entity_id_def map_sum_def split: option.splits if_splits sum.splits)

lemma plan_loop_error:
  "plan_loop sha config v scene n es used st = Inl err \<Longrightarrow>
     \<exists>i. err = EntityIdDerivationExhausted i (cc_max_entity_id_attempts config)"
proof (induction es arbitrary: n used st)
  case Nil
  then show ?case by (cases st) simp
next
  case (Cons e es)
  obtain entities decisions where st: "st = (entities, decisions)" by (cases st)
  show ?case
  proof (cases "choose_entity_id sha config v scene used n e")
    case (Inl x)
    with Cons.prems st show ?thesis using choose_entity_id_error [OF Inl] by auto
  next
    case (Inr ic)
    then show ?thesis using Cons.prems Cons.IH st by (cases ic) (auto simp: plan_entity_eq)
  qed
qed

lemma plan_entities_error:
  "plan_entities sha config v scene = Inl err \<Longrightarrow>
     \<exists>i. err = EntityIdDerivationExhausted i (cc_max_entity_id_attempts config)"
  unfolding plan_entities_def by (rule plan_loop_error)

text \<open>With a valid result, completing it can only fail in the serializer.\<close>

lemma write_chunks_error:
  "write_chunks w chunks = (ok, w') \<Longrightarrow> bw_error w \<noteq> Some (InvalidResult x) \<Longrightarrow> bw_error w' \<noteq> Some (InvalidResult x)"
proof (induction chunks arbitrary: w)
  case (Cons c cs)
  obtain b u where b: "writer_write w c = (b, u)" by (rule prod.exhaust)
  then have "bw_error u \<noteq> Some (InvalidResult x)"
    using Cons.prems(2) by (auto simp: writer_write_def Let_def split: if_splits)
  with b Cons show ?case by (cases b) auto
qed simp

lemma encode_validated_error: "encode_validated json r limits \<noteq> Inl (InvalidResult x)"
proof
  assume a: "encode_validated json r limits = Inl (InvalidResult x)"
  obtain ok w where w: "write_chunks (bounded_writer_new (saturating_sub (cl_max_encoded_bytes limits) 1))
      (fst (rj_chunks json r)) = (ok, w)" by (rule prod.exhaust)
  have "bw_error w \<noteq> Some (InvalidResult x)"
    using w by (rule write_chunks_error) (simp add: bounded_writer_new_def)
  moreover have "push_lf w l \<noteq> Inl (InvalidResult x)" for l
    by (simp add: push_lf_def result_enforce_size_def)
  moreover have "result_enforce_nesting bs l \<noteq> Inl (InvalidResult x)" for bs l
  proof -
    have "nesting_error e \<noteq> InvalidResult x" for e by (cases e) (simp_all add: nesting_error_def)
    then show ?thesis by (metis map_err_Inl_iff result_enforce_nesting_def)
  qed
  ultimately show False
    using a w by (auto simp: encode_validated_def bind_res_Inl_iff split: if_splits option.splits)
qed

lemma validate_completed_cases:
  assumes "result_validate r limits = Inr ()"
  shows "(\<exists>e. validate_completed_result json r limits = Inl (InvalidCompilationEncoding e)) \<or>
    validate_completed_result json r limits = Inr ()"
proof (cases "encode_validated json r limits")
  case (Inl e)
  with assms encode_validated_error [of json r limits] show ?thesis
    by (cases e) (auto simp: validate_completed_result_def to_canonical_json_def)
next
  case (Inr bs)
  with assms show ?thesis by (simp add: validate_completed_result_def to_canonical_json_def)
qed

text \<open>What becomes of a valid request that got its identities.\<close>

lemma compile_completed:
  assumes v: "envelope_validate v limits = Inr ()" "env_base_revision v = sv_revision scene"
    and plan: "plan_entities sha (compiler_config_new limits) v scene = Inr (es0, ds)" and m: "moderate_limits limits"
  shows "\<exists>r. result_validate r (for_runtime_limits limits) = Inr () \<and>
    compile_imagination sha json (compiler_config_new limits) v scene =
      map_err Err (bind_res (validate_completed_result json r (for_runtime_limits limits)) (\<lambda>_. Inr r)) \<and>
    (\<forall>ps. resolve_relations v scene es0 = Inr (ps, []) \<longrightarrow> cr_patch r = Some (patch_of_plans v ps))"
proof -
  let ?config = "compiler_config_new limits"
  have cfg: "cc_runtime_limits ?config = limits" "cc_compilation_limits ?config = for_runtime_limits limits"
    by (simp_all add: compiler_config_new_def)
  from compile_cases [of v ?config scene sha es0 ds json, unfolded cfg, OF v plan]
  obtain ids dss us ps where c: "length ids = length (env_entities v)"
      "es0 = map2 planned (sorted_entities v) ids" "distinct ids" "ds = concat dss"
      "list_all2 entity_decisions (sorted_entities v) dss" "relation_issues (env_relations v) us"
      "resolve_relations v scene es0 = Inr (ps, check_scene_constraints v scene @ us)"
    and un: "check_scene_constraints v scene @ us \<noteq> [] \<longrightarrow> compile_imagination sha json ?config v scene =
      map_err Err (complete_unresolved json ?config v scene ds (check_scene_constraints v scene @ us))"
    and co: "check_scene_constraints v scene @ us = [] \<longrightarrow> (\<exists>es. resolved_plans es0 (env_relations v) es ps) \<and>
      compile_imagination sha json ?config v scene =
        map_err Err (complete_compiled json ?config v scene ps ds (patch_of_plans v ps))" by blast
  show ?thesis
  proof (cases "check_scene_constraints v scene @ us = []")
    case False
    let ?r = "completed_result v scene None (sort_by decision_cmp (concat dss))
      (remdups_adj (sort_by unresolved_cmp (check_scene_constraints v scene @ us)))"
    have "result_validate ?r (for_runtime_limits limits) = Inr ()"
      by (rule unresolved_result_valid [OF v(1) m c(5,6) False])
    moreover have "complete_unresolved json ?config v scene ds (check_scene_constraints v scene @ us) =
        bind_res (validate_completed_result json ?r (for_runtime_limits limits)) (\<lambda>_. Inr ?r)"
      unfolding complete_unresolved_def Let_def c(4) cfg ..
    ultimately show ?thesis using un False c(7) by (intro exI [of _ ?r]) (simp del: append_is_Nil_conv)
  next
    case True
    with co obtain es where r: "resolved_plans es0 (env_relations v) es ps" by blast
    let ?r = "completed_result v scene (Some (patch_of_plans v ps))
      (sort_by decision_cmp (append_relation_decisions ps (concat dss))) []"
    have "result_validate ?r (for_runtime_limits limits) = Inr ()"
      by (rule compiled_result_valid [OF v m c(1,3,5) r [unfolded c(2)]])
    moreover have "complete_compiled json ?config v scene ps ds (patch_of_plans v ps) =
        bind_res (validate_completed_result json ?r (for_runtime_limits limits)) (\<lambda>_. Inr ?r)"
      using compiled_patch_valid [OF v(1) m c(1,3) r [unfolded c(2)]]
      unfolding complete_compiled_def Let_def c(4) cfg by simp
    moreover have "cr_patch ?r = Some (patch_of_plans v ps)" by (simp add: completed_result_def)
    ultimately show ?thesis using co True c(7) by (intro exI [of _ ?r]) simp
  qed
qed


end
