(* ===== verification/Compiler_Example.thy ===== *)
theory Compiler_Example
  imports Compiler_Theorems
begin

text \<open>
  A request on which the properties of the compiler are instantiated: two cubes, one placed
  above the other, with preferred identities, compiled for an empty scene.
\<close>

definition request_key :: "u8 \<Rightarrow> scene_text" where
  "request_key c = SceneText [c]"

definition unit_cube :: primitive_component where
  "unit_cube = \<lparr> prim_shape = Cuboid, prim_dimensions =
     \<lparr> pvec3_x = mk_positive_f32 f32_one, pvec3_y = mk_positive_f32 f32_one, pvec3_z = mk_positive_f32 f32_one \<rparr> \<rparr>"

definition request_entity :: "u8 \<Rightarrow> u128 \<Rightarrow> imagined_entity" where
  "request_entity c i =
     \<lparr> ie_key = request_key c, ie_preferred_id = Some (StableEntityId i), ie_name = None,
       ie_primitive = unit_cube, ie_transform = None, ie_material = None \<rparr>"

definition request :: imagination_envelope where
  "request =
     \<lparr> env_schema_version = V1, env_imagination_id = ImaginationId 1, env_transaction_id = TransactionId 1,
       env_idempotency_key = IdempotencyKey 1, env_base_revision = INITIAL, env_delivery = MustApply,
       env_seed = 0, env_declared_budget = imagination_budget_default,
       env_entities = [request_entity 98 2, request_entity 97 1],
       env_relations = [RelAbove (request_key 98) (request_key 97) (mk_non_negative_f32 0)],
       env_constraints = [] \<rparr>"

lemmas request_defs = request_def request_entity_def request_key_def

lemma moderate_default: "moderate_limits runtime_limits_default"
  by (simp add: moderate_limits_def runtime_limits_default_def)

lemmas size_defs = text_len_def len_bytes_def arith_defs saturating_mul_def collection_count_def

lemma request_entities_valid:
  "imagined_entities_validate (env_entities request) bs_empty 0 0 = Inr (2, 2)"
  by (simp add: request_defs optional_validate_def entity_name_def bs_mem_iff size_defs)

lemma request_sizes:
  "normalized_patch_size_bytes request = 286" "envelope_logical_size_bytes request = 232"
  by (simp_all add: normalized_patch_size_bytes_def envelope_logical_size_bytes_def request_defs
      create_size_def entity_name_def imagined_logical_size_def relation_logical_size_bytes_def
      relation_text_bytes_def reparent_count_def option_bytes_def size_defs)

lemma request_valid: "envelope_validate request runtime_limits_default = Inr ()"
proof -
  have "validate_collection_limits request runtime_limits_default = Inr ()"
    by (simp add: validate_collection_limits_def exceeds_def request_def runtime_limits_default_def
        imagination_budget_default_def size_defs)
  moreover have "validate_patch_budget patch_budget_default runtime_limits_default = Inr ()"
    by (simp add: validate_patch_budget_def runtime_limits_default_def patch_budget_default_def)
  moreover have "env_declared_budget request = imagination_budget_default" "env_schema_version request = V1"
    "len_or_max (delivery_text_bytes (env_delivery request)) = (0 :: u64)"
    by (simp_all add: request_def arith_defs)
  moreover have "foldl (\<lambda>n r. saturating_add n (relation_text_bytes r)) 2 (env_relations request) = 4"
    by (simp add: request_defs relation_text_bytes_def size_defs)
  moreover have "output_operations request = 2" "collection_count (length (env_entities request)) = 2"
    by (simp_all add: output_operations_def reparent_count_def request_def size_defs)
  ultimately show ?thesis
    using request_entities_valid request_sizes
    by (simp add: envelope_validate_def validate_schema_def validate_entities_and_output_def validate_output_def
        imagination_budget_default_def runtime_limits_default_def patch_budget_default_def saturating_mul_def)
qed

definition request_view :: compilation_scene_view where
  "request_view = scene_view_new INITIAL []"

section \<open>Its compilation\<close>

lemma request_sorted: "sort_by key_cmp (env_entities request) = [request_entity 97 1, request_entity 98 2]"
  by (simp add: request_defs sort_by_def key_cmp_def cmp_def less_scene_text_def less_eq_scene_text_def)

lemma request_planned:
  "plan_entities sha config request request_view =
     Inr ([planned (request_entity 97 1) (StableEntityId 1), planned (request_entity 98 2) (StableEntityId 2)],
       defaults_of (request_entity 97 1) @ defaults_of (request_entity 98 2))"
  by (simp add: plan_entities_def request_sorted choose_entity_id_def request_entity_def preferred_unavailable_def
     view_contains_def request_view_def scene_view_new_def bs_mem_iff plan_entity_eq del: bm_contains_iff)

abbreviation request_plans :: "entity_plan list" where
  "request_plans \<equiv> [planned (request_entity 97 1) (StableEntityId 1), planned (request_entity 98 2) (StableEntityId 2)]"

lemma request_index:
  "bm_get (key_index_of request_plans) (request_key 97) = Some 0"
  "bm_get (key_index_of request_plans) (request_key 98) = Some 1"
proof -
  have d: "distinct (map ep_key request_plans)" by (simp add: request_entity_def request_key_def)
  show "bm_get (key_index_of request_plans) (request_key 97) = Some 0"
    "bm_get (key_index_of request_plans) (request_key 98) = Some 1"
    unfolding key_index_get [OF d] by (simp_all add: request_entity_def)
qed

lemma request_assigned:
  "assign_relations request (key_index_of request_plans) (request_plans, us) =
     Some ([planned (request_entity 97 1) (StableEntityId 1),
       set_placement 0 (request_key 97) (Above 0) (planned (request_entity 98 2) (StableEntityId 2))], us)"
proof -
  have "request_key 98 \<noteq> request_key 97" "env_relations request = [RelAbove (request_key 98) (request_key 97) (mk_non_negative_f32 0)]"
    "non_negative_get (mk_non_negative_f32 0) = 0"
    by (simp_all add: request_key_def request_def non_negative_f32.get_mk f32_constants_ok)
  then show ?thesis
    using request_index by (simp add: assign_relations_def relate_def check_relation_def len_or_max_def domI)
qed

lemma half_sums:
  "f32_mul (f32_mul f32_one f32_one) f32_half = f32_half" "f32_add 0 f32_half = f32_half"
  "f32_add f32_half 0 = f32_half" "f32_add f32_half f32_half = f32_one" "f32_eq 0 0"
  by (simp_all add: f32_mul_def f32_add_def f32_value_def f32_of_value_def f32_compare_defs float_eval_defs)

abbreviation lower_plan :: entity_plan where
  "lower_plan \<equiv> planned (request_entity 97 1) (StableEntityId 1)"

abbreviation upper_plan :: entity_plan where
  "upper_plan \<equiv> set_placement 0 (request_key 97) (Above 0) (planned (request_entity 98 2) (StableEntityId 2))"

abbreviation placed_plan :: entity_plan where
  "placed_plan \<equiv> upper_plan\<lparr> ep_transform := identity_transform\<lparr> lt_translation :=
     \<lparr> vec3_x = mk_finite_f32 0, vec3_y = mk_finite_f32 f32_one, vec3_z = mk_finite_f32 0 \<rparr> \<rparr> \<rparr>"

lemma plan_values:
  "ep_placement lower_plan = None" "ep_parent lower_plan = None" "ep_parent upper_plan = None"
  "ep_placement upper_plan = Some \<lparr> pl_relation_index = 0, pl_anchor = request_key 97, pl_kind = Above 0 \<rparr>"
  "ep_transform lower_plan = identity_transform" "ep_transform upper_plan = identity_transform"
  "ep_primitive lower_plan = unit_cube" "ep_primitive upper_plan = unit_cube"
  by (simp_all add: set_placement_def planned_def plan_entity_def request_entity_def)

lemma request_placed: "place_subject upper_plan \<lparr> pl_relation_index = 0, pl_anchor = request_key 97, pl_kind = Above 0 \<rparr> lower_plan
    = Inr placed_plan"
proof -
  have "finite_get (mk_finite_f32 0) = 0" "positive_get (mk_positive_f32 f32_one) = f32_one"
    "ie_primitive (request_entity c i) = unit_cube" for c i
    by (simp_all add: finite_f32.get_mk positive_f32.get_mk f32_constants_ok request_entity_def)
  then show ?thesis
    by (simp add: place_subject_def is_unrotated_def placed_translation_def stacked_coordinate_def plan_values
        identity_transform_def unit_cube_def half_sums compiler_constants)
qed

lemma request_marked:
  "reject_parented_placement_anchors [lower_plan, upper_plan] (key_index_of request_plans) us = Some us"
  "mark_cycles [lower_plan, upper_plan] (key_index_of request_plans) us = Some us"
proof -
  show "reject_parented_placement_anchors [lower_plan, upper_plan] (key_index_of request_plans) us = Some us"
    by (simp add: reject_parented_placement_anchors_def plan_values request_index)
  show "mark_cycles [lower_plan, upper_plan] (key_index_of request_plans) us = Some us"
    by (simp add: mark_cycles_def mark_relation_cycles_def cycle_walk.simps parent_next_def placement_next_def
        plan_values request_index)
qed

lemma request_resolved: "resolve_relations request request_view request_plans = Inr ([lower_plan, placed_plan], [])"
proof -
  have "check_scene_constraints request request_view = []" by (simp add: check_scene_constraints_def request_def List.map_filter_def)
  moreover have "resolve_placements [lower_plan, upper_plan] (key_index_of request_plans) [] = Inr ([lower_plan, placed_plan], [])"
    by (simp add: resolve_placements_def resolve_placement.simps plan_values request_index request_placed)
  ultimately show ?thesis
    by (simp add: resolve_relations_def request_assigned request_marked)
qed

definition request_writer :: result_json where
  "request_writer =
     \<lparr> rj_chunks = (\<lambda>_. ([[123, 125]], True)), rj_from_slice = (\<lambda>_. Inl (Syntax, 1, 1)) \<rparr>"

lemma request_written:
  assumes "result_validate r (for_runtime_limits runtime_limits_default) = Inr ()"
  shows "validate_completed_result request_writer r (for_runtime_limits runtime_limits_default) = Inr ()"
proof -
  have "encode_validated request_writer r (for_runtime_limits runtime_limits_default) = Inr [123, 125, 10]"
    by (simp add: encode_validated_def request_writer_def bounded_writer_new_def writer_write_def
        push_lf_def result_enforce_size_def result_enforce_nesting_def scan_byte_def scan_string_def
        nesting_start_def for_runtime_limits_def derived_encoded_def derived_nesting_def
        derived_decisions_def derived_unresolved_def derived_text_def saturating_mul_def
        runtime_limits_default_def arith_defs)
  with assms show ?thesis by (simp add: validate_completed_result_def to_canonical_json_def)
qed

abbreviation request_patch :: scene_patch where
  "request_patch \<equiv> patch_of_plans request [lower_plan, placed_plan]"

lemma request_compiled:
  "\<exists>r. compile_imagination sha request_writer (compiler_config_new runtime_limits_default) request request_view = Inr r \<and>
     cr_patch r = Some request_patch"
proof -
  have "env_base_revision request = sv_revision request_view"
    by (simp add: request_def request_view_def scene_view_new_def)
  from compile_completed [OF request_valid this request_planned moderate_default, of sha request_writer]
  obtain r where "result_validate r (for_runtime_limits runtime_limits_default) = Inr ()"
    "compile_imagination sha request_writer (compiler_config_new runtime_limits_default) request request_view =
      map_err Err (bind_res (validate_completed_result request_writer r (for_runtime_limits runtime_limits_default)) (\<lambda>_. Inr r))"
    "cr_patch r = Some request_patch" using request_resolved by blast
  with request_written show ?thesis by auto
qed

theorem compiled_relations_hold_witness:
  "realises request request_patch (RelAbove (request_key 98) (request_key 97) (mk_non_negative_f32 0))"
proof -
  have "RelAbove (request_key 98) (request_key 97) (mk_non_negative_f32 0) \<in> set (env_relations request)"
    by (simp add: request_def)
  with request_compiled [of "\<lambda>_. []"] compiled_relations_hold show ?thesis by blast
qed


end
