(* ===== verification/Spec2Isabelle.thy ===== *)
theory Spec2Isabelle
  imports Replay_Exhaustion Protocol_Query Compiler_Example
begin

text \<open>
  Verification of the cogniform scene engine.

  The engine keeps one authoritative scene: entities with stable identities, typed
  components, and a parent relation. Clients submit patches, ordered lists of operations
  that are accepted or rejected as a whole; renderers and observers read what changed.
  The theories follow the crates under \<open>src/crates\<close>.
\<close>

end
